(* ===== verification/Prelude.thy ===== *)
theory Prelude
  imports Main "HOL-Library.Word"
begin

text \<open>
  Shared vocabulary of the development: machine integers and byte slices, the fixed-width
  encodings of Go's \<^verbatim>\<open>encoding/binary\<close>, slicing and \<^verbatim>\<open>copy\<close>, decimal and hexadecimal text as
  \<^verbatim>\<open>strconv\<close> and \<^verbatim>\<open>encoding/hex\<close> read and print it, and the lemma collections that the component
  theories extend.
\<close>

unbundle bit_operations_syntax

section \<open>Types\<close>

type_synonym u8 = "8 word"
type_synonym u16 = "16 word"
type_synonym u32 = "32 word"
type_synonym u64 = "64 word"
type_synonym bytes = "8 word list"

text \<open>Lemma collections the component theories add to.\<close>

named_theorems len_simps \<open>lengths of encoded and written byte slices\<close>
named_theorems wire_simps \<open>round trips of wire encodings\<close>

section \<open>Slices\<close>

text \<open>Go's \<^verbatim>\<open>b[lo:hi]\<close> on a slice that has at least \<open>hi\<close> bytes.\<close>

definition subslice :: "nat \<Rightarrow> nat \<Rightarrow> 'a list \<Rightarrow> 'a list" where
  "subslice lo hi xs = take (hi - lo) (drop lo xs)"

text \<open>
  Go's \<^verbatim>\<open>copy(dst[off:], src)\<close>: writes the common length of the destination's rest and the
  source, and never grows the destination.
\<close>

definition copy_at :: "nat \<Rightarrow> 'a list \<Rightarrow> 'a list \<Rightarrow> 'a list" where
  "copy_at off src dst =
     take off dst @ take (length dst - off) src @ drop (off + length src) dst"

lemma length_subslice [len_simps, simp]:
  "length (subslice lo hi xs) = min (hi - lo) (length xs - lo)"
  by (simp add: subslice_def)

lemma length_copy_at [len_simps, simp]: "length (copy_at off src dst) = length dst"
  by (auto simp: copy_at_def)

lemma copy_at_fits:
  "off + length src \<le> length dst \<Longrightarrow>
   copy_at off src dst = take off dst @ src @ drop (off + length src) dst"
  by (simp add: copy_at_def)

lemma subslice_append_left: "hi \<le> length xs \<Longrightarrow> subslice lo hi (xs @ ys) = subslice lo hi xs"
  by (simp add: subslice_def)

lemma subslice_append_right:
  "length xs \<le> lo \<Longrightarrow> subslice lo hi (xs @ ys) = subslice (lo - length xs) (hi - length xs) ys"
  by (simp add: subslice_def)

lemma subslice_all: "subslice 0 (length xs) xs = xs"
  by (simp add: subslice_def)

lemma nth_subslice: "i < hi - lo \<Longrightarrow> hi \<le> length xs \<Longrightarrow> subslice lo hi xs ! i = xs ! (lo + i)"
  by (simp add: subslice_def)

lemma drop_copy_at:
  assumes "off + length src \<le> n"
  shows "drop n (copy_at off src dst) = drop n dst"
proof (cases "off + length src \<le> length dst")
  case True
  with assms show ?thesis by (simp add: copy_at_fits)
next
  case False
  with assms show ?thesis by simp
qed

text \<open>
  A write of \<open>src\<close> into \<open>dst[off:off+len(src)]\<close> with Go's bounds check: \<^const>\<open>None\<close> is the panic.
\<close>

definition put_at :: "nat \<Rightarrow> bytes \<Rightarrow> bytes \<Rightarrow> bytes option" where
  "put_at off src dst =
     (if off + length src \<le> length dst
      then Some (take off dst @ src @ drop (off + length src) dst) else None)"

lemma put_at_fits [simp]:
  "off + length src \<le> length dst \<Longrightarrow>
   put_at off src dst = Some (take off dst @ src @ drop (off + length src) dst)"
  by (simp add: put_at_def)

lemma length_put_at: "put_at off src dst = Some d \<Longrightarrow> length d = length dst"
  by (auto simp: put_at_def split: if_splits)

text \<open>Two adjacent writes are one.\<close>

lemma put_at_bind:
  assumes "o' = off + length a"
  shows "Option.bind (put_at off a p) (\<lambda>p1. Option.bind (put_at o' b p1) f) =
    Option.bind (put_at off (a @ b) p) f"
proof (cases "off + length a \<le> length p")
  case True
  let ?x = "take off p" and ?y = "take (length a) (drop off p)" and ?z = "drop (off + length a) p"
  have "p = ?x @ ?y @ ?z" by (metis append_take_drop_id drop_drop add.commute)
  then obtain x y z where "p = x @ y @ z" "length x = off" "length y = length a" using True by fastforce
  then show ?thesis using assms by (simp add: put_at_def)
qed (simp add: put_at_def)

lemma put_at_0: "length a \<le> length p \<Longrightarrow> put_at 0 a p = Some (a @ drop (length a) p)"
  by simp

section \<open>Fixed-width integers on the wire\<close>

text \<open>\<^verbatim>\<open>binary.BigEndian\<close> and \<^verbatim>\<open>binary.LittleEndian\<close>: \<^verbatim>\<open>PutUint\<close>/\<^verbatim>\<open>AppendUint\<close> and \<^verbatim>\<open>Uint\<close>.\<close>

definition put_be16 :: "u16 \<Rightarrow> bytes" where
  "put_be16 w = [ucast (drop_bit 8 w), ucast w]"

definition put_be32 :: "u32 \<Rightarrow> bytes" where
  "put_be32 w = [ucast (drop_bit 24 w), ucast (drop_bit 16 w), ucast (drop_bit 8 w), ucast w]"

definition put_be64 :: "u64 \<Rightarrow> bytes" where
  "put_be64 w = [ucast (drop_bit 56 w), ucast (drop_bit 48 w), ucast (drop_bit 40 w),
     ucast (drop_bit 32 w), ucast (drop_bit 24 w), ucast (drop_bit 16 w), ucast (drop_bit 8 w), ucast w]"

definition put_le32 :: "u32 \<Rightarrow> bytes" where "put_le32 w = rev (put_be32 w)"
definition put_le64 :: "u64 \<Rightarrow> bytes" where "put_le64 w = rev (put_be64 w)"

definition get_be16 :: "bytes \<Rightarrow> u16" where
  "get_be16 b = push_bit 8 (ucast (b ! 0)) OR ucast (b ! 1)"

definition get_be32 :: "bytes \<Rightarrow> u32" where
  "get_be32 b = push_bit 24 (ucast (b ! 0)) OR push_bit 16 (ucast (b ! 1)) OR
     push_bit 8 (ucast (b ! 2)) OR ucast (b ! 3)"

definition get_be64 :: "bytes \<Rightarrow> u64" where
  "get_be64 b = push_bit 56 (ucast (b ! 0)) OR push_bit 48 (ucast (b ! 1)) OR
     push_bit 40 (ucast (b ! 2)) OR push_bit 32 (ucast (b ! 3)) OR push_bit 24 (ucast (b ! 4)) OR
     push_bit 16 (ucast (b ! 5)) OR push_bit 8 (ucast (b ! 6)) OR ucast (b ! 7)"

definition get_le32 :: "bytes \<Rightarrow> u32" where "get_le32 b = get_be32 (rev (take 4 b))"
definition get_le64 :: "bytes \<Rightarrow> u64" where "get_le64 b = get_be64 (rev (take 8 b))"

lemma length_put [len_simps, simp]:
  "length (put_be16 a) = 2" "length (put_be32 b) = 4" "length (put_be64 c) = 8"
  "length (put_le32 b) = 4" "length (put_le64 c) = 8"
  by (simp_all add: put_be16_def put_be32_def put_be64_def put_le32_def put_le64_def)

lemma put_nonempty [simp]:
  "put_be16 a \<noteq> []" "put_be32 b \<noteq> []" "put_be64 c \<noteq> []" "put_le32 b \<noteq> []" "put_le64 c \<noteq> []"
  by (simp_all add: put_be16_def put_be32_def put_be64_def put_le32_def put_le64_def)

lemma unat_ucast8: "unat (ucast w :: u8) = unat w mod 256" for w :: "'a::len word"
  by (simp add: unsigned_ucast_eq take_bit_eq_mod)

lemma join_byte:
  "push_bit k (take_bit 8 (drop_bit k w)) OR take_bit k w = take_bit (k + 8) w"
  for w :: "'a::len word"
  by (rule bit_eqI) (auto simp: bit_simps)

lemma low_byte: "ucast (ucast w :: u8) = take_bit 8 w" for w :: "'a::len word"
  by (rule bit_eqI) (auto simp: bit_simps)

lemma take_bit_all [simp]:
  "take_bit 16 (a :: u16) = a" "take_bit 32 (b :: u32) = b" "take_bit 64 (c :: u64) = c"
  by (rule bit_eqI, simp add: bit_simps)+

lemma get_put_be16 [wire_simps, simp]: "get_be16 (put_be16 w @ r) = w"
  by (simp add: get_be16_def put_be16_def low_byte join_byte)

lemma get_put_be32 [wire_simps, simp]: "get_be32 (put_be32 w @ r) = w"
  by (simp add: get_be32_def put_be32_def low_byte join_byte)

lemma get_put_be64 [wire_simps, simp]: "get_be64 (put_be64 w @ r) = w"
  by (simp add: get_be64_def put_be64_def low_byte join_byte)

lemma get_put_le32 [wire_simps, simp]: "get_le32 (put_le32 w @ r) = w"
  using get_put_be32 [of w "[]"] by (simp add: get_le32_def put_le32_def)

lemma get_put_le64 [wire_simps, simp]: "get_le64 (put_le64 w @ r) = w"
  using get_put_be64 [of w "[]"] by (simp add: get_le64_def put_le64_def)

lemmas get_put_nil [wire_simps, simp] =
  get_put_be16 [where r = "[]", simplified] get_put_be32 [where r = "[]", simplified]
  get_put_be64 [where r = "[]", simplified] get_put_le32 [where r = "[]", simplified]
  get_put_le64 [where r = "[]", simplified]

section \<open>Decimal text\<close>

text \<open>
  \<^verbatim>\<open>strconv\<close>: \<^verbatim>\<open>ParseUint(s, 10, bits)\<close> and \<^verbatim>\<open>Atoi\<close> on a 64-bit platform. Digits are read from the
  left; a non-digit is a syntax error and a value past the maximum a range error, whichever comes
  first.
\<close>

datatype numError = ErrSyntax | ErrRange

definition ord_of :: "char \<Rightarrow> nat" where
  "ord_of c = of_char c"

definition is_digit :: "char \<Rightarrow> bool" where
  "is_digit c \<longleftrightarrow> 48 \<le> ord_of c \<and> ord_of c \<le> 57"

fun parseDigits :: "nat \<Rightarrow> nat \<Rightarrow> string \<Rightarrow> numError + nat" where
  "parseDigits mx acc [] = Inr acc"
| "parseDigits mx acc (c # cs) =
     (if \<not> is_digit c then Inl ErrSyntax
      else if acc * 10 + (ord_of c - 48) > mx then Inl ErrRange
      else parseDigits mx (acc * 10 + (ord_of c - 48)) cs)"

definition parseUint :: "nat \<Rightarrow> string \<Rightarrow> numError + nat" where
  "parseUint bits s = (if s = [] then Inl ErrSyntax else parseDigits (2 ^ bits - 1) 0 s)"

definition atoi :: "string \<Rightarrow> numError + int" where
  "atoi s =
     (let neg = (s \<noteq> [] \<and> hd s = CHR ''-'');
          ds = (if s \<noteq> [] \<and> (hd s = CHR ''-'' \<or> hd s = CHR ''+'') then tl s else s)
      in if ds = [] then Inl ErrSyntax
         else case parseDigits (2 ^ 64 - 1) 0 ds of
                Inl e \<Rightarrow> Inl e
              | Inr n \<Rightarrow>
                  if \<not> neg \<and> n \<ge> 2 ^ 63 \<or> neg \<and> n > 2 ^ 63 then Inl ErrRange
                  else Inr (if neg then - int n else int n))"

text \<open>\<^verbatim>\<open>fmt\<close>'s \<^verbatim>\<open>%d\<close> on a non-negative value.\<close>

fun showNat :: "nat \<Rightarrow> string" where
  "showNat n = (if n < 10 then [char_of (48 + n)] else showNat (n div 10) @ [char_of (48 + n mod 10)])"

declare showNat.simps [simp del]

lemma ord_of_char_of [simp]: "n < 256 \<Longrightarrow> ord_of (char_of n) = n"
  by (simp add: ord_of_def of_char_of)

lemma showNat_nonempty [simp]: "showNat n \<noteq> []"
  by (subst showNat.simps) simp

lemma showNat_digits: "c \<in> set (showNat n) \<Longrightarrow> is_digit c"
proof (induction n rule: showNat.induct)
  case (1 n)
  then show ?case
    by (subst (asm) (2) showNat.simps) (auto simp: is_digit_def split: if_splits)
qed

lemma parseDigits_digit:
  "a * 10 + d \<le> mx \<Longrightarrow> d < 10 \<Longrightarrow> parseDigits mx a (char_of (48 + d) # cs) = parseDigits mx (a * 10 + d) cs"
  by (simp add: is_digit_def)

lemma parseDigits_showNat:
  "acc * 10 ^ length (showNat n) + n \<le> mx \<Longrightarrow>
   parseDigits mx acc (showNat n @ cs) = parseDigits mx (acc * 10 ^ length (showNat n) + n) cs"
proof (induction n arbitrary: cs rule: showNat.induct)
  case (1 n)
  show ?case
  proof (cases "n < 10")
    case True
    then have "showNat n = [char_of (48 + n)]" by (simp add: showNat.simps [of n])
    with 1 True show ?thesis by (simp add: is_digit_def)
  next
    case False
    let ?d = "char_of (48 + n mod 10) :: char"
    have s: "showNat n = showNat (n div 10) @ [?d]"
      using False by (simp add: showNat.simps [of n])
    let ?a = "acc * 10 ^ length (showNat (n div 10)) + n div 10"
    have n: "?a * 10 + n mod 10 = acc * 10 ^ length (showNat n) + n"
      unfolding s by (simp add: algebra_simps)
    moreover have "?a \<le> ?a * 10 + n mod 10" by simp
    ultimately have "?a \<le> mx" using "1.prems" by (metis le_trans)
    then have "parseDigits mx acc (showNat (n div 10) @ [?d] @ cs) = parseDigits mx ?a ([?d] @ cs)"
      using "1.IH" [of "[?d] @ cs"] False by simp
    moreover have "parseDigits mx ?a (?d # cs) = parseDigits mx (?a * 10 + n mod 10) cs"
    proof (rule parseDigits_digit)
      show "?a * 10 + n mod 10 \<le> mx" unfolding n by (rule "1.prems")
    qed simp
    ultimately show ?thesis unfolding n by (simp add: s)
  qed
qed

lemma parseDigits_show: "n \<le> mx \<Longrightarrow> parseDigits mx 0 (showNat n) = Inr n"
  using parseDigits_showNat [of 0 n mx "[]"] by simp

lemma parseDigits_bound: "parseDigits mx acc s = Inr n \<Longrightarrow> acc \<le> mx \<Longrightarrow> n \<le> mx"
  by (induction mx acc s rule: parseDigits.induct) (auto split: if_splits)

lemma parseUint_show [simp]: "n < 2 ^ bits \<Longrightarrow> parseUint bits (showNat n) = Inr n"
  by (simp add: parseUint_def parseDigits_show)

lemma parseUint_bound: "parseUint bits s = Inr n \<Longrightarrow> n < 2 ^ bits"
  by (auto simp: parseUint_def dest!: parseDigits_bound split: if_splits)
     (metis Suc_pred le_imp_less_Suc nat_zero_less_power_iff zero_less_numeral)

lemma atoi_show: "n < 2 ^ 63 \<Longrightarrow> atoi (showNat n) = Inr (int n)"
proof -
  assume n: "n < 2 ^ 63"
  have "hd (showNat n) \<in> set (showNat n)" by simp
  then have "is_digit (hd (showNat n))" by (rule showNat_digits)
  then have "hd (showNat n) \<noteq> CHR ''-''" "hd (showNat n) \<noteq> CHR ''+''"
    by (auto simp: is_digit_def ord_of_def)
  with n show ?thesis by (simp add: atoi_def parseDigits_show)
qed

section \<open>Splitting text\<close>

text \<open>\<^verbatim>\<open>strings.Split\<close> with a one-character separator and \<^verbatim>\<open>strings.Cut\<close>.\<close>

fun splitOn :: "char \<Rightarrow> string \<Rightarrow> string list" where
  "splitOn sep [] = [[]]"
| "splitOn sep (c # cs) =
     (if c = sep then [] # splitOn sep cs
      else (c # hd (splitOn sep cs)) # tl (splitOn sep cs))"

definition cut :: "char \<Rightarrow> string \<Rightarrow> (string \<times> string) option" where
  "cut sep s = (if sep \<in> set s then Some (takeWhile (\<lambda>c. c \<noteq> sep) s, tl (dropWhile (\<lambda>c. c \<noteq> sep) s))
     else None)"

lemma splitOn_nonempty [simp]: "splitOn sep s \<noteq> []"
  by (cases s) auto

lemma splitOn_code [code]:
  "splitOn sep [] = [[]]"
  "splitOn sep (c # cs) = (if c = sep then [] # splitOn sep cs else case splitOn sep cs of [] \<Rightarrow> [[c]] | f # fs \<Rightarrow> (c # f) # fs)"
  by (auto split: list.splits)

lemma splitOn_none: "sep \<notin> set s \<Longrightarrow> splitOn sep s = [s]"
  by (induction s) auto

lemma splitOn_append: "sep \<notin> set s \<Longrightarrow> splitOn sep (s @ sep # t) = s # splitOn sep t"
  by (induction s) auto

lemma cut_append: "sep \<notin> set k \<Longrightarrow> cut sep (k @ sep # v) = Some (k, v)"
proof -
  assume a: "sep \<notin> set k"
  then have "takeWhile (\<lambda>c. c \<noteq> sep) (k @ sep # v) = k" "dropWhile (\<lambda>c. c \<noteq> sep) (k @ sep # v) = sep # v"
    by (auto simp: takeWhile_append dropWhile_append)
  then show ?thesis by (simp add: cut_def)
qed

text \<open>\<^verbatim>\<open>strings.TrimSpace\<close> and \<^verbatim>\<open>strings.Fields\<close> on ASCII text.\<close>

definition is_space :: "char \<Rightarrow> bool" where
  "is_space c \<longleftrightarrow> ord_of c \<in> {9, 10, 11, 12, 13, 32}"

definition trimSpace :: "string \<Rightarrow> string" where
  "trimSpace s = rev (dropWhile is_space (rev (dropWhile is_space s)))"

fun fieldsAux :: "string \<Rightarrow> string \<Rightarrow> string list" where
  "fieldsAux cur [] = (if cur = [] then [] else [cur])"
| "fieldsAux cur (c # cs) =
     (if is_space c then (if cur = [] then fieldsAux [] cs else cur # fieldsAux [] cs)
      else fieldsAux (cur @ [c]) cs)"

definition strFields :: "string \<Rightarrow> string list" where
  "strFields s = fieldsAux [] s"

lemma length_cut: "cut sep s = Some (a, b) \<Longrightarrow> length b < length s"
proof -
  assume "cut sep s = Some (a, b)"
  then have "sep \<in> set s" "b = tl (dropWhile (\<lambda>c. c \<noteq> sep) s)" by (auto simp: cut_def split: if_splits)
  moreover have "length (dropWhile (\<lambda>c. c \<noteq> sep) s) \<le> length s" by (rule length_dropWhile_le)
  moreover have "s \<noteq> []" using calculation(1) by auto
  ultimately show ?thesis by (cases "dropWhile (\<lambda>c. c \<noteq> sep) s") auto
qed

section \<open>Hexadecimal text\<close>

text \<open>\<^verbatim>\<open>hex.DecodeString\<close> (both cases accepted, odd length refused) and \<^verbatim>\<open>hex.EncodeToString\<close>.\<close>

definition hexNibble :: "char \<Rightarrow> nat option" where
  "hexNibble c =
     (let n = ord_of c in
      if 48 \<le> n \<and> n \<le> 57 then Some (n - 48)
      else if 97 \<le> n \<and> n \<le> 102 then Some (n - 87)
      else if 65 \<le> n \<and> n \<le> 70 then Some (n - 55)
      else None)"

fun hexDecode :: "string \<Rightarrow> bytes option" where
  "hexDecode [] = Some []"
| "hexDecode [c] = None"
| "hexDecode (a # b # cs) =
     (case (hexNibble a, hexNibble b) of
        (Some x, Some y) \<Rightarrow> map_option (\<lambda>r. of_nat (16 * x + y) # r) (hexDecode cs)
      | _ \<Rightarrow> None)"

definition hexDigit :: "nat \<Rightarrow> char" where
  "hexDigit n = char_of (if n < 10 then 48 + n else 87 + n)"

definition hexEncode :: "bytes \<Rightarrow> string" where
  "hexEncode bs = concat (map (\<lambda>b. [hexDigit (unat b div 16), hexDigit (unat b mod 16)]) bs)"

lemma hexNibble_hexDigit: "n < 16 \<Longrightarrow> hexNibble (hexDigit n) = Some n"
  by (auto simp: hexNibble_def hexDigit_def Let_def)

lemma length_hexEncode [len_simps]: "length (hexEncode bs) = 2 * length bs"
  by (induction bs) (auto simp: hexEncode_def)

lemma hexDecode_hexEncode [wire_simps]: "hexDecode (hexEncode bs) = Some bs"
proof (induction bs)
  case Nil
  then show ?case by (simp add: hexEncode_def)
next
  case (Cons b bs)
  have "unat b < 256" using unsigned_less [of b] by simp
  then have "unat b div 16 < 16" "unat b mod 16 < 16" by (auto simp: less_mult_imp_div_less)
  moreover have "word_of_nat (16 * (unat b div 16) + unat b mod 16) = b" by simp
  ultimately show ?case
    using Cons by (simp add: hexEncode_def hexNibble_hexDigit)
qed

lemma length_hexDecode: "hexDecode s = Some b \<Longrightarrow> length s = 2 * length b"
  by (induction s arbitrary: b rule: hexDecode.induct) (auto split: option.splits)

section \<open>Text as bytes\<close>

definition str_bytes :: "string \<Rightarrow> bytes" where
  "str_bytes s = map of_char s"

lemma length_str_bytes [len_simps, simp]: "length (str_bytes s) = length s"
  by (simp add: str_bytes_def)

section \<open>Randomness\<close>

text \<open>
  \<^verbatim>\<open>rand.Int(rand.Reader, max)\<close> panics when \<^verbatim>\<open>max <= 0\<close> and otherwise returns some value of
  \<open>[0, max)\<close>; the entropy \<open>x\<close> selects which, and every value is selected by some entropy.
\<close>

definition randInt :: "nat \<Rightarrow> int \<Rightarrow> nat option" where
  "randInt x mx = (if mx \<le> 0 then None else Some (x mod nat mx))"

lemma randInt_range: "randInt x mx = Some r \<Longrightarrow> int r < mx"
proof -
  assume a: "randInt x mx = Some r"
  then have "0 < nat mx" and r: "r = x mod nat mx" by (auto simp: randInt_def split: if_splits)
  then have "r < nat mx" by simp
  then show ?thesis by linarith
qed

lemma randInt_onto: "int r < mx \<Longrightarrow> randInt r mx = Some r"
  by (simp add: randInt_def)

text \<open>
  The system's entropy as an infinite tape: \<^verbatim>\<open>rand.Read\<close> consumes one cell per byte, \<^verbatim>\<open>rand.Int\<close> one
  cell. Every theorem holds for all tapes.
\<close>

type_synonym tape = "nat \<Rightarrow> nat"

definition drawBytes :: "nat \<Rightarrow> tape \<Rightarrow> bytes \<times> tape" where
  "drawBytes n t = (map (\<lambda>i. word_of_nat (t i)) [0..<n], \<lambda>i. t (i + n))"

definition drawInt :: "int \<Rightarrow> tape \<Rightarrow> nat option \<times> tape" where
  "drawInt mx t = (randInt (t 0) mx, \<lambda>i. t (i + 1))"

lemma length_drawBytes [simp]: "length (fst (drawBytes n t)) = n"
  by (simp add: drawBytes_def)

section \<open>Word arithmetic without wrap-around\<close>

lemma unat_add_nowrap:
  "unat a + k < 2 ^ LENGTH('a) \<Longrightarrow> unat (a + word_of_nat k) = unat a + k" for a :: "'a::len word"
  by (simp add: unat_word_ariths unat_of_nat)

end
