(* ===== verification/Replay.thy ===== *)
theory Replay
  imports Prelude
begin

text \<open>
  The anti-replay filter of \<^verbatim>\<open>replay/replay.go\<close> (RFC 6479): a ring of 128 blocks of 64 bits and
  the highest counter accepted. The model keeps the 64-bit counters and blocks at their width and
  the clearing loop with its own guard; it refines a specification over the set of accepted
  counters, stated as the locale \<open>anti_replay\<close>.
\<close>

section \<open>The filter\<close>

definition blockBitLog :: nat where "blockBitLog = 6"
definition blockBits :: nat where "blockBits = 2 ^ blockBitLog"
definition ringBlocks :: nat where "ringBlocks = 2 ^ 7"
definition windowSize :: nat where "windowSize = (ringBlocks - 1) * blockBits"
definition blockMask :: u64 where "blockMask = of_nat (ringBlocks - 1)"
definition bitMask :: u64 where "bitMask = of_nat (blockBits - 1)"

record Filter =
  last :: u64
  ring :: "u64 list"

text \<open>The zero value of the Go struct.\<close>

definition zeroFilter :: Filter where
  "zeroFilter = \<lparr>last = 0, ring = replicate ringBlocks 0\<rparr>"

definition Reset :: "Filter \<Rightarrow> Filter" where
  "Reset f = f\<lparr>last := 0, ring := (ring f)[0 := 0]\<rparr>"

text \<open>
  The loop \<^verbatim>\<open>for i := current + 1; i <= current+diff; i++\<close>. It is written over 64-bit indices,
  so that a bound of \<^verbatim>\<open>2^64-1\<close> would make it run forever: \<open>None\<close> is a loop that does not end.
\<close>

partial_function (option) clearBlocks :: "u64 \<Rightarrow> u64 \<Rightarrow> u64 list \<Rightarrow> u64 list option" where
  "clearBlocks i hi r =
     (if i \<le> hi then clearBlocks (i + 1) hi (r[unat (i AND blockMask) := 0]) else Some r)"

declare clearBlocks.simps [code]

definition ValidateCounter :: "Filter \<Rightarrow> u64 \<Rightarrow> u64 \<Rightarrow> (Filter \<times> bool) option" where
  "ValidateCounter f counter limit =
     (if counter \<ge> limit then Some (f, False)
      else
        let indexBlock = drop_bit blockBitLog counter;
            moved =
              (if counter > last f then
                 let current = drop_bit blockBitLog (last f);
                     diff0 = indexBlock - current;
                     diff = (if diff0 > of_nat ringBlocks then of_nat ringBlocks else diff0)
                 in map_option (\<lambda>r. Some \<lparr>last = counter, ring = r\<rparr>)
                      (clearBlocks (current + 1) (current + diff) (ring f))
               else if last f - counter > of_nat windowSize then Some None
               else Some (Some f))
        in case moved of
             None \<Rightarrow> None
           | Some None \<Rightarrow> Some (f, False)
           | Some (Some g) \<Rightarrow>
               let blk = unat (indexBlock AND blockMask);
                   indexBit = unat (counter AND bitMask);
                   old = ring g ! blk;
                   new = old OR push_bit indexBit 1
               in Some (g\<lparr>ring := (ring g)[blk := new]\<rparr>, old \<noteq> new))"

section \<open>The interface a receiver relies on\<close>

text \<open>
  Feeding a sequence of counters to a filter: the final state and the counters accepted, in order.
\<close>

primrec feed :: "('f \<Rightarrow> u64 \<Rightarrow> u64 \<Rightarrow> ('f \<times> bool) option) \<Rightarrow> u64 \<Rightarrow> 'f \<Rightarrow> u64 list \<Rightarrow>
    ('f \<times> u64 list) option" where
  "feed validate limit f [] = Some (f, [])"
| "feed validate limit f (c # cs) =
     (case validate f c limit of
        None \<Rightarrow> None
      | Some (f', b) \<Rightarrow>
          map_option (\<lambda>(g, acc). (g, if b then c # acc else acc)) (feed validate limit f' cs))"

text \<open>
  \<open>valid f S\<close> relates a filter state to the set of counters it has accepted. A counter is accepted
  exactly when it is below the limit, and either above every accepted counter or inside the window
  and new.
\<close>

locale anti_replay =
  fixes validate :: "'f \<Rightarrow> u64 \<Rightarrow> u64 \<Rightarrow> ('f \<times> bool) option"
    and valid :: "'f \<Rightarrow> nat set \<Rightarrow> bool"
    and top :: "'f \<Rightarrow> nat"
    and window :: nat
  assumes valid_le_top: "valid f S \<Longrightarrow> k \<in> S \<Longrightarrow> k \<le> top f"
    and validate_spec: "valid f S \<Longrightarrow> \<exists>f' b. validate f c limit = Some (f', b) \<and>
           (b \<longleftrightarrow> c < limit \<and> (unat c > top f \<or> top f - unat c \<le> window \<and> unat c \<notin> S)) \<and>
           valid f' (if b then insert (unat c) S else S) \<and>
           top f' = (if b then max (top f) (unat c) else top f)"
begin

lemma feed_accepted:
  assumes "valid f S"
  shows "\<exists>g acc. feed validate limit f cs = Some (g, acc) \<and> distinct acc \<and> unat ` set acc \<inter> S = {} \<and>
    (\<forall>c \<in> set acc. c < limit) \<and> valid g (S \<union> unat ` set acc)"
  using assms
proof (induction cs arbitrary: f S)
  case Nil
  then show ?case by simp
next
  case (Cons c cs)
  obtain f' b where v: "validate f c limit = Some (f', b)"
    and b: "b \<longleftrightarrow> c < limit \<and> (unat c > top f \<or> top f - unat c \<le> window \<and> unat c \<notin> S)"
    and f': "valid f' (if b then insert (unat c) S else S)"
    using validate_spec [OF Cons.prems, of c limit] by blast
  obtain g acc where g: "feed validate limit f' cs = Some (g, acc)" "distinct acc"
      "unat ` set acc \<inter> (if b then insert (unat c) S else S) = {}" "\<forall>c \<in> set acc. c < limit"
      "valid g ((if b then insert (unat c) S else S) \<union> unat ` set acc)"
    using Cons.IH [OF f'] by blast
  have "b \<Longrightarrow> unat c \<notin> S"
    using b valid_le_top [OF Cons.prems, of "unat c"] by auto
  then show ?case
    using v g b by (cases b) (auto simp: Un_commute insert_commute)
qed

text \<open>Reordering within the window loses nothing.\<close>

lemma feed_complete:
  assumes "valid f S" "distinct cs" "set cs \<subseteq> {c. c < limit}" "unat ` set cs \<inter> S = {}"
    "\<forall>c \<in> set cs. top f \<le> unat c + window" "sorted_wrt (\<lambda>a b. unat a \<le> unat b + window) cs"
  shows "\<exists>g. feed validate limit f cs = Some (g, cs)"
  using assms
proof (induction cs arbitrary: f S)
  case Nil
  then show ?case by simp
next
  case (Cons c cs)
  obtain f' b where v: "validate f c limit = Some (f', b)"
    and b: "b \<longleftrightarrow> c < limit \<and> (unat c > top f \<or> top f - unat c \<le> window \<and> unat c \<notin> S)"
    and f': "valid f' (if b then insert (unat c) S else S)"
    and t: "top f' = (if b then max (top f) (unat c) else top f)"
    using validate_spec [OF Cons.prems(1), of c limit] by blast
  have b': "b" using b Cons.prems by auto
  have "\<exists>g. feed validate limit f' cs = Some (g, cs)"
    using Cons.prems f' t b'
    by (intro Cons.IH [of f' "insert (unat c) S"]) (auto simp: max_def dest: unsigned_word_eqI)
  then show ?case using v b' by auto
qed

text \<open>The accepted counters depend only on what was accepted before, not on the representation.\<close>

lemma feed_determined:
  assumes "valid f S" "valid g S" "top f = top g"
  shows "map_option snd (feed validate limit f cs) = map_option snd (feed validate limit g cs)"
  using assms
proof (induction cs arbitrary: f g S)
  case Nil
  then show ?case by simp
next
  case (Cons c cs)
  let ?b = "c < limit \<and> (unat c > top f \<or> top f - unat c \<le> window \<and> unat c \<notin> S)"
  let ?S = "if ?b then insert (unat c) S else S"
  obtain f' where f': "validate f c limit = Some (f', ?b)" "valid f' ?S"
      "top f' = (if ?b then max (top f) (unat c) else top f)"
    using validate_spec [OF Cons.prems(1), of c limit] by auto
  obtain g' where g': "validate g c limit = Some (g', ?b)" "valid g' ?S"
      "top g' = (if ?b then max (top f) (unat c) else top f)"
    using validate_spec [OF Cons.prems(2), of c limit] Cons.prems(3) by auto
  have "map_option snd (feed validate limit f' cs) = map_option snd (feed validate limit g' cs)"
    using f' g' by (intro Cons.IH) auto
  then show ?case using f'(1) g'(1)
    by (cases "feed validate limit f' cs"; cases "feed validate limit g' cs") auto
qed

end

section \<open>The ring implements the interface\<close>

lemma unat_block: "unat (drop_bit blockBitLog c) = unat c div 64" for c :: u64
  by (simp add: blockBitLog_def drop_bit_eq_div unat_div)

lemma blockMask_take_bit: "i AND blockMask = take_bit 7 i" for i :: u64
  by (simp add: blockMask_def ringBlocks_def take_bit_eq_mask mask_numeral)

lemma bitMask_take_bit: "i AND bitMask = take_bit 6 i" for i :: u64
  by (simp add: bitMask_def blockBits_def blockBitLog_def take_bit_eq_mask mask_numeral)

lemma unat_blockMask [simp]: "unat (i AND blockMask) = unat i mod 128" for i :: u64
  by (simp add: blockMask_take_bit take_bit_eq_mod unat_mod)

lemma unat_bitMask [simp]: "unat (i AND bitMask) = unat i mod 64" for i :: u64
  by (simp add: bitMask_take_bit take_bit_eq_mod unat_mod)

lemma clearBlocks_eq:
  assumes "unat i + n = Suc (unat hi)" "Suc (unat hi) < 2 ^ 64"
  shows "clearBlocks i hi r = Some (fold (\<lambda>k r. r[k mod 128 := 0]) [unat i..<unat i + n] r)"
  using assms
proof (induction n arbitrary: i r)
  case 0
  then have "\<not> i \<le> hi" by (simp add: word_le_nat_alt)
  then show ?case by (simp add: clearBlocks.simps)
next
  case (Suc n)
  then have i: "i \<le> hi" "unat (i + 1) = Suc (unat i)"
    by (auto simp: word_le_nat_alt unat_word_ariths)
  with Suc have "clearBlocks (i + 1) hi (r[unat i mod 128 := 0]) =
      Some (fold (\<lambda>k r. r[k mod 128 := 0]) [Suc (unat i)..<Suc (unat i) + n] (r[unat i mod 128 := 0]))"
    using Suc.IH [of "i + 1"] by simp
  with i show ?case by (simp add: clearBlocks.simps [of i hi r] upt_conv_Cons del: upt_Suc)
qed

lemma length_fold_clear [simp]: "length (fold (\<lambda>k r. r[k mod 128 := 0]) ks r) = length r"
  by (induction ks arbitrary: r) auto

lemma nth_fold_clear:
  "j < length r \<Longrightarrow> fold (\<lambda>k r. r[k mod 128 := 0]) ks r ! j =
     (if j \<in> (\<lambda>k. k mod 128) ` set ks then 0 else r ! j)" for r :: "u64 list"
  by (induction ks arbitrary: r) (auto simp: nth_list_update)

lemma nth_fold_clear_upt:
  "j < length r \<Longrightarrow> fold (\<lambda>k r. r[k mod 128 := 0]) [Suc a..<Suc a + n] r ! j =
     (if \<exists>k. a < k \<and> k \<le> a + n \<and> k mod 128 = j then 0 else r ! j)" for r :: "u64 list"
proof -
  have "set [Suc a..<Suc a + n] = {k. a < k \<and> k \<le> a + n}" by auto
  then show "j < length r \<Longrightarrow> ?thesis" by (simp only: nth_fold_clear image_iff Bex_def mem_Collect_eq) auto
qed

text \<open>
  The ring holds the bits of the 128 blocks up to the block of the highest counter; older blocks
  have been overwritten and newer ones are stale until the window moves over them.
\<close>

definition inRing :: "nat \<Rightarrow> nat \<Rightarrow> bool" where
  "inRing hi c \<longleftrightarrow> c div 64 \<le> hi div 64 \<and> hi div 64 < c div 64 + 128"

definition filterInv :: "Filter \<Rightarrow> nat set \<Rightarrow> bool" where
  "filterInv f S \<longleftrightarrow> length (ring f) = ringBlocks \<and> (\<forall>c\<in>S. c \<le> unat (last f)) \<and>
     (\<forall>c. inRing (unat (last f)) c \<longrightarrow> bit (ring f ! (c div 64 mod 128)) (c mod 64) = (c \<in> S))"

lemma filterInv_zero: "filterInv zeroFilter {}"
  by (simp add: filterInv_def zeroFilter_def ringBlocks_def)

lemma filterInv_Reset: "length (ring f) = ringBlocks \<Longrightarrow> filterInv (Reset f) {}"
  by (auto simp: filterInv_def Reset_def ringBlocks_def inRing_def)

text \<open>Moving the window clears exactly the blocks that become visible.\<close>

definition advance :: "Filter \<Rightarrow> u64 \<Rightarrow> Filter option" where
  "advance f counter =
     (let current = drop_bit blockBitLog (last f);
          diff0 = drop_bit blockBitLog counter - current;
          diff = (if diff0 > of_nat ringBlocks then of_nat ringBlocks else diff0)
      in map_option (\<lambda>r. \<lparr>last = counter, ring = r\<rparr>)
           (clearBlocks (current + 1) (current + diff) (ring f)))"

definition mark :: "Filter \<Rightarrow> u64 \<Rightarrow> Filter \<times> bool" where
  "mark g counter =
     (let blk = unat (drop_bit blockBitLog counter AND blockMask);
          old = ring g ! blk;
          new = old OR push_bit (unat (counter AND bitMask)) 1
      in (g\<lparr>ring := (ring g)[blk := new]\<rparr>, old \<noteq> new))"

lemma ValidateCounter_cases:
  "ValidateCounter f counter limit =
     (if counter \<ge> limit then Some (f, False)
      else if counter > last f then map_option (\<lambda>g. mark g counter) (advance f counter)
      else if last f - counter > of_nat windowSize then Some (f, False)
      else Some (mark f counter))"
  by (simp add: ValidateCounter_def advance_def mark_def Let_def option.map_comp o_def
      split: option.splits)

lemma mod128_window:
  fixes a b :: nat
  assumes "a mod 128 = b mod 128" "a < b" "b < a + 128"
  shows False
proof -
  have "128 dvd b - a" using assms by (simp add: mod_eq_dvd_iff_nat [of a b, symmetric])
  moreover have "0 < b - a" "b - a < 128" using assms by auto
  ultimately show False using nat_dvd_not_less by blast
qed

lemma mod128_cover:
  fixes a b :: nat
  shows "\<exists>k. a < k \<and> k \<le> a + 128 \<and> k mod 128 = b mod 128"
proof (intro exI conjI)
  let ?k = "Suc a + (b + 127 * Suc a) mod 128"
  show "a < ?k" by simp
  have "(b + 127 * Suc a) mod 128 < 128" by simp
  then show "?k \<le> a + 128" by linarith
  have "?k mod 128 = (Suc a + (b + 127 * Suc a)) mod 128" by (rule mod_add_right_eq)
  also have "Suc a + (b + 127 * Suc a) = b + 128 * Suc a" by simp
  also have "\<dots> mod 128 = b mod 128" by (rule mod_mult_self2)
  finally show "?k mod 128 = b mod 128" .
qed

lemma cleared_range:
  assumes inv: "filterInv f S" and LC: "unat (last f) < unat counter"
    and n: "n = min (unat counter div 64 - unat (last f) div 64) 128"
  shows "filterInv \<lparr>last = counter, ring = fold (\<lambda>k r. r[k mod 128 := 0])
    [Suc (unat (last f) div 64)..<Suc (unat (last f) div 64) + n] (ring f)\<rparr> S"
proof -
  let ?L = "unat (last f)" and ?C = "unat counter"
  let ?r = "fold (\<lambda>k r. r[k mod 128 := 0]) [Suc (?L div 64)..<Suc (?L div 64) + n] (ring f)"
  have len: "length (ring f) = 128" and S: "\<forall>c\<in>S. c \<le> ?L"
    and bits: "\<And>c. inRing ?L c \<Longrightarrow> bit (ring f ! (c div 64 mod 128)) (c mod 64) = (c \<in> S)"
    using inv by (auto simp: filterInv_def ringBlocks_def)
  have mono: "?L div 64 \<le> ?C div 64" using LC by (intro div_le_mono) simp
  have "bit (?r ! (c div 64 mod 128)) (c mod 64) = (c \<in> S)" if c: "inRing ?C c" for c
  proof (cases "c div 64 \<le> ?L div 64")
    case True
    have "\<not> (\<exists>k. ?L div 64 < k \<and> k \<le> ?L div 64 + n \<and> k mod 128 = c div 64 mod 128)"
    proof clarify
      fix k assume k: "?L div 64 < k" "k \<le> ?L div 64 + n" "k mod 128 = c div 64 mod 128"
      have "k \<le> ?C div 64" using k(2) n mono by linarith
      then have "k < c div 64 + 128" using c by (auto simp: inRing_def)
      moreover have "c div 64 < k" using True k(1) by linarith
      ultimately show False using mod128_window [of "c div 64" k] k(3) by simp
    qed
    moreover have "inRing ?L c" using True c mono by (auto simp: inRing_def)
    ultimately show ?thesis
      using bits [of c] len by (simp only: nth_fold_clear_upt mod_less_divisor zero_less_numeral if_False)
  next
    case False
    then have "c \<notin> S" using S by (meson div_le_mono)
    moreover have "\<exists>k. ?L div 64 < k \<and> k \<le> ?L div 64 + n \<and> k mod 128 = c div 64 mod 128"
    proof (cases "?C div 64 - ?L div 64 \<le> 128")
      case True
      then show ?thesis using False c mono n by (intro exI [of _ "c div 64"]) (auto simp: inRing_def)
    next
      case False
      then show ?thesis using mod128_cover [of "?L div 64" "c div 64"] n by simp
    qed
    ultimately show ?thesis
      using len by (simp only: nth_fold_clear_upt mod_less_divisor zero_less_numeral if_True) simp
  qed
  then have "\<forall>c. inRing ?C c \<longrightarrow> bit (?r ! (c div 64 mod 128)) (c mod 64) = (c \<in> S)" by blast
  moreover have "\<forall>c\<in>S. c \<le> ?C" using S LC by (meson le_trans less_imp_le)
  moreover have "length ?r = ringBlocks" using len by (simp only: length_fold_clear ringBlocks_def) simp
  ultimately show ?thesis unfolding filterInv_def by (simp only: Filter.simps simp_thms)
qed

lemma advance_inv:
  assumes inv: "filterInv f S" and gt: "counter > last f"
  obtains g where "advance f counter = Some g" "last g = counter" "filterInv g S"
proof -
  let ?L = "unat (last f)" and ?C = "unat counter"
  let ?cur = "drop_bit blockBitLog (last f)"
  let ?del = "drop_bit blockBitLog counter - ?cur"
  let ?d = "if ?del > of_nat ringBlocks then of_nat ringBlocks else ?del"
  have LC: "?L < ?C" using gt by (simp add: word_less_nat_alt)
  have C: "?C < 2 ^ 64" "?L < 2 ^ 64" by (rule order_less_le_trans [OF unsigned_less], simp)+
  define n where "n = min (?C div 64 - ?L div 64) 128"
  have small: "Suc (?L div 64 + n) < 2 ^ 64" using C by (simp add: n_def)
  have del: "unat ?del = ?C div 64 - ?L div 64"
    using LC by (subst unat_sub) (auto simp: unat_block word_le_nat_alt div_le_mono)
  have d: "unat ?d = n"
    using del by (simp add: n_def word_less_nat_alt ringBlocks_def)
  have "unat (?cur + 1) = Suc (?L div 64)" "unat (?cur + ?d) = ?L div 64 + n"
    using d small by (auto simp: unat_word_ariths unat_block)
  then have "clearBlocks (?cur + 1) (?cur + ?d) (ring f) =
      Some (fold (\<lambda>k r. r[k mod 128 := 0]) [Suc (?L div 64)..<Suc (?L div 64) + n] (ring f))"
    using small C by (subst clearBlocks_eq [where n = n]) auto
  then have "advance f counter = Some \<lparr>last = counter, ring =
      fold (\<lambda>k r. r[k mod 128 := 0]) [Suc (?L div 64)..<Suc (?L div 64) + n] (ring f)\<rparr>"
    by (simp only: advance_def Let_def option.map)
  from that [OF this _ cleared_range [OF inv LC n_def]] show thesis by simp
qed

lemma inRing_block_inj:
  assumes "inRing hi a" "inRing hi b" "a div 64 mod 128 = b div 64 mod 128"
  shows "a div 64 = b div 64"
  using assms mod128_window [of "a div 64" "b div 64"] mod128_window [of "b div 64" "a div 64"]
  unfolding inRing_def by (cases "a div 64" "b div 64" rule: linorder_cases) auto

lemma bit_or_one: "bit (w OR 2 ^ k) j \<longleftrightarrow> bit w j \<or> j = k \<and> k < 64" for w :: u64
  by (auto simp: bit_or_iff bit_exp_iff)

lemma or_one_same: "k < 64 \<Longrightarrow> (w \<noteq> w OR 2 ^ k) = (\<not> bit w k)" for w :: u64
  by (metis bit_or_one bit_eq_iff)

lemma mark_inv:
  assumes inv: "filterInv g S" and c: "inRing (unat (last g)) (unat c)" "unat c \<le> unat (last g)"
  shows "\<exists>g'. mark g c = (g', unat c \<notin> S) \<and> last g' = last g \<and> filterInv g' (insert (unat c) S)"
proof -
  let ?C = "unat c"
  let ?r = "(ring g)[?C div 64 mod 128 := ring g ! (?C div 64 mod 128) OR 2 ^ (?C mod 64)]"
  have len: "length (ring g) = 128"
    and bits: "\<And>k. inRing (unat (last g)) k \<Longrightarrow> bit (ring g ! (k div 64 mod 128)) (k mod 64) = (k \<in> S)"
    using inv by (auto simp: filterInv_def ringBlocks_def)
  have "bit (?r ! (k div 64 mod 128)) (k mod 64) = (k \<in> insert ?C S)"
    if k: "inRing (unat (last g)) k" for k
  proof (cases "k div 64 mod 128 = ?C div 64 mod 128")
    case True
    then have "k div 64 = ?C div 64" using inRing_block_inj [OF k c(1)] by simp
    then have "k = ?C \<longleftrightarrow> k mod 64 = ?C mod 64" by (metis div_mult_mod_eq)
    then show ?thesis using True bits [OF k] len by (auto simp: bit_or_one)
  next
    case False
    then show ?thesis using bits [OF k] len by (auto simp: nth_list_update)
  qed
  then have "filterInv (g\<lparr>ring := ?r\<rparr>) (insert ?C S)"
    using inv c(2) by (auto simp: filterInv_def)
  then show ?thesis
    using bits [OF c(1)] by (simp add: mark_def Let_def unat_block or_one_same)
qed

lemma window_inRing:
  assumes "unat c \<le> L" "L - unat c \<le> windowSize"
  shows "inRing L (unat c)"
proof -
  have "L \<le> unat c + 127 * 64" using assms by (simp add: windowSize_def ringBlocks_def blockBits_def blockBitLog_def)
  then have "L div 64 \<le> (unat c + 127 * 64) div 64" by (rule div_le_mono)
  then show ?thesis using assms(1) by (simp add: inRing_def div_le_mono)
qed

lemma ValidateCounter_refines:
  assumes inv: "filterInv f S"
  shows "\<exists>f' b. ValidateCounter f c limit = Some (f', b) \<and>
    (b \<longleftrightarrow> c < limit \<and> (unat c > unat (last f) \<or> unat (last f) - unat c \<le> windowSize \<and> unat c \<notin> S)) \<and>
    filterInv f' (if b then insert (unat c) S else S) \<and>
    unat (last f') = (if b then max (unat (last f)) (unat c) else unat (last f))"
proof (cases "c \<ge> limit")
  case True
  with inv show ?thesis by (auto simp: ValidateCounter_cases)
next
  case lim: False
  have S: "k \<in> S \<Longrightarrow> k \<le> unat (last f)" for k using inv by (auto simp: filterInv_def)
  consider (ahead) "c > last f" | (behind) "c \<le> last f" "last f - c > of_nat windowSize"
    | (inside) "c \<le> last f" "last f - c \<le> of_nat windowSize" by force
  then show ?thesis
  proof cases
    case ahead
    then obtain g where g: "advance f c = Some g" "last g = c" "filterInv g S"
      using advance_inv [OF inv] by blast
    then have "inRing (unat (last g)) (unat c)" by (simp add: inRing_def)
    then obtain g' where "mark g c = (g', unat c \<notin> S)" "last g' = last g" "filterInv g' (insert (unat c) S)"
      using mark_inv [OF g(3)] g(2) by auto
    moreover have "unat c \<notin> S" using S [of "unat c"] ahead by (auto simp: word_less_nat_alt)
    ultimately show ?thesis using lim ahead g
      by (auto simp: ValidateCounter_cases word_less_nat_alt word_le_nat_alt max_def)
  next
    case behind
    then have "unat (last f) - unat c > windowSize"
      by (simp add: word_less_nat_alt unat_sub windowSize_def ringBlocks_def blockBits_def blockBitLog_def)
    moreover have "ValidateCounter f c limit = Some (f, False)"
      using behind lim by (auto simp: ValidateCounter_cases)
    ultimately show ?thesis using behind inv by (auto simp: word_le_nat_alt)
  next
    case inside
    then have le: "unat c \<le> unat (last f)" "unat (last f) - unat c \<le> windowSize"
      by (auto simp: word_le_nat_alt unat_sub windowSize_def ringBlocks_def blockBits_def blockBitLog_def)
    obtain g' where g': "mark f c = (g', unat c \<notin> S)" "last g' = last f" "filterInv g' (insert (unat c) S)"
      using mark_inv [OF inv window_inRing [OF le] le(1)] by blast
    then have "ValidateCounter f c limit = Some (g', unat c \<notin> S)"
      using lim inside by (auto simp: ValidateCounter_cases)
    with g' le lim show ?thesis by (auto simp: insert_absorb)
  qed
qed

interpretation rf: anti_replay ValidateCounter filterInv "\<lambda>f. unat (last f)" windowSize
proof unfold_locales
  show "filterInv f S \<Longrightarrow> k \<in> S \<Longrightarrow> k \<le> unat (last f)" for f S k by (auto simp: filterInv_def)
qed (rule ValidateCounter_refines)

section \<open>Properties\<close>

text \<open>
  C10: one call of \<^verbatim>\<open>ValidateCounter\<close> always returns (its clearing loop ends), and refines the
  specification over the set \<open>S\<close> of counters accepted so far: the counter is accepted exactly when
  it is below the limit and either above every accepted counter or at most \<^verbatim>\<open>windowSize\<close> behind the
  highest and not in \<open>S\<close>; an accepted counter is recorded and a rejected one changes nothing the
  filter remembers.
\<close>

theorem ValidateCounter_spec:
  assumes "filterInv f S"
  shows "\<exists>f' b. ValidateCounter f c limit = Some (f', b) \<and>
    (b \<longleftrightarrow> c < limit \<and> (unat c > unat (last f) \<or> unat (last f) - unat c \<le> windowSize \<and> unat c \<notin> S)) \<and>
    filterInv f' (if b then insert (unat c) S else S) \<and>
    unat (last f') = (if b then max (unat (last f)) (unat c) else unat (last f))"
  using assms by (rule rf.validate_spec)

theorem ValidateCounter_spec_witness:
  "\<exists>f'. ValidateCounter zeroFilter 70 1000 = Some (f', True) \<and> filterInv f' {70}"
  using ValidateCounter_spec [OF filterInv_zero, of 70 1000] by (auto simp: zeroFilter_def)

text \<open>
  C4: over any sequence of counters fed to a fresh filter, every call returns, no counter is
  accepted twice and no counter at or above the limit is accepted.
\<close>

theorem replay_never_accepted_twice:
  "\<exists>g acc. feed ValidateCounter limit zeroFilter cs = Some (g, acc) \<and> distinct acc \<and>
     set acc \<subseteq> {c. c < limit}"
  using rf.feed_accepted [OF filterInv_zero, of limit cs] by blast

text \<open>
  C19: reordering inside the window loses nothing. Distinct counters below the limit, none of which
  arrives more than \<^verbatim>\<open>windowSize\<close> behind an earlier one, are all accepted.
\<close>

theorem reordering_accepted:
  assumes "distinct cs" and "set cs \<subseteq> {c. c < limit}"
    and "sorted_wrt (\<lambda>a b. unat a \<le> unat b + windowSize) cs"
  shows "\<exists>g. feed ValidateCounter limit zeroFilter cs = Some (g, cs)"
  using assms by (intro rf.feed_complete [OF filterInv_zero]) (auto simp: zeroFilter_def)

theorem reordering_accepted_witness:
  "\<exists>g. feed ValidateCounter 9000 zeroFilter [8128, 0, 300, 7] = Some (g, [8128, 0, 300, 7])"
  by (rule reordering_accepted)
     (auto simp: windowSize_def ringBlocks_def blockBits_def blockBitLog_def)

text \<open>
  C33: \<^verbatim>\<open>Reset\<close> clears only the first block and the highest counter, leaving the rest of the ring
  stale; even so a reset filter accepts exactly the counters a fresh filter accepts, on every
  sequence.
\<close>

theorem Reset_like_fresh:
  assumes "filterInv f S"
  shows "map_option snd (feed ValidateCounter limit (Reset f) cs) =
    map_option snd (feed ValidateCounter limit zeroFilter cs)"
  using assms
  by (intro rf.feed_determined [OF filterInv_Reset filterInv_zero])
     (auto simp: filterInv_def Reset_def zeroFilter_def)

theorem Reset_like_fresh_witness:
  "\<exists>f. ValidateCounter zeroFilter 70 1000 = Some (f, True) \<and>
     map_option snd (feed ValidateCounter 1000 (Reset f) [70, 70, 5]) =
     map_option snd (feed ValidateCounter 1000 zeroFilter [70, 70, 5])"
proof -
  obtain f where f: "ValidateCounter zeroFilter 70 1000 = Some (f, True)" "filterInv f {70}"
    using ValidateCounter_refines [OF filterInv_zero, of 70 1000] by (auto simp: zeroFilter_def)
  from f(1) Reset_like_fresh [OF f(2)] show ?thesis by blast
qed

end
