(* ===== verification/AllowedIPs.thy ===== *)
theory AllowedIPs
  imports Prelude "HOL-Library.Sublist"
begin

text \<open>
  The cryptokey routing table (\<^verbatim>\<open>device/allowedips.go\<close>): a compressed binary trie per address
  family, and for every peer the list of the nodes that carry it. A pointer to a node is modelled by
  the path of child bits from the root, writing through it by \<open>setAt\<close>, and the element a
  peer's list holds by the prefix of the node, which is unique in its trie. Every index that would
  panic is a \<^const>\<open>None\<close>. The theory proves that no operation panics on valid prefixes, that every
  operation refines an update of a finite map from prefixes to peers, and that lookup is
  longest-prefix match.
\<close>

section \<open>Addresses as bit strings\<close>

definition leadingZeros :: "'a::len word \<Rightarrow> nat" where
  "leadingZeros x = length (takeWhile (\<lambda>i. \<not> bit x i) (rev [0..<LENGTH('a)]))"

definition commonBits :: "bytes \<Rightarrow> bytes \<Rightarrow> nat option" where
  "commonBits ip1 ip2 =
     (if length ip1 = 4 then
        (if length ip2 < 4 then None else Some (leadingZeros (get_be32 ip1 XOR get_be32 ip2)))
      else if length ip1 = 16 then
        (if length ip2 < 8 then None
         else let x = get_be64 ip1 XOR get_be64 ip2 in
           if x \<noteq> 0 then Some (leadingZeros x)
           else if length ip2 < 16 then None
           else Some (64 + leadingZeros (get_be64 (drop 8 ip1) XOR get_be64 (drop 8 ip2))))
      else None)"

fun cidrMaskLoop :: "nat \<Rightarrow> nat \<Rightarrow> bytes" where
  "cidrMaskLoop n 0 = []"
| "cidrMaskLoop n (Suc l) = (if n \<ge> 8 then 0xff else NOT (drop_bit n 0xff)) # cidrMaskLoop (n - 8) l"

definition CIDRMask :: "nat \<Rightarrow> nat \<Rightarrow> bytes" where
  "CIDRMask ones bits = (if ones > bits then [] else cidrMaskLoop ones (bits div 8))"

section \<open>The trie\<close>

text \<open>
  \<open>trieEntry peer cidr bits child0 child1\<close>; \<open>nilEntry\<close> is the nil pointer. The fields
  \<^verbatim>\<open>bitAtByte\<close> and \<^verbatim>\<open>bitAtShift\<close> are set once from \<^verbatim>\<open>cidr\<close> and are recomputed here.
\<close>

datatype 'p trieEntry =
    nilEntry
  | trieEntry (peer: "'p option") (cidr: nat) (bits: bytes) (child0: "'p trieEntry") (child1: "'p trieEntry")

definition bitAtByte :: "nat \<Rightarrow> nat" where "bitAtByte c = c div 8"
definition bitAtShift :: "nat \<Rightarrow> nat" where "bitAtShift c = 7 - c mod 8"

definition choose_bit :: "nat \<Rightarrow> bytes \<Rightarrow> bool option" where
  "choose_bit c ip =
     (if bitAtByte c < length ip then Some (bit (ip ! bitAtByte c) (bitAtShift c)) else None)"

definition maskSelf :: "nat \<Rightarrow> bytes \<Rightarrow> bytes" where
  "maskSelf c bs = (let mask = CIDRMask c (length bs * 8) in
     map2 (AND) (take (length mask) bs) mask @ drop (length mask) bs)"

fun child :: "bool \<Rightarrow> 'p trieEntry \<Rightarrow> 'p trieEntry" where
  "child x nilEntry = nilEntry"
| "child x (trieEntry p c bs l r) = (if x then r else l)"

fun setChild :: "bool \<Rightarrow> 'p trieEntry \<Rightarrow> 'p trieEntry \<Rightarrow> 'p trieEntry" where
  "setChild x s nilEntry = nilEntry"
| "setChild x s (trieEntry p c bs l r) = (if x then trieEntry p c bs l s else trieEntry p c bs s r)"

fun setPeer :: "'p option \<Rightarrow> 'p trieEntry \<Rightarrow> 'p trieEntry" where
  "setPeer q nilEntry = nilEntry"
| "setPeer q (trieEntry p c bs l r) = trieEntry q c bs l r"

fun nodeAt :: "'p trieEntry \<Rightarrow> bool list \<Rightarrow> 'p trieEntry" where
  "nodeAt t [] = t"
| "nodeAt t (x # xs) = nodeAt (child x t) xs"

fun setAt :: "'p trieEntry \<Rightarrow> bool list \<Rightarrow> 'p trieEntry \<Rightarrow> 'p trieEntry" where
  "setAt t [] s = s"
| "setAt t (x # xs) s = setChild x (setAt (child x t) xs s) t"

text \<open>
  \<open>nodePlacement parent path node ip c\<close> is the loop with \<^verbatim>\<open>parent\<close> so far, \<open>path\<close> leading to
  \<^verbatim>\<open>node\<close>; the result is the path of the parent (\<^const>\<open>None\<close> for nil) and \<^verbatim>\<open>exact\<close>.
\<close>

fun nodePlacement ::
  "bool list option \<Rightarrow> bool list \<Rightarrow> 'p trieEntry \<Rightarrow> bytes \<Rightarrow> nat \<Rightarrow> (bool list option \<times> bool) option"
where
  "nodePlacement par path nilEntry ip c = Some (par, False)"
| "nodePlacement par path (trieEntry p nc bs l r) ip c =
     (if nc \<le> c then
        (case commonBits bs ip of
           None \<Rightarrow> None
         | Some common \<Rightarrow>
             if common \<ge> nc then
               if nc = c then Some (Some path, True)
               else (case choose_bit nc ip of
                       None \<Rightarrow> None
                     | Some b \<Rightarrow>
                         if b then nodePlacement (Some path) (path @ [True]) r ip c
                         else nodePlacement (Some path) (path @ [False]) l ip c)
             else Some (par, False))
      else Some (par, False))"

type_synonym 'p entries = "'p \<Rightarrow> (bytes \<times> nat) list"

definition addToPeerEntries :: "'p \<Rightarrow> bytes \<times> nat \<Rightarrow> 'p entries \<Rightarrow> 'p entries" where
  "addToPeerEntries q e E = E(q := E q @ [e])"

definition removeFromPeerEntries :: "'p option \<Rightarrow> bytes \<times> nat \<Rightarrow> 'p entries \<Rightarrow> 'p entries" where
  "removeFromPeerEntries p e E = (case p of None \<Rightarrow> E | Some q \<Rightarrow> E(q := remove1 e (E q)))"

definition newEntry :: "'p option \<Rightarrow> bytes \<Rightarrow> nat \<Rightarrow> 'p trieEntry" where
  "newEntry q ip c = trieEntry q c (maskSelf c ip) nilEntry nilEntry"

text \<open>
  The second half of \<^verbatim>\<open>insert\<close>: the subtree that replaces \<^verbatim>\<open>down\<close> in the parent's slot. \<open>ip\<close> is the
  new node's bit string, masked in place by \<^verbatim>\<open>maskSelf\<close>.
\<close>

definition joinDown :: "'p trieEntry \<Rightarrow> bytes \<Rightarrow> nat \<Rightarrow> 'p trieEntry \<Rightarrow> 'p trieEntry option" where
  "joinDown down ip c new =
     (case commonBits (bits down) ip of
        None \<Rightarrow> None
      | Some common \<Rightarrow>
          (let c' = (if common < c then common else c) in
           if cidr new = c' then
             (case choose_bit (cidr new) (bits down) of
                None \<Rightarrow> None
              | Some b \<Rightarrow> Some (setChild b down new))
           else
             (let node = newEntry None (bits new) c' in
              case choose_bit c' (bits down) of
                None \<Rightarrow> None
              | Some b \<Rightarrow>
                  (case choose_bit c' (bits new) of
                     None \<Rightarrow> None
                   | Some b' \<Rightarrow> Some (setChild b' new (setChild b down node))))))"

text \<open>
  \<^verbatim>\<open>parentIndirection.insert\<close> on the trie whose root is \<open>t\<close>. The slot a new subtree is written to
  is \<^verbatim>\<open>parent.child[parent.choose(bits)]\<close>.
\<close>

definition trie_insert ::
  "'p trieEntry \<Rightarrow> bytes \<Rightarrow> nat \<Rightarrow> 'p \<Rightarrow> 'p entries \<Rightarrow> ('p trieEntry \<times> 'p entries) option"
where
  "trie_insert t ip c q E =
     (if t = nilEntry then
        Some (newEntry (Some q) ip c, addToPeerEntries q (maskSelf c ip, c) E)
      else case nodePlacement None [] t ip c of
        None \<Rightarrow> None
      | Some (None, True) \<Rightarrow> None
      | Some (Some path, True) \<Rightarrow>
          (let node = nodeAt t path; e = (bits node, cidr node) in
           Some (setAt t path (setPeer (Some q) node),
                 addToPeerEntries q e (removeFromPeerEntries (peer node) e E)))
      | Some (None, False) \<Rightarrow>
          (let new = newEntry (Some q) ip c; ip' = maskSelf c ip;
               E' = addToPeerEntries q (ip', c) E in
           map_option (\<lambda>s. (s, E')) (joinDown t ip' c new))
      | Some (Some path, False) \<Rightarrow>
          (let new = newEntry (Some q) ip c; ip' = maskSelf c ip;
               E' = addToPeerEntries q (ip', c) E; node = nodeAt t path in
           case choose_bit (cidr node) ip' of
             None \<Rightarrow> None
           | Some b \<Rightarrow>
               (let down = child b node in
                if down = nilEntry then Some (setAt t (path @ [b]) new, E')
                else case joinDown down ip' c new of
                  None \<Rightarrow> None
                | Some s \<Rightarrow>
                    (case choose_bit (cidr node) (bits s) of
                       None \<Rightarrow> None
                     | Some b' \<Rightarrow> Some (setAt t (path @ [b']) s, E')))))"

fun trie_lookup :: "'p option \<Rightarrow> 'p trieEntry \<Rightarrow> bytes \<Rightarrow> 'p option option" where
  "trie_lookup found nilEntry ip = Some found"
| "trie_lookup found (trieEntry p c bs l r) ip =
     (case commonBits bs ip of
        None \<Rightarrow> None
      | Some common \<Rightarrow>
          if common \<ge> c then
            (let found' = (case p of None \<Rightarrow> found | Some q \<Rightarrow> Some q) in
             if bitAtByte c = length ip then Some found'
             else case choose_bit c ip of
                    None \<Rightarrow> None
                  | Some b \<Rightarrow> if b then trie_lookup found' r ip else trie_lookup found' l ip)
          else Some found)"

text \<open>
  \<^verbatim>\<open>trieEntry.remove\<close> on the node at \<open>path\<close>; the root's \<^verbatim>\<open>parentBitType\<close> is 2, every other node's
  is the last bit of its path.
\<close>

definition trie_remove :: "'p trieEntry \<Rightarrow> bool list \<Rightarrow> 'p entries \<Rightarrow> 'p trieEntry \<times> 'p entries" where
  "trie_remove t path E =
     (let node = nodeAt t path;
          E' = removeFromPeerEntries (peer node) (bits node, cidr node) E in
      if child False node \<noteq> nilEntry \<and> child True node \<noteq> nilEntry
      then (setAt t path (setPeer None node), E')
      else
        (let b = (child False node = nilEntry);
             t' = setAt t path (child b node) in
         if child False node \<noteq> nilEntry \<or> child True node \<noteq> nilEntry \<or> path = [] then (t', E')
         else
           (let parent = nodeAt t' (butlast path) in
            if peer parent \<noteq> None then (t', E')
            else (setAt t' (butlast path) (child (\<not> List.last path) parent), E'))))"

section \<open>The table\<close>

record 'p AllowedIPs =
  IPv4 :: "'p trieEntry"
  IPv6 :: "'p trieEntry"
  trieEntries :: "'p entries"

record Prefix =
  Addr :: bytes
  Bits :: nat

definition emptyAllowedIPs :: "'p AllowedIPs" where
  "emptyAllowedIPs = \<lparr>IPv4 = nilEntry, IPv6 = nilEntry, trieEntries = (\<lambda>_. [])\<rparr>"

definition Insert :: "'p AllowedIPs \<Rightarrow> Prefix \<Rightarrow> 'p \<Rightarrow> 'p AllowedIPs option" where
  "Insert table p q =
     (if length (Addr p) = 16 then
        map_option (\<lambda>(t, E). table\<lparr>IPv6 := t, trieEntries := E\<rparr>)
          (trie_insert (IPv6 table) (Addr p) (Bits p) q (trieEntries table))
      else if length (Addr p) = 4 then
        map_option (\<lambda>(t, E). table\<lparr>IPv4 := t, trieEntries := E\<rparr>)
          (trie_insert (IPv4 table) (Addr p) (Bits p) q (trieEntries table))
      else None)"

definition familyOf :: "'p AllowedIPs \<Rightarrow> nat \<Rightarrow> 'p trieEntry" where
  "familyOf table n = (if n = 16 then IPv6 table else IPv4 table)"

definition setFamily :: "nat \<Rightarrow> 'p trieEntry \<times> 'p entries \<Rightarrow> 'p AllowedIPs \<Rightarrow> 'p AllowedIPs" where
  "setFamily n s table =
     (if n = 16 then table\<lparr>IPv6 := fst s, trieEntries := snd s\<rparr>
      else table\<lparr>IPv4 := fst s, trieEntries := snd s\<rparr>)"

definition Remove :: "'p AllowedIPs \<Rightarrow> Prefix \<Rightarrow> 'p \<Rightarrow> 'p AllowedIPs option" where
  "Remove table p q =
     (let n = length (Addr p) in
      if n \<noteq> 16 \<and> n \<noteq> 4 then None
      else case nodePlacement None [] (familyOf table n) (Addr p) (Bits p) of
        None \<Rightarrow> None
      | Some (None, _) \<Rightarrow> Some table
      | Some (Some path, exact) \<Rightarrow>
          if \<not> exact \<or> peer (nodeAt (familyOf table n) path) \<noteq> Some q then Some table
          else Some (setFamily n (trie_remove (familyOf table n) path (trieEntries table)) table))"

text \<open>
  The loop of \<^verbatim>\<open>RemoveByPeer\<close> over the list as it was at the start (the successor is read before
  the element is unlinked); the list element's node is found again by its prefix.
\<close>

fun removeEntries :: "'p AllowedIPs \<Rightarrow> (bytes \<times> nat) list \<Rightarrow> 'p AllowedIPs option" where
  "removeEntries table [] = Some table"
| "removeEntries table ((bs, c) # es) =
     (case nodePlacement None [] (familyOf table (length bs)) bs c of
        Some (Some path, True) \<Rightarrow>
          removeEntries (setFamily (length bs)
            (trie_remove (familyOf table (length bs)) path (trieEntries table)) table) es
      | _ \<Rightarrow> None)"

definition RemoveByPeer :: "'p AllowedIPs \<Rightarrow> 'p \<Rightarrow> 'p AllowedIPs option" where
  "RemoveByPeer table q = removeEntries table (trieEntries table q)"

definition Lookup :: "'p AllowedIPs \<Rightarrow> bytes \<Rightarrow> 'p option option" where
  "Lookup table ip =
     (if length ip = 16 then trie_lookup None (IPv6 table) ip
      else if length ip = 4 then trie_lookup None (IPv4 table) ip
      else None)"

text \<open>The prefixes handed to the callback, up to and including the first it answers false for.\<close>

fun untilFalse :: "('a \<Rightarrow> bool) \<Rightarrow> 'a list \<Rightarrow> 'a list" where
  "untilFalse cb [] = []"
| "untilFalse cb (x # xs) = (if cb x then x # untilFalse cb xs else [x])"

definition EntriesForPeer :: "'p AllowedIPs \<Rightarrow> 'p \<Rightarrow> (Prefix \<Rightarrow> bool) \<Rightarrow> Prefix list" where
  "EntriesForPeer table q cb =
     untilFalse cb (map (\<lambda>(bs, c). \<lparr>Addr = bs, Bits = c\<rparr>) (trieEntries table q))"

section \<open>Bit strings\<close>

definition byteBits :: "u8 \<Rightarrow> bool list" where
  "byteBits b = map (bit b) [7, 6, 5, 4, 3, 2, 1, 0]"

definition bitsOf :: "bytes \<Rightarrow> bool list" where
  "bitsOf bs = concat (map byteBits bs)"

fun lcp :: "'a list \<Rightarrow> 'a list \<Rightarrow> nat" where
  "lcp (x # xs) (y # ys) = (if x = y then Suc (lcp xs ys) else 0)"
| "lcp _ _ = 0"

lemma length_byteBits [simp]: "length (byteBits b) = 8"
  by (simp add: byteBits_def)

lemma bitsOf_Cons [simp]: "bitsOf (b # bs) = byteBits b @ bitsOf bs"
  by (simp add: bitsOf_def)

lemma bitsOf_Nil [simp]: "bitsOf [] = []"
  by (simp add: bitsOf_def)

lemma length_bitsOf [simp]: "length (bitsOf bs) = 8 * length bs"
  by (induction bs) auto

lemma nth_byteBits: "i < 8 \<Longrightarrow> byteBits b ! i = bit b (7 - i)"
proof -
  assume "i < 8"
  then have "i \<in> {0, 1, 2, 3, 4, 5, 6, 7}" by auto
  then show ?thesis by (auto simp: byteBits_def)
qed

lemma nth_bitsOf: "i < 8 * length bs \<Longrightarrow> bitsOf bs ! i = bit (bs ! (i div 8)) (7 - i mod 8)"
proof (induction bs arbitrary: i)
  case (Cons b bs)
  show ?case
  proof (cases "i < 8")
    case True
    then show ?thesis by (simp add: nth_append nth_byteBits)
  next
    case False
    then have "i div 8 = Suc ((i - 8) div 8)" "(i - 8) mod 8 = i mod 8"
      by (simp_all add: le_div_geq le_mod_geq)
    with Cons.IH [of "i - 8"] Cons.prems False show ?thesis by (simp add: nth_append)
  qed
qed simp

lemma choose_bit_eq: "c < 8 * length ip \<Longrightarrow> choose_bit c ip = Some (bitsOf ip ! c)"
  by (simp add: choose_bit_def bitAtByte_def bitAtShift_def nth_bitsOf)

lemma lcp_le: "lcp xs ys \<le> length xs" "lcp xs ys \<le> length ys"
  by (induction xs ys rule: lcp.induct) auto

lemma lcp_ge_iff:
  "n \<le> length xs \<Longrightarrow> n \<le> length ys \<Longrightarrow> n \<le> lcp xs ys \<longleftrightarrow> take n xs = take n ys"
proof (induction xs ys arbitrary: n rule: lcp.induct)
  case (1 x xs y ys)
  then show ?case by (cases n) auto
qed auto

lemma lcp_split: "lcp xs ys < length xs \<Longrightarrow> lcp xs ys < length ys \<Longrightarrow> xs ! lcp xs ys \<noteq> ys ! lcp xs ys"
  by (induction xs ys rule: lcp.induct) auto

lemma lcp_map: "lcp (map f is) (map g is) = length (takeWhile (\<lambda>i. f i = g i) is)"
  by (induction "is") auto

lemma lcp_append: "length xs = length ys \<Longrightarrow>
   lcp (xs @ xs') (ys @ ys') = (if xs = ys then length xs + lcp xs' ys' else lcp xs ys)"
  by (induction xs ys rule: list_induct2) auto

lemma leadingZeros_xor:
  "leadingZeros (a XOR b) = lcp (map (bit a) (rev [0..<LENGTH('a)])) (map (bit b) (rev [0..<LENGTH('a)]))"
  for a b :: "'a::len word"
  by (simp add: leadingZeros_def lcp_map bit_xor_iff)

lemma upt_bits: "rev [0..<32] = [31,30,29,28,27,26,25,24,23,22,21,20,19,18,17,16,15,14,13,12,11,10,9,8,7,6,5,4,3,2,1,0]"
  by (simp add: upt_rec)

lemma upt_bits64: "rev [0..<64] = [63,62,61,60,59,58,57,56,55,54,53,52,51,50,49,48,47,46,45,44,43,42,41,40,39,38,
    37,36,35,34,33,32] @ rev [0..<32]"
  by (simp add: upt_rec)

lemma list4: "length xs = 4 \<Longrightarrow> \<exists>a b c d. xs = [a, b, c, d]"
  by (auto simp: numeral_eq_Suc length_Suc_conv)

lemma list8: "length xs = 8 \<Longrightarrow> \<exists>a b c d e f g h. xs = [a, b, c, d, e, f, g, h]"
  by (auto simp: numeral_eq_Suc length_Suc_conv)

lemma byte_high_bits: "8 \<le> n \<Longrightarrow> \<not> bit b n" for b :: u8
  using bit_imp_le_length [of b n] by auto

lemma bits_be32: "length ip = 4 \<Longrightarrow> map (bit (get_be32 ip)) (rev [0..<32]) = bitsOf ip"
  by (drule list4) (auto simp: upt_bits get_be32_def byteBits_def bit_simps byte_high_bits)

lemma get_be64_take: "get_be64 (take 8 bs) = get_be64 bs"
  by (simp add: get_be64_def)

lemma bits_be64: "length ip = 8 \<Longrightarrow> map (bit (get_be64 ip)) (rev [0..<64]) = bitsOf ip"
  by (drule list8) (auto simp: upt_bits64 upt_bits get_be64_def byteBits_def bit_simps byte_high_bits)

lemma bitsOf_append [simp]: "bitsOf (xs @ ys) = bitsOf xs @ bitsOf ys"
  by (simp add: bitsOf_def)

lemma word_eq_bits: "a = b \<longleftrightarrow> map (bit a) (rev [0..<LENGTH('a)]) = map (bit b) (rev [0..<LENGTH('a)])"
  for a b :: "'a::len word"
  by (auto simp: bit_eq_iff dest: bit_imp_le_length)

lemma xor_eq_0: "a XOR b = 0 \<longleftrightarrow> a = b" for a b :: "'a::len word"
  by (auto simp: bit_eq_iff bit_simps)

text \<open>\<^verbatim>\<open>commonBits\<close> is the length of the longest common prefix of the two bit strings.\<close>

lemma commonBits_eq:
  assumes "length ip1 = 4 \<or> length ip1 = 16" and "length ip2 = length ip1"
  shows "commonBits ip1 ip2 = Some (lcp (bitsOf ip1) (bitsOf ip2))"
proof (cases "length ip1 = 4")
  case True
  then show ?thesis using assms(2) by (simp add: commonBits_def leadingZeros_xor bits_be32)
next
  case False
  let ?h = "\<lambda>ip :: bytes. take 8 ip" and ?l = "\<lambda>ip :: bytes. drop 8 ip"
  have n: "length ip1 = 16" "length ip2 = 16" using False assms by auto
  then have hl: "length (?h ip1) = 8" "length (?h ip2) = 8" "length (?l ip1) = 8" "length (?l ip2) = 8"
    by simp_all
  have b: "bitsOf ip = bitsOf (?h ip) @ bitsOf (?l ip)" for ip
    by (metis append_take_drop_id bitsOf_append)
  have x: "get_be64 ip1 XOR get_be64 ip2 = 0 \<longleftrightarrow> bitsOf (?h ip1) = bitsOf (?h ip2)"
    using word_eq_bits [of "get_be64 (?h ip1)" "get_be64 (?h ip2)"] bits_be64 [OF hl(1)] bits_be64 [OF hl(2)]
    unfolding xor_eq_0 get_be64_take by simp
  have h: "leadingZeros (get_be64 ip1 XOR get_be64 ip2) = lcp (bitsOf (?h ip1)) (bitsOf (?h ip2))"
    using bits_be64 [OF hl(1)] bits_be64 [OF hl(2)] by (simp add: leadingZeros_xor get_be64_take)
  have l: "leadingZeros (get_be64 (?l ip1) XOR get_be64 (?l ip2)) = lcp (bitsOf (?l ip1)) (bitsOf (?l ip2))"
    using bits_be64 [OF hl(3)] bits_be64 [OF hl(4)] by (simp add: leadingZeros_xor)
  have "lcp (bitsOf ip1) (bitsOf ip2) =
      (if bitsOf (?h ip1) = bitsOf (?h ip2) then 64 + lcp (bitsOf (?l ip1)) (bitsOf (?l ip2))
       else lcp (bitsOf (?h ip1)) (bitsOf (?h ip2)))"
    unfolding b [of ip1] b [of ip2] using n by (subst lcp_append) simp_all
  then show ?thesis using n x h l by (simp add: commonBits_def Let_def)
qed

lemma byteBits_mask:
  "byteBits (b AND (if n \<ge> 8 then 0xff else NOT (drop_bit n 0xff))) =
     take n (byteBits b) @ replicate (8 - n) False"
proof (cases "n \<ge> 8")
  case True
  then show ?thesis by (simp add: byteBits_def bit_simps)
next
  case False
  then have "n \<in> {0, 1, 2, 3, 4, 5, 6, 7}" by auto
  then show ?thesis by (auto simp: byteBits_def bit_simps numeral_eq_Suc)
qed

lemma length_cidrMaskLoop [simp]: "length (cidrMaskLoop n l) = l"
  by (induction l arbitrary: n) auto

lemma bitsOf_mask:
  "bitsOf (map2 (AND) bs (cidrMaskLoop n (length bs))) =
     take n (bitsOf bs) @ replicate (8 * length bs - n) False"
proof (induction bs arbitrary: n)
  case (Cons b bs)
  have "replicate (8 * length (b # bs) - n) False =
      replicate (8 - n) False @ replicate (8 * length bs - (n - 8)) False" if "n < 8"
    using that by (simp add: replicate_add [symmetric])
  then show ?case
    using Cons.IH [of "n - 8"] byteBits_mask [of b n] by (cases "n < 8") auto
qed simp

lemma length_maskSelf [simp]: "length (maskSelf c bs) = length bs"
  by (simp add: maskSelf_def CIDRMask_def)

lemma bitsOf_maskSelf:
  "c \<le> 8 * length bs \<Longrightarrow> bitsOf (maskSelf c bs) = take c (bitsOf bs) @ replicate (8 * length bs - c) False"
  by (simp add: maskSelf_def CIDRMask_def bitsOf_mask mult.commute)

lemma take_bitsOf_maskSelf:
  "c \<le> 8 * length bs \<Longrightarrow> n \<le> c \<Longrightarrow> take n (bitsOf (maskSelf c bs)) = take n (bitsOf bs)"
  by (simp add: bitsOf_maskSelf min_def)

lemma byteBits_inj: "byteBits a = byteBits b \<Longrightarrow> a = b"
proof -
  assume a: "byteBits a = byteBits b"
  have "bit a n = bit b n" if "n < 8" for n
    using arg_cong [OF a, of "\<lambda>x. x ! (7 - n)"] that by (simp add: nth_byteBits)
  then show ?thesis by (auto simp: bit_eq_iff)
qed

lemma bitsOf_inj: "length xs = length ys \<Longrightarrow> bitsOf xs = bitsOf ys \<Longrightarrow> xs = ys"
  by (induction xs ys rule: list_induct2) (auto simp: byteBits_inj)

section \<open>Well-formed tries and the map they represent\<close>

definition key :: "nat \<Rightarrow> bytes \<Rightarrow> bool list" where
  "key c bs = take c (bitsOf bs)"

text \<open>
  Every node's bit string is masked to its length, the keys below a slot extend the slot's prefix,
  and a node without a peer has two children.
\<close>

fun wfTrie :: "nat \<Rightarrow> bool list \<Rightarrow> 'p trieEntry \<Rightarrow> bool" where
  "wfTrie L pre nilEntry \<longleftrightarrow> True"
| "wfTrie L pre (trieEntry p c bs l r) \<longleftrightarrow>
     length bs = L \<and> c \<le> 8 * L \<and> maskSelf c bs = bs \<and> prefix pre (key c bs) \<and>
     wfTrie L (key c bs @ [False]) l \<and> wfTrie L (key c bs @ [True]) r \<and>
     (p = None \<longrightarrow> l \<noteq> nilEntry \<and> r \<noteq> nilEntry)"

fun absTrie :: "'p trieEntry \<Rightarrow> bool list \<Rightarrow> 'p option" where
  "absTrie nilEntry k = None"
| "absTrie (trieEntry p c bs l r) k =
     (if k = key c bs then p
      else if prefix (key c bs @ [False]) k then absTrie l k
      else if prefix (key c bs @ [True]) k then absTrie r k
      else None)"

lemma length_key: "length bs = L \<Longrightarrow> c \<le> 8 * L \<Longrightarrow> length (key c bs) = c"
  by (simp add: key_def)

lemma prefix_snoc_neq: "prefix (k @ [True]) x \<Longrightarrow> prefix (k @ [False]) x \<Longrightarrow> R"
  by (auto simp: prefix_def)

lemma absTrie_prefix:
  "wfTrie L pre t \<Longrightarrow> absTrie t k \<noteq> None \<Longrightarrow> prefix pre k"
proof (induction t arbitrary: pre)
  case (trieEntry p c bs l r)
  then have pk: "prefix pre (key c bs)" by simp
  have "prefix (key c bs) k"
    using trieEntry.prems by (auto split: if_splits intro: append_prefixD)
  with pk show ?case by (rule prefix_order.trans)
qed simp

lemma absTrie_outside: "wfTrie L pre t \<Longrightarrow> \<not> prefix pre k \<Longrightarrow> absTrie t k = None"
  using absTrie_prefix by blast

lemma absTrie_key: "wfTrie L pre t \<Longrightarrow> t \<noteq> nilEntry \<Longrightarrow> absTrie t k \<noteq> None \<Longrightarrow> prefix (key (cidr t) (bits t)) k"
  by (cases t) (auto split: if_splits intro: append_prefixD)

lemma absTrie_no_key: "wfTrie L pre t \<Longrightarrow> t \<noteq> nilEntry \<Longrightarrow> \<not> prefix (key (cidr t) (bits t)) k \<Longrightarrow> absTrie t k = None"
  using absTrie_key by blast

lemma wfTrie_weaken:
  "wfTrie L pre t \<Longrightarrow> t \<noteq> nilEntry \<Longrightarrow> prefix pre' (key (cidr t) (bits t)) \<Longrightarrow> wfTrie L pre' t"
  by (cases t) auto

lemma wfTrie_deep_nil: "wfTrie L pre t \<Longrightarrow> length pre > 8 * L \<Longrightarrow> t = nilEntry"
  by (cases t) (auto simp: key_def dest!: prefix_length_le)

lemma wfTrie_child:
  "wfTrie L pre t \<Longrightarrow> t \<noteq> nilEntry \<Longrightarrow> wfTrie L (key (cidr t) (bits t) @ [x]) (child x t)"
  by (cases t; cases x) auto

lemma absTrie_child:
  "wfTrie L pre t \<Longrightarrow> prefix (key (cidr t) (bits t) @ [x]) k \<Longrightarrow> t \<noteq> nilEntry \<Longrightarrow>
   absTrie t k = absTrie (child x t) k"
  by (cases t; cases x) (auto simp: prefix_def)

section \<open>Writing through a path\<close>

fun validPath :: "'p trieEntry \<Rightarrow> bool list \<Rightarrow> bool" where
  "validPath t [] \<longleftrightarrow> True"
| "validPath t (x # xs) \<longleftrightarrow> t \<noteq> nilEntry \<and> validPath (child x t) xs"

text \<open>The prefix that the keys below the slot at a path extend.\<close>

fun slot :: "bool list \<Rightarrow> 'p trieEntry \<Rightarrow> bool list \<Rightarrow> bool list" where
  "slot pre t [] = pre"
| "slot pre t (x # xs) = slot (key (cidr t) (bits t) @ [x]) (child x t) xs"

lemma slot_snoc: "slot pre t (p @ [x]) = key (cidr (nodeAt t p)) (bits (nodeAt t p)) @ [x]"
  by (induction p arbitrary: pre t) auto

lemma validPath_snoc: "validPath t (p @ [x]) \<longleftrightarrow> validPath t p \<and> nodeAt t p \<noteq> nilEntry"
  by (induction p arbitrary: t) auto

lemma nodeAt_snoc: "nodeAt t (p @ [x]) = child x (nodeAt t p)"
  by (induction p arbitrary: t) auto

lemma child_setChild [simp]: "t \<noteq> nilEntry \<Longrightarrow> child x (setChild x s t) = s"
  by (cases t) auto

lemma setChild_setChild [simp]: "setChild x s (setChild x s' t) = setChild x s t"
  by (cases t) auto

lemma setChild_nonnil [simp]: "setChild x s t = nilEntry \<longleftrightarrow> t = nilEntry"
  by (cases t) auto

lemma setAt_setAt_parent: "validPath t (p @ [x]) \<Longrightarrow> setAt (setAt t (p @ [x]) u) p v = setAt t p v"
  by (induction p arbitrary: t) auto

lemma nodeAt_setAt_parent:
  "validPath t (p @ [x]) \<Longrightarrow> nodeAt (setAt t (p @ [x]) u) p = setChild x u (nodeAt t p)"
  by (induction p arbitrary: t) auto

lemma wfTrie_nodeAt: "wfTrie L pre t \<Longrightarrow> validPath t p \<Longrightarrow> wfTrie L (slot pre t p) (nodeAt t p)"
  by (induction p arbitrary: pre t) (auto simp: wfTrie_child)

lemma prefix_slot: "wfTrie L pre t \<Longrightarrow> validPath t p \<Longrightarrow> prefix pre (slot pre t p)"
proof (induction p arbitrary: pre t)
  case (Cons x xs)
  let ?k = "key (cidr t) (bits t)"
  have w: "wfTrie L (?k @ [x]) (child x t)" using Cons.prems by (auto simp: wfTrie_child)
  have "prefix pre (?k @ [x])" using Cons.prems by (cases t) auto
  moreover have "prefix (?k @ [x]) (slot (?k @ [x]) (child x t) xs)"
    using Cons.IH [OF w] Cons.prems by simp
  ultimately have "prefix pre (slot (?k @ [x]) (child x t) xs)" by (rule prefix_order.trans)
  then show ?case by simp
qed simp

lemma absTrie_nodeAt:
  "wfTrie L pre t \<Longrightarrow> validPath t p \<Longrightarrow> prefix (slot pre t p) k \<Longrightarrow> absTrie t k = absTrie (nodeAt t p) k"
proof (induction p arbitrary: pre t)
  case (Cons x xs)
  let ?k = "key (cidr t) (bits t) @ [x]"
  have w: "wfTrie L ?k (child x t)" using Cons.prems by (auto simp: wfTrie_child)
  then have "prefix ?k k"
    using prefix_slot [OF w] Cons.prems by (auto intro: prefix_order.trans)
  then show ?case using Cons.IH [OF w] Cons.prems by (simp add: absTrie_child)
qed simp

lemma wfTrie_setChild:
  "wfTrie L pre t \<Longrightarrow> t \<noteq> nilEntry \<Longrightarrow> wfTrie L (key (cidr t) (bits t) @ [x]) s \<Longrightarrow>
   s \<noteq> nilEntry \<or> peer t \<noteq> None \<Longrightarrow> wfTrie L pre (setChild x s t)"
  by (cases t; cases x) auto

lemma absTrie_setChild:
  "t \<noteq> nilEntry \<Longrightarrow>
   absTrie (setChild x s t) k = (if prefix (key (cidr t) (bits t) @ [x]) k then absTrie s k else absTrie t k)"
  by (cases t; cases x) (auto simp: prefix_def)

lemma setAt_nonnil: "validPath t p \<Longrightarrow> s \<noteq> nilEntry \<or> p \<noteq> [] \<Longrightarrow> setAt t p s \<noteq> nilEntry"
  by (cases p) auto

lemma wfTrie_setAt:
  "wfTrie L pre t \<Longrightarrow> validPath t p \<Longrightarrow> wfTrie L (slot pre t p) s \<Longrightarrow>
   s \<noteq> nilEntry \<or> p = [] \<or> peer (nodeAt t (butlast p)) \<noteq> None \<Longrightarrow> wfTrie L pre (setAt t p s)"
proof (induction p arbitrary: pre t)
  case (Cons x xs)
  have w: "wfTrie L (key (cidr t) (bits t) @ [x]) (child x t)" using Cons.prems by (auto simp: wfTrie_child)
  have v: "validPath (child x t) xs" using Cons.prems by simp
  have "wfTrie L (key (cidr t) (bits t) @ [x]) (setAt (child x t) xs s)"
    using Cons.IH [OF w v] Cons.prems by (auto split: if_splits)
  moreover have "setAt (child x t) xs s \<noteq> nilEntry \<or> peer t \<noteq> None"
    using setAt_nonnil [OF v, of s] Cons.prems by (cases xs) auto
  ultimately have "wfTrie L pre (setChild x (setAt (child x t) xs s) t)"
    using Cons.prems by (intro wfTrie_setChild) auto
  then show ?case by simp
qed simp

lemma absTrie_setAt:
  "wfTrie L pre t \<Longrightarrow> validPath t p \<Longrightarrow> wfTrie L (slot pre t p) s \<Longrightarrow>
   absTrie (setAt t p s) k = (if prefix (slot pre t p) k then absTrie s k else absTrie t k)"
proof (induction p arbitrary: pre t)
  case Nil
  then show ?case using absTrie_outside [of L pre s k] absTrie_outside [of L pre t k] by auto
next
  case (Cons x xs)
  let ?k = "key (cidr t) (bits t) @ [x]"
  have w: "wfTrie L ?k (child x t)" using Cons.prems by (auto simp: wfTrie_child)
  then have "prefix (slot ?k (child x t) xs) k \<Longrightarrow> prefix ?k k"
    using prefix_slot [OF w] Cons.prems by (auto intro: prefix_order.trans)
  then show ?case
    using Cons.IH [OF w] Cons.prems absTrie_child [of L pre t x k] by (auto simp: absTrie_setChild)
qed

section \<open>Placement\<close>

definition mismatch :: "'p trieEntry \<Rightarrow> bytes \<Rightarrow> nat \<Rightarrow> bool" where
  "mismatch t ip c \<longleftrightarrow>
     t = nilEntry \<or> \<not> (cidr t \<le> c \<and> key (cidr t) (bits t) = key (cidr t) ip)"

definition validLen :: "nat \<Rightarrow> bool" where
  "validLen L \<longleftrightarrow> L = 4 \<or> L = 16"

lemma commonBits_ge:
  assumes "validLen L" "length a = L" "length b = L" "n \<le> 8 * L"
  shows "\<exists>m. commonBits a b = Some m \<and> m = lcp (bitsOf a) (bitsOf b) \<and> (n \<le> m \<longleftrightarrow> key n a = key n b)"
  using assms commonBits_eq [of a b] lcp_ge_iff [of n "bitsOf a" "bitsOf b"]
  by (auto simp: validLen_def key_def)

lemma key_Suc: "c < 8 * length ip \<Longrightarrow> key (Suc c) ip = key c ip @ [bitsOf ip ! c]"
  by (simp add: key_def take_Suc_conv_app_nth)

lemma prefix_key: "m \<le> n \<Longrightarrow> prefix (key m ip) (key n ip)"
  by (auto simp: key_def take_is_prefix min_def prefix_def) (metis append_take_drop_id take_take min.absorb1)

text \<open>
  The three outcomes of the descent: it stops before the first node, at the exact node, or below a
  shorter node whose slot for \<open>ip\<close> is empty or holds a node that does not match.
\<close>

definition exactAt :: "'p trieEntry \<Rightarrow> bytes \<Rightarrow> nat \<Rightarrow> bool list \<Rightarrow> bool" where
  "exactAt t ip c p \<longleftrightarrow> validPath t p \<and> nodeAt t p \<noteq> nilEntry \<and> cidr (nodeAt t p) = c \<and>
     key c (bits (nodeAt t p)) = key c ip"

definition belowAt :: "'p trieEntry \<Rightarrow> bytes \<Rightarrow> nat \<Rightarrow> bool list \<Rightarrow> bool" where
  "belowAt t ip c p \<longleftrightarrow> validPath t p \<and> nodeAt t p \<noteq> nilEntry \<and> cidr (nodeAt t p) < c \<and>
     key (cidr (nodeAt t p)) (bits (nodeAt t p)) = key (cidr (nodeAt t p)) ip \<and>
     mismatch (child (bitsOf ip ! cidr (nodeAt t p)) (nodeAt t p)) ip c"

lemma at_Cons:
  "t \<noteq> nilEntry \<Longrightarrow> exactAt t ip c (x # p) \<longleftrightarrow> exactAt (child x t) ip c p"
  "t \<noteq> nilEntry \<Longrightarrow> belowAt t ip c (x # p) \<longleftrightarrow> belowAt (child x t) ip c p"
  by (simp_all add: exactAt_def belowAt_def)

lemma nodePlacement_cases:
  assumes "wfTrie L pre t" and "validLen L" and "length ip = L" and "c \<le> 8 * L"
  shows "nodePlacement par path t ip c = Some (par, False) \<and> mismatch t ip c
    \<or> (\<exists>p. nodePlacement par path t ip c = Some (Some (path @ p), True) \<and> exactAt t ip c p)
    \<or> (\<exists>p. nodePlacement par path t ip c = Some (Some (path @ p), False) \<and> belowAt t ip c p)"
  using assms(1)
proof (induction t arbitrary: par path pre)
  case nilEntry
  then show ?case by (simp add: mismatch_def)
next
  case (trieEntry p nc bs l r)
  let ?t = "trieEntry p nc bs l r"
  have bs: "length bs = L" "nc \<le> 8 * L" using trieEntry.prems by simp_all
  obtain m where m: "commonBits bs ip = Some m" "nc \<le> m \<longleftrightarrow> key nc bs = key nc ip"
    using commonBits_ge [OF assms(2) bs(1) assms(3) bs(2)] by auto
  consider "mismatch ?t ip c" | "key nc bs = key nc ip" "nc = c" | "key nc bs = key nc ip" "nc < c"
    by (fastforce simp: mismatch_def le_less)
  then show ?case
  proof cases
    case 1
    then show ?thesis using m by (auto simp: mismatch_def)
  next
    case 2
    then have "nodePlacement par path ?t ip c = Some (Some (path @ []), True)" "exactAt ?t ip c []"
      using m by (auto simp: exactAt_def)
    then show ?thesis by blast
  next
    case 3
    let ?b = "bitsOf ip ! nc"
    have step: "nodePlacement par path ?t ip c = nodePlacement (Some path) (path @ [?b]) (child ?b ?t) ip c"
      using m 3 assms(3,4) by (simp add: choose_bit_eq)
    have "wfTrie L (key nc bs @ [?b]) (child ?b ?t)" using wfTrie_child [OF trieEntry.prems, of ?b] by simp
    then consider "nodePlacement par path ?t ip c = Some (Some path, False)" "mismatch (child ?b ?t) ip c"
      | q where "nodePlacement par path ?t ip c = Some (Some ((path @ [?b]) @ q), True)" "exactAt (child ?b ?t) ip c q"
      | q where "nodePlacement par path ?t ip c = Some (Some ((path @ [?b]) @ q), False)" "belowAt (child ?b ?t) ip c q"
      unfolding step
      using trieEntry.IH(1) [of "key nc bs @ [?b]" "Some path" "path @ [?b]"]
        trieEntry.IH(2) [of "key nc bs @ [?b]" "Some path" "path @ [?b]"]
      by (cases ?b) (simp_all, blast+)
    then show ?thesis
    proof cases
      case 1
      with 3 have "belowAt ?t ip c []" by (simp add: belowAt_def)
      with 1 show ?thesis by (metis append_Nil2)
    next
      case 2
      then show ?thesis using at_Cons(1) [of ?t ip c ?b q] by (metis append_assoc append_Cons append_Nil trieEntry.distinct(1))
    next
      case 3
      then show ?thesis using at_Cons(2) [of ?t ip c ?b q] by (metis append_assoc append_Cons append_Nil trieEntry.distinct(1))
    qed
  qed
qed

lemma mismatch_absTrie:
  assumes "wfTrie L pre t" "mismatch t ip c" "length ip = L" "c \<le> 8 * L"
  shows "absTrie t (key c ip) = None"
proof (cases "t = nilEntry")
  case False
  have len: "length (bits t) = L" "cidr t \<le> 8 * L" using assms(1) False by (cases t; simp)+
  have "\<not> prefix (key (cidr t) (bits t)) (key c ip)"
  proof
    assume p: "prefix (key (cidr t) (bits t)) (key c ip)"
    have "length (key (cidr t) (bits t)) = cidr t" using len by (simp add: key_def)
    then have "cidr t \<le> c" "key (cidr t) (bits t) = take (cidr t) (key c ip)"
      using p prefix_length_le [OF p] assms(3,4) by (auto simp: prefix_def length_key [OF assms(3)])
    then show False using assms(2) False by (simp add: mismatch_def key_def min_def)
  qed
  then show ?thesis using absTrie_key [OF assms(1) False] by blast
qed simp

lemma belowAt_slot:
  assumes "wfTrie L pre t" "belowAt t ip c p" "length ip = L" "c \<le> 8 * L"
  defines "x \<equiv> bitsOf ip ! cidr (nodeAt t p)"
  shows "validPath t (p @ [x])" "prefix (slot pre t (p @ [x])) (key c ip)"
    "slot pre t (p @ [x]) = key (Suc (cidr (nodeAt t p))) ip"
proof -
  show "validPath t (p @ [x])" using assms(2) by (simp add: belowAt_def validPath_snoc)
  show s: "slot pre t (p @ [x]) = key (Suc (cidr (nodeAt t p))) ip"
    using assms by (simp add: belowAt_def slot_snoc key_Suc)
  show "prefix (slot pre t (p @ [x])) (key c ip)"
    unfolding s using assms(2) by (intro prefix_key) (simp add: belowAt_def)
qed

lemma belowAt_absTrie:
  assumes "wfTrie L pre t" "belowAt t ip c p" "length ip = L" "c \<le> 8 * L"
  shows "absTrie t (key c ip) = None"
proof -
  let ?x = "bitsOf ip ! cidr (nodeAt t p)"
  note s = belowAt_slot [OF assms]
  have "absTrie t (key c ip) = absTrie (nodeAt t (p @ [?x])) (key c ip)"
    by (rule absTrie_nodeAt [OF assms(1) s(1,2)])
  also have "\<dots> = None"
    using assms(2) mismatch_absTrie [OF wfTrie_nodeAt [OF assms(1) s(1)] _ assms(3,4)]
    by (simp add: belowAt_def nodeAt_snoc)
  finally show ?thesis .
qed

lemma masked_eq:
  assumes "length a = length b" "c \<le> 8 * length a" "maskSelf c a = a" "key c a = key c b"
  shows "a = maskSelf c b"
proof (rule bitsOf_inj)
  have "bitsOf (maskSelf c a) = bitsOf (maskSelf c b)"
    using assms(1,2,4) by (simp add: bitsOf_maskSelf key_def)
  then show "bitsOf a = bitsOf (maskSelf c b)" using assms(3) by simp
qed (use assms in simp)

lemma exactAt_node:
  assumes "wfTrie L pre t" "exactAt t ip c p" "length ip = L" "c \<le> 8 * L"
  shows "bits (nodeAt t p) = maskSelf c ip" "peer (nodeAt t p) = absTrie t (key c ip)"
    "cidr (nodeAt t p) = c" "prefix (slot pre t p) (key c ip)"
proof -
  obtain q bs l r where n: "nodeAt t p = trieEntry q c bs l r" "key c bs = key c ip" "validPath t p"
    using assms(2) by (cases "nodeAt t p") (auto simp: exactAt_def)
  have w: "wfTrie L (slot pre t p) (trieEntry q c bs l r)" using wfTrie_nodeAt [OF assms(1) n(3)] n by simp
  then show "bits (nodeAt t p) = maskSelf c ip" using n assms(3,4) masked_eq [of bs ip c] by simp
  show s: "prefix (slot pre t p) (key c ip)" using w n by simp
  show "peer (nodeAt t p) = absTrie t (key c ip)" using absTrie_nodeAt [OF assms(1) n(3) s] n by simp
  show "cidr (nodeAt t p) = c" using n by simp
qed

section \<open>Insertion\<close>

lemma key_maskSelf: "n \<le> c \<Longrightarrow> c \<le> 8 * length ip \<Longrightarrow> key n (maskSelf c ip) = key n ip"
  by (simp add: key_def take_bitsOf_maskSelf)

lemma maskSelf_idem: "c \<le> 8 * length ip \<Longrightarrow> maskSelf c (maskSelf c ip) = maskSelf c ip"
  by (rule masked_eq [symmetric, of "maskSelf c ip"]) (simp_all add: key_maskSelf, rule bitsOf_inj, simp_all add: bitsOf_maskSelf)

lemma newEntry_wf:
  "length ip = L \<Longrightarrow> c \<le> 8 * L \<Longrightarrow> prefix pre (key c ip) \<Longrightarrow> wfTrie L pre (newEntry (Some q) ip c)"
  by (simp add: newEntry_def key_maskSelf maskSelf_idem)

lemma newEntry_abs: "c \<le> 8 * length ip \<Longrightarrow> absTrie (newEntry (Some q) ip c) k = [key c ip \<mapsto> q] k"
  by (simp add: newEntry_def key_maskSelf)

text \<open>The new node covers the whole subtree: it takes the subtree as one of its children.\<close>

lemma join_above:
  assumes w: "wfTrie L pre down" and nn: "down \<noteq> nilEntry" and n: "wfTrie L pre new"
    and new: "new = trieEntry (Some q) c ip nilEntry nilEntry"
    and lt: "c < cidr down" and k: "key c (bits down) = key c ip"
  defines "s \<equiv> setChild (bitsOf (bits down) ! c) down new"
  shows "wfTrie L pre s" "absTrie s = (absTrie down)(key c ip \<mapsto> q)"
proof -
  let ?b = "bitsOf (bits down) ! c"
  have len: "length (bits down) = L" "cidr down \<le> 8 * L" using w nn by (cases down; simp)+
  have b: "key (Suc c) (bits down) = key c ip @ [?b]" using lt len k by (simp add: key_Suc)
  have p: "prefix (key c ip @ [?b]) (key (cidr down) (bits down))"
    unfolding b [symmetric] using lt by (intro prefix_key) simp
  then have "wfTrie L (key c ip @ [?b]) down" by (rule wfTrie_weaken [OF w nn])
  then show "wfTrie L pre s" unfolding s_def
    by (intro wfTrie_setChild) (use n new nn in simp_all)
  have none: "absTrie down j = None" if "\<not> prefix (key c ip @ [?b]) j" for j
    using absTrie_key [OF w nn, of j] p that prefix_order.trans by blast
  then show "absTrie s = (absTrie down)(key c ip \<mapsto> q)"
    unfolding s_def new by (auto simp: absTrie_setChild fun_eq_iff elim: prefix_snoc_neq)
qed

text \<open>The new node and the subtree part ways: a node without peer joins them.\<close>

lemma join_beside:
  assumes w: "wfTrie L pre down" and nn: "down \<noteq> nilEntry" and n: "wfTrie L pre new"
    and new: "new = trieEntry (Some q) c ip nilEntry nilEntry"
    and c': "c' < c" "c' < cidr down" "key c' (bits down) = key c' ip"
    and d: "bitsOf (bits down) ! c' \<noteq> bitsOf ip ! c'" and pre: "prefix pre (key c' ip)"
  defines "s \<equiv> setChild (bitsOf ip ! c') new (setChild (bitsOf (bits down) ! c') down (newEntry None ip c'))"
  shows "wfTrie L pre s" "absTrie s = (absTrie down)(key c ip \<mapsto> q)"
proof -
  let ?b = "bitsOf (bits down) ! c'" and ?i = "bitsOf ip ! c'"
  have len: "length (bits down) = L" "cidr down \<le> 8 * L" using w nn by (cases down; simp)+
  have li: "length ip = L" "c \<le> 8 * L" using n new by simp_all
  have b: "prefix (key c' ip @ [?b]) (key (cidr down) (bits down))"
    using key_Suc [of c' "bits down"] prefix_key [of "Suc c'" "cidr down" "bits down"] c' len by simp
  have i: "prefix (key c' ip @ [?i]) (key c ip)"
    using key_Suc [of c' ip] prefix_key [of "Suc c'" c ip] c' li by simp
  have wd: "wfTrie L (key c' ip @ [?b]) down" by (rule wfTrie_weaken [OF w nn b])
  have wn: "wfTrie L (key c' ip @ [?i]) new" using wfTrie_weaken [OF n] i new by simp
  have m: "key c' (maskSelf c' ip) = key c' ip" using c' li by (simp add: key_maskSelf)
  have len': "length (maskSelf c' ip) = L" "c' \<le> 8 * L" "maskSelf c' (maskSelf c' ip) = maskSelf c' ip"
    using li c' by (simp_all add: maskSelf_idem)
  have ib: "?i = (\<not> ?b)" using d by blast
  show "wfTrie L pre s"
    using wd wn m len' pre nn new unfolding s_def ib by (cases ?b) (simp_all add: newEntry_def)
  have none: "absTrie down j = None" if "\<not> prefix (key c' ip @ [?b]) j" for j
    using absTrie_outside [OF wd that] .
  have neq: "\<not> prefix (key c' ip @ [?b]) (key c ip)" "key c ip \<noteq> key c' ip"
    using i ib c' li by (auto simp: prefix_def key_def dest: arg_cong [of _ _ length])
  show "absTrie s = (absTrie down)(key c ip \<mapsto> q)"
    using none neq i m unfolding s_def new ib
    by (auto simp: newEntry_def fun_eq_iff absTrie_setChild elim: prefix_snoc_neq)
qed

lemma key_of_prefix: "prefix pre (key n a) \<Longrightarrow> key (length pre) a = pre"
proof -
  assume "prefix pre (key n a)"
  then have "prefix pre (bitsOf a)"
    using take_is_prefix prefix_order.trans unfolding key_def by blast
  then show ?thesis by (auto simp: key_def prefix_def)
qed

lemma joinDown_spec:
  assumes w: "wfTrie L pre down" and nn: "down \<noteq> nilEntry" and L: "validLen L"
    and ip: "length ip = L" "c \<le> 8 * L" "maskSelf c ip = ip" and pre: "prefix pre (key c ip)"
    and mm: "mismatch down ip c" and new: "new = trieEntry (Some q) c ip nilEntry nilEntry"
  shows "\<exists>s. joinDown down ip c new = Some s \<and> wfTrie L pre s \<and> s \<noteq> nilEntry \<and>
    absTrie s = (absTrie down)(key c ip \<mapsto> q)"
proof -
  let ?m = "lcp (bitsOf (bits down)) (bitsOf ip)"
  have len: "length (bits down) = L" "cidr down \<le> 8 * L" "prefix pre (key (cidr down) (bits down))"
    using w nn by (cases down; simp)+
  have cb: "commonBits (bits down) ip = Some ?m" using commonBits_eq L len ip by (auto simp: validLen_def)
  have ge: "n \<le> ?m \<longleftrightarrow> key n (bits down) = key n ip" if "n \<le> 8 * L" for n
    using that lcp_ge_iff [of n "bitsOf (bits down)" "bitsOf ip"] len ip by (simp add: key_def)
  have n: "wfTrie L pre new" using new ip pre by simp
  show ?thesis
  proof (cases "?m < c")
    case False
    then have k: "key c (bits down) = key c ip" using ge [OF ip(2)] by simp
    have lt: "c < cidr down"
    proof (rule ccontr)
      assume "\<not> c < cidr down"
      then show False using mm nn ge [OF len(2)] False by (simp add: mismatch_def)
    qed
    have "joinDown down ip c new = Some (setChild (bitsOf (bits down) ! c) down new)"
      using False lt len by (simp add: joinDown_def cb new choose_bit_eq)
    then show ?thesis using join_above [OF w nn n new lt k] new by auto
  next
    case True
    then have k: "key ?m (bits down) = key ?m ip" using ge [of ?m] ip(2) by simp
    have lt: "?m < cidr down"
    proof (rule ccontr)
      assume "\<not> ?m < cidr down"
      then show False using mm nn ge [OF len(2)] True by (simp add: mismatch_def)
    qed
    have d: "bitsOf (bits down) ! ?m \<noteq> bitsOf ip ! ?m" by (rule lcp_split) (use lt True len ip in simp_all)
    have "length pre \<le> 8 * L" "key (length pre) (bits down) = pre" "key (length pre) ip = pre"
      using pre len(3) prefix_length_le [OF pre] ip by (simp_all add: key_of_prefix length_key)
    then have "prefix pre (key ?m ip)" using ge [of "length pre"] prefix_key [of "length pre" ?m ip] by simp
    moreover have "joinDown down ip c new = Some (setChild (bitsOf ip ! ?m) new
        (setChild (bitsOf (bits down) ! ?m) down (newEntry None ip ?m)))"
      using True lt len ip by (simp add: joinDown_def cb new choose_bit_eq Let_def)
    ultimately show ?thesis
      using join_beside [OF w nn n new True lt k d] by (auto simp: newEntry_def)
  qed
qed

lemma slot_bit:
  assumes "wfTrie L (key (Suc n) ip) s" "s \<noteq> nilEntry" "length ip = L" "n < 8 * L"
  shows "choose_bit n (bits s) = Some (bitsOf ip ! n)"
proof -
  have "length (bits s) = L" "prefix (key (Suc n) ip) (key (cidr s) (bits s))"
    using assms(1,2) by (cases s; simp)+
  moreover from this have "key (Suc n) (bits s) = key (Suc n) ip"
    using assms(3,4) key_of_prefix by (metis length_key Suc_leI)
  ultimately show ?thesis using assms(3,4) by (simp add: choose_bit_eq key_Suc)
qed

lemma setAt_slot_update:
  assumes w: "wfTrie L [] t" and b: "validPath t p" "prefix (slot [] t p) k"
    and s: "wfTrie L (slot [] t p) s" "s \<noteq> nilEntry" "absTrie s = (absTrie (nodeAt t p))(k \<mapsto> q)"
  shows "wfTrie L [] (setAt t p s)" "absTrie (setAt t p s) = (absTrie t)(k \<mapsto> q)"
  using wfTrie_setAt [OF w b(1) s(1)] absTrie_setAt [OF w b(1) s(1)] absTrie_nodeAt [OF w b(1)] s b(2)
  by (auto simp: fun_eq_iff)

lemma trie_insert_below:
  assumes w: "wfTrie L [] t" and L: "validLen L" and ip: "length ip = L" "c \<le> 8 * L"
    and np: "nodePlacement None [] t ip c = Some (Some p, False)" and bl: "belowAt t ip c p"
  shows "\<exists>t'. trie_insert t ip c q E = Some (t', addToPeerEntries q (maskSelf c ip, c) E) \<and>
    wfTrie L [] t' \<and> absTrie t' = (absTrie t)(key c ip \<mapsto> q)"
proof -
  let ?ip = "maskSelf c ip" and ?n = "nodeAt t p" and ?x = "bitsOf ip ! cidr (nodeAt t p)"
  let ?new = "trieEntry (Some q) c ?ip nilEntry nilEntry" and ?sl = "slot [] t (p @ [?x])"
  have nn: "t \<noteq> nilEntry" using np by auto
  have m: "length ?ip = L" "maskSelf c ?ip = ?ip" "key c ?ip = key c ip"
    using ip by (simp_all add: maskSelf_idem key_maskSelf)
  note b = belowAt_slot [OF w bl ip]
  note wd = wfTrie_nodeAt [OF w b(1)]
  have lt: "cidr ?n < c" "mismatch (child ?x ?n) ip c" using bl by (simp_all add: belowAt_def)
  then have mm: "mismatch (child ?x ?n) ?ip c" using ip by (auto simp: mismatch_def key_maskSelf)
  have ch: "choose_bit (cidr ?n) ?ip = Some ?x"
    using lt(1) ip m(1) by (simp add: choose_bit_eq bitsOf_maskSelf nth_append)
  show ?thesis
  proof (cases "child ?x ?n = nilEntry")
    case True
    have "wfTrie L ?sl ?new" using m ip b(2) by simp
    then show ?thesis
      using setAt_slot_update [OF w b(1,2), of ?new q] np ch True m nn
      by (simp add: trie_insert_def newEntry_def Let_def nodeAt_snoc fun_eq_iff)
  next
    case False
    obtain s where s: "joinDown (child ?x ?n) ?ip c ?new = Some s" "wfTrie L ?sl s" "s \<noteq> nilEntry"
        "absTrie s = (absTrie (child ?x ?n))(key c ?ip \<mapsto> q)"
      using joinDown_spec [OF wd [unfolded nodeAt_snoc] False L m(1) ip(2) m(2) _ mm, of ?new q] b(2) m by auto
    have "choose_bit (cidr ?n) (bits s) = Some ?x"
      using slot_bit [OF _ s(3) ip(1), of "cidr ?n"] s(2) b(3) lt(1) ip by simp
    then show ?thesis
      using setAt_slot_update [OF w b(1,2) s(2,3), of q] s np ch False m nn
      by (simp add: trie_insert_def newEntry_def Let_def nodeAt_snoc)
  qed
qed

lemma trie_insert_exact:
  assumes w: "wfTrie L [] t" and ip: "length ip = L" "c \<le> 8 * L"
    and np: "nodePlacement None [] t ip c = Some (Some p, True)" and ex: "exactAt t ip c p"
  shows "\<exists>t'. trie_insert t ip c q E = Some (t', addToPeerEntries q (maskSelf c ip, c)
      (removeFromPeerEntries (absTrie t (key c ip)) (maskSelf c ip, c) E)) \<and>
    wfTrie L [] t' \<and> absTrie t' = (absTrie t)(key c ip \<mapsto> q)"
proof -
  note e = exactAt_node [OF w ex ip]
  obtain o' l r where n: "nodeAt t p = trieEntry o' c (maskSelf c ip) l r" "validPath t p"
    using ex e by (cases "nodeAt t p") (auto simp: exactAt_def)
  have wp: "wfTrie L (slot [] t p) (setPeer (Some q) (nodeAt t p))"
    using wfTrie_nodeAt [OF w n(2)] n by simp
  moreover have "absTrie (setPeer (Some q) (nodeAt t p)) = (absTrie (nodeAt t p))(key c ip \<mapsto> q)"
    using ip n by (auto simp: fun_eq_iff key_maskSelf)
  ultimately show ?thesis
    using setAt_slot_update [OF w n(2) e(4) wp] n np e by (auto simp: trie_insert_def Let_def)
qed

lemma trie_insert_spec:
  assumes w: "wfTrie L [] t" and L: "validLen L" and ip: "length ip = L" "c \<le> 8 * L"
  shows "\<exists>t'. trie_insert t ip c q E = Some (t', addToPeerEntries q (maskSelf c ip, c)
      (removeFromPeerEntries (absTrie t (key c ip)) (maskSelf c ip, c) E)) \<and>
    wfTrie L [] t' \<and> absTrie t' = (absTrie t)(key c ip \<mapsto> q)"
proof (cases "t = nilEntry")
  case True
  then show ?thesis
    using ip newEntry_wf [of ip L c "[]" q]
    by (auto simp: trie_insert_def removeFromPeerEntries_def newEntry_abs fun_eq_iff)
next
  case False
  let ?ip = "maskSelf c ip" and ?new = "trieEntry (Some q) c (maskSelf c ip) nilEntry nilEntry"
  consider "nodePlacement None [] t ip c = Some (None, False)" "mismatch t ip c"
    | p where "nodePlacement None [] t ip c = Some (Some p, True)" "exactAt t ip c p"
    | p where "nodePlacement None [] t ip c = Some (Some p, False)" "belowAt t ip c p"
    using nodePlacement_cases [OF w L ip, of None "[]"] by auto
  then show ?thesis
  proof cases
    case 1
    have m: "length ?ip = L" "maskSelf c ?ip = ?ip" "key c ?ip = key c ip"
      using ip by (simp_all add: maskSelf_idem key_maskSelf)
    have "mismatch t ?ip c" using 1(2) ip by (auto simp: mismatch_def key_maskSelf)
    then obtain s where "joinDown t ?ip c ?new = Some s" "wfTrie L [] s" "absTrie s = (absTrie t)(key c ?ip \<mapsto> q)"
      using joinDown_spec [OF w False L m(1) ip(2) m(2), of ?new q] by auto
    then show ?thesis
      using 1 False m mismatch_absTrie [OF w 1(2) ip]
      by (simp add: trie_insert_def newEntry_def removeFromPeerEntries_def)
  next
    case 2
    then show ?thesis by (rule trie_insert_exact [OF w ip])
  next
    case 3
    then show ?thesis
      using trie_insert_below [OF w L ip 3] belowAt_absTrie [OF w 3(2) ip]
      by (simp add: removeFromPeerEntries_def)
  qed
qed

section \<open>Removal\<close>

lemma setAt_slot_remove:
  assumes w: "wfTrie L [] t" and v: "validPath t p" "prefix (slot [] t p) k"
    and s: "wfTrie L (slot [] t p) s" "absTrie s = (absTrie (nodeAt t p))(k := None)"
    and c: "s \<noteq> nilEntry \<or> p = [] \<or> peer (nodeAt t (butlast p)) \<noteq> None"
  shows "wfTrie L [] (setAt t p s)" "absTrie (setAt t p s) = (absTrie t)(k := None)"
  using wfTrie_setAt [OF w v(1) s(1) c] absTrie_setAt [OF w v(1) s(1)] absTrie_nodeAt [OF w v(1)] s v(2)
  by (auto simp: fun_eq_iff)

lemma absTrie_own_key_child:
  "wfTrie L pre t \<Longrightarrow> t \<noteq> nilEntry \<Longrightarrow> absTrie (child x t) (key (cidr t) (bits t)) = None"
  using absTrie_outside [OF wfTrie_child, of L pre t x] by (auto simp: prefix_def)

lemma absTrie_single_child:
  assumes w: "wfTrie L pre t" and "t \<noteq> nilEntry" and "child (\<not> x) t = nilEntry"
  shows "absTrie (child x t) = (absTrie t)(key (cidr t) (bits t) := None)"
proof
  fix k
  have "absTrie (child x t) k = None" if "\<not> prefix (key (cidr t) (bits t) @ [x]) k"
    using absTrie_outside [OF wfTrie_child [OF w assms(2)] that] .
  then show "absTrie (child x t) k = ((absTrie t)(key (cidr t) (bits t) := None)) k"
    using absTrie_own_key_child [OF w assms(2), of x] assms(2,3)
    by (cases t; cases x) (auto elim: prefix_snoc_neq)
qed

lemma wfTrie_child_up: "wfTrie L pre t \<Longrightarrow> t \<noteq> nilEntry \<Longrightarrow> wfTrie L pre (child x t)"
proof -
  assume w: "wfTrie L pre t" and n: "t \<noteq> nilEntry"
  show ?thesis
  proof (cases "child x t = nilEntry")
    case False
    have "prefix (key (cidr t) (bits t) @ [x]) (key (cidr (child x t)) (bits (child x t)))"
      using wfTrie_child [OF w n, of x] False by (cases "child x t") auto
    moreover have "prefix pre (key (cidr t) (bits t))" using w n by (cases t) auto
    ultimately show ?thesis
      using wfTrie_weaken [OF wfTrie_child [OF w n] False] append_prefixD prefix_order.trans by blast
  qed simp
qed

text \<open>
  A childless node below a node without peer: the other child takes the parent's place.
\<close>

lemma absTrie_sibling:
  assumes w: "wfTrie L pre t" and n: "t \<noteq> nilEntry" "peer t = None"
    and c: "absTrie (child x t) = [k \<mapsto> q]"
  shows "absTrie (child (\<not> x) t) = (absTrie t)(k := None)" "child (\<not> x) t \<noteq> nilEntry"
proof -
  show "child (\<not> x) t \<noteq> nilEntry" using w n by (cases t; cases x) auto
  have k: "prefix (key (cidr t) (bits t) @ [x]) k"
    using absTrie_prefix [OF wfTrie_child [OF w n(1)], of x k] c by simp
  show "absTrie (child (\<not> x) t) = (absTrie t)(k := None)"
  proof
    fix j
    have o: "absTrie (child (\<not> x) t) j = None" if "\<not> prefix (key (cidr t) (bits t) @ [\<not> x]) j" for j
      using absTrie_outside [OF wfTrie_child [OF w n(1)] that] .
    have "\<not> prefix (key (cidr t) (bits t) @ [\<not> x]) k" using k by (cases x) (auto elim: prefix_snoc_neq)
    then have "absTrie (child (\<not> x) t) k = None" by (rule o)
    then show "absTrie (child (\<not> x) t) j = ((absTrie t)(k := None)) j"
      using o [of j] k c n absTrie_own_key_child [OF w n(1), of "\<not> x"]
      by (cases t; cases x) (auto elim: prefix_snoc_neq)
  qed
qed

lemma trie_remove_leaf_glue:
  assumes w: "wfTrie L [] t" and v: "validPath t (pp @ [x])"
    and n: "nodeAt t (pp @ [x]) = trieEntry (Some q) c bs nilEntry nilEntry"
    and g: "peer (nodeAt t pp) = None"
  shows "wfTrie L [] (fst (trie_remove t (pp @ [x]) E)) \<and>
    absTrie (fst (trie_remove t (pp @ [x]) E)) = (absTrie t)(key c bs := None)"
proof -
  let ?par = "nodeAt t pp" and ?t' = "fst (trie_remove t (pp @ [x]) E)"
  have vp: "validPath t pp" "?par \<noteq> nilEntry" "child x ?par = nodeAt t (pp @ [x])"
    using v by (simp_all add: validPath_snoc nodeAt_snoc)
  have "nodeAt (setAt t (pp @ [x]) nilEntry) pp = setChild x nilEntry ?par"
    by (rule nodeAt_setAt_parent [OF v])
  then have "?t' = setAt (setAt t (pp @ [x]) nilEntry) pp (child (\<not> x) ?par)"
    using n g vp by (cases ?par) (auto simp: trie_remove_def Let_def)
  then have t': "?t' = setAt t pp (child (\<not> x) ?par)" by (simp only: setAt_setAt_parent [OF v])
  note wp = wfTrie_nodeAt [OF w vp(1)]
  have a: "absTrie (child x ?par) = [key c bs \<mapsto> q]" using n vp(3) by (auto simp: fun_eq_iff)
  have "prefix (slot [] t pp) (key c bs)"
    using absTrie_prefix [OF wfTrie_child_up [OF wp vp(2)], of x "key c bs"] a by simp
  then show ?thesis
    using setAt_slot_remove [OF w vp(1) _ wfTrie_child_up [OF wp vp(2)]]
      absTrie_sibling [OF wp vp(2) g a] t' by simp
qed

lemma trie_remove_leaf:
  assumes w: "wfTrie L [] t" and v: "validPath t p"
    and n: "nodeAt t p = trieEntry (Some q) c bs nilEntry nilEntry"
    and g: "p = [] \<or> peer (nodeAt t (butlast p)) \<noteq> None"
  shows "wfTrie L [] (fst (trie_remove t p E)) \<and>
    absTrie (fst (trie_remove t p E)) = (absTrie t)(key c bs := None)"
proof -
  have "prefix (slot [] t p) (key c bs)" using wfTrie_nodeAt [OF w v] n by simp
  moreover have "absTrie nilEntry = (absTrie (nodeAt t p))(key c bs := None)" using n by (auto simp: fun_eq_iff)
  moreover have "fst (trie_remove t p E) = setAt t p nilEntry"
  proof (cases p rule: rev_cases)
    case (snoc pp x)
    then show ?thesis
      using n g v nodeAt_setAt_parent [of t pp x nilEntry]
      by (cases "nodeAt t pp") (auto simp: trie_remove_def Let_def)
  qed (use n in \<open>simp add: trie_remove_def Let_def\<close>)
  ultimately show ?thesis using setAt_slot_remove [OF w v _ _ _ ] g by simp
qed

lemma trie_remove_spec:
  assumes w: "wfTrie L [] t" and v: "validPath t p" and n: "nodeAt t p = trieEntry (Some q) c bs l r"
  shows "wfTrie L [] (fst (trie_remove t p E)) \<and>
    absTrie (fst (trie_remove t p E)) = (absTrie t)(key c bs := None)"
proof -
  let ?n = "nodeAt t p" and ?t' = "fst (trie_remove t p E)"
  note wn = wfTrie_nodeAt [OF w v]
  have sl: "prefix (slot [] t p) (key c bs)" using wn n by simp
  have nn: "?n \<noteq> nilEntry" "key (cidr ?n) (bits ?n) = key c bs" using n by simp_all
  consider "l \<noteq> nilEntry" "r \<noteq> nilEntry"
    | x where "child (\<not> x) ?n = nilEntry" "child x ?n \<noteq> nilEntry" "x = (l = nilEntry)"
    | "l = nilEntry" "r = nilEntry"
    using n by (cases "l = nilEntry"; cases "r = nilEntry") auto
  then show ?thesis
  proof cases
    case 1
    have a: "absTrie (setPeer None ?n) = (absTrie ?n)(key c bs := None)" using n by (auto simp: fun_eq_iff)
    have "?t' = setAt t p (setPeer None ?n)" using 1 n by (simp add: trie_remove_def Let_def)
    then show ?thesis using setAt_slot_remove [OF w v sl _ a] wn n 1 by simp
  next
    case 2
    have "?t' = setAt t p (child x ?n)" using 2 n by (auto simp: trie_remove_def Let_def)
    then show ?thesis
      using setAt_slot_remove [OF w v sl wfTrie_child_up [OF wn nn(1)]]
        absTrie_single_child [OF wn nn(1) 2(1)] nn 2 by simp
  next
    case 3
    then show ?thesis
    proof (cases "p = [] \<or> peer (nodeAt t (butlast p)) \<noteq> None")
      case True
      then show ?thesis using trie_remove_leaf [OF w v] n 3 by simp
    next
      case False
      then obtain pp x where "p = pp @ [x]" by (cases p rule: rev_cases) auto
      then show ?thesis using trie_remove_leaf_glue [OF w, of pp x q c bs E] v n 3 False by simp
    qed
  qed
qed

lemma trie_remove_entries:
  "snd (trie_remove t p E) = removeFromPeerEntries (peer (nodeAt t p)) (bits (nodeAt t p), cidr (nodeAt t p)) E"
  by (simp add: trie_remove_def Let_def)

section \<open>Lookup\<close>

text \<open>Longest-prefix match in a map from bit strings, trying the prefixes from the longest down.\<close>

fun lpmUpto :: "(bool list \<Rightarrow> 'p option) \<Rightarrow> bool list \<Rightarrow> nat \<Rightarrow> 'p option" where
  "lpmUpto m bs 0 = m []"
| "lpmUpto m bs (Suc n) = (case m (take (Suc n) bs) of Some q \<Rightarrow> Some q | None \<Rightarrow> lpmUpto m bs n)"

definition lpm :: "(bool list \<Rightarrow> 'p option) \<Rightarrow> bool list \<Rightarrow> 'p option" where
  "lpm m bs = lpmUpto m bs (length bs)"

lemma lpmUpto_none: "lpmUpto m bs N = None \<longleftrightarrow> (\<forall>j\<le>N. m (take j bs) = None)"
  by (induction N) (auto simp: le_Suc_eq split: option.splits)

lemma lpmUpto_some:
  "lpmUpto m bs N = Some q \<longleftrightarrow>
     (\<exists>n\<le>N. m (take n bs) = Some q \<and> (\<forall>j. n < j \<and> j \<le> N \<longrightarrow> m (take j bs) = None))"
proof (induction N)
  case (Suc N)
  show ?case
  proof (cases "m (take (Suc N) bs)")
    case None
    then show ?thesis using Suc by (auto simp: le_Suc_eq)
  next
    case (Some a)
    have "n = Suc N" if "n \<le> Suc N" "\<forall>j. n < j \<and> j \<le> Suc N \<longrightarrow> m (take j bs) = None" for n
    proof (rule ccontr)
      assume "n \<noteq> Suc N"
      with that have "m (take (Suc N) bs) = None" by auto
      with Some show False by simp
    qed
    then have "(\<exists>n\<le>Suc N. m (take n bs) = Some q \<and> (\<forall>j. n < j \<and> j \<le> Suc N \<longrightarrow> m (take j bs) = None)) \<longleftrightarrow>
        m (take (Suc N) bs) = Some q"
      by (intro iffI exI [of _ "Suc N"]) (blast, auto)
    then show ?thesis using Some by simp
  qed
qed auto

lemma lpm_empty [simp]: "lpm (\<lambda>_. None) bs = None" "lpm (absTrie nilEntry) bs = None"
  by (simp_all add: lpm_def lpmUpto_none)

lemma lpm_agree:
  assumes "\<And>j. j \<le> n \<Longrightarrow> j \<noteq> c \<Longrightarrow> m (take j bs) = m' (take j bs)" and "m' (take c bs) = None" and "c \<le> n"
    and "\<And>j. j < c \<Longrightarrow> m' (take j bs) = None"
  shows "lpmUpto m bs n = (case lpmUpto m' bs n of None \<Rightarrow> m (take c bs) | Some q \<Rightarrow> Some q)"
proof (cases "lpmUpto m' bs n")
  case None
  then have "m (take j bs) = None" if "j \<le> n" "j \<noteq> c" for j using assms(1) that by (simp add: lpmUpto_none)
  then have "lpmUpto m bs n = m (take c bs)"
    using assms(3) by (cases "m (take c bs)") (auto simp: lpmUpto_none lpmUpto_some intro!: exI [of _ c])
  then show ?thesis using None by simp
next
  case (Some q)
  then obtain k where "k \<le> n" "m' (take k bs) = Some q" "\<And>j. k < j \<Longrightarrow> j \<le> n \<Longrightarrow> m' (take j bs) = None"
    by (auto simp: lpmUpto_some)
  moreover from this assms(2,4) have "c < k" by (metis linorder_neqE_nat option.distinct(1))
  ultimately have "lpmUpto m bs n = Some q"
    unfolding lpmUpto_some using assms(1) by (intro exI [of _ k]) auto
  then show ?thesis using Some by simp
qed

lemma lpm_mismatch:
  assumes w: "wfTrie L pre t" and n: "t \<noteq> nilEntry" and k: "key (cidr t) (bits t) \<noteq> key (cidr t) ip"
  shows "lpm (absTrie t) (bitsOf ip) = None"
proof -
  have lk: "length (key (cidr t) (bits t)) = cidr t" using w n by (cases t) (simp_all add: key_def)
  have "\<not> prefix (key (cidr t) (bits t)) (key j ip)" for j
    using k key_of_prefix [of "key (cidr t) (bits t)" j ip] lk by auto
  then show ?thesis
    using absTrie_no_key [OF w n] by (auto simp: lpm_def lpmUpto_none key_def [of _ ip])
qed

lemma lpm_match:
  assumes w: "wfTrie L pre t" and n: "t \<noteq> nilEntry" and ip: "length ip = L"
    and k: "key (cidr t) (bits t) = key (cidr t) ip"
  shows "lpm (absTrie t) (bitsOf ip) =
    (case lpm (absTrie (child (bitsOf ip ! cidr t) t)) (bitsOf ip) of None \<Rightarrow> peer t | Some q \<Rightarrow> Some q)"
proof -
  let ?c = "cidr t" and ?b = "bitsOf ip ! cidr t" and ?k = "key (cidr t) (bits t)"
  have bs: "length ?k = ?c" "?c \<le> 8 * L" using w n by (cases t; simp add: key_def)+
  have short: "absTrie (child ?b t) (take j (bitsOf ip)) = None" if "j \<le> ?c" for j
    by (rule absTrie_outside [OF wfTrie_child [OF w n]]) (use that bs in \<open>auto dest!: prefix_length_le\<close>)
  have own: "absTrie t (take ?c (bitsOf ip)) = peer t" using k n by (cases t) (auto simp: key_def)
  have "absTrie t (take j (bitsOf ip)) = absTrie (child ?b t) (take j (bitsOf ip))" if "j \<le> 8 * L" "j \<noteq> ?c" for j
  proof (cases "j < ?c")
    case True
    then have "\<not> prefix ?k (take j (bitsOf ip))" using bs by (auto dest!: prefix_length_le)
    then show ?thesis using absTrie_no_key [OF w n] short [of j] True by simp
  next
    case False
    then have "prefix (key ?c ip @ [?b]) (key j ip)"
      using prefix_key [of "Suc ?c" j ip] key_Suc [of ?c ip] that ip by simp
    then show ?thesis using absTrie_child [OF w _ n, of ?b] k by (simp add: key_def)
  qed
  then show ?thesis
    unfolding lpm_def own [symmetric] using short bs ip by (intro lpm_agree) auto
qed

lemma trie_lookup_spec:
  assumes "wfTrie L pre t" and "validLen L" and "length ip = L"
  shows "trie_lookup found t ip =
    Some (case lpm (absTrie t) (bitsOf ip) of None \<Rightarrow> found | Some q \<Rightarrow> Some q)"
  using assms(1)
proof (induction t arbitrary: found pre)
  case nilEntry
  show ?case by simp
next
  case (trieEntry p c bs l r)
  let ?t = "trieEntry p c bs l r" and ?b = "bitsOf ip ! c" and ?f = "case p of None \<Rightarrow> found | Some q \<Rightarrow> Some q"
  have bs: "length bs = L" "c \<le> 8 * L" using trieEntry.prems by simp_all
  obtain m where m: "commonBits bs ip = Some m" "c \<le> m \<longleftrightarrow> key c bs = key c ip"
    using commonBits_ge [OF assms(2) bs(1) assms(3) bs(2)] by auto
  have wb: "wfTrie L (key c bs @ [?b]) (child ?b ?t)" using wfTrie_child [OF trieEntry.prems, of ?b] by simp
  note lm = lpm_match [OF trieEntry.prems _ assms(3)]
  consider "key c bs \<noteq> key c ip" | "key c bs = key c ip" "c = 8 * L" | "key c bs = key c ip" "c < 8 * L"
    using bs by linarith
  then show ?case
  proof cases
    case 1
    then show ?thesis using m lpm_mismatch [OF trieEntry.prems, of ip] by (simp del: absTrie.simps)
  next
    case 2
    then have "child ?b ?t = nilEntry" using wfTrie_deep_nil [OF wb] bs length_key [OF bs] by simp
    then show ?thesis using lm m 2 assms(3) by (simp add: bitAtByte_def del: absTrie.simps split: option.splits)
  next
    case 3
    then have "c div 8 \<noteq> L" by linarith
    with 3 have "trie_lookup found ?t ip = trie_lookup ?f (child ?b ?t) ip"
      using m assms(3) by (simp add: bitAtByte_def choose_bit_eq)
    also have "\<dots> = Some (case lpm (absTrie (child ?b ?t)) (bitsOf ip) of None \<Rightarrow> ?f | Some q \<Rightarrow> Some q)"
      using trieEntry.IH wb by (cases ?b) simp_all
    finally show ?thesis using lm 3 by (simp del: absTrie.simps split: option.splits)
  qed
qed

section \<open>The table as a map from prefixes to peers\<close>

text \<open>An abstract route table maps an address length in bytes and a bit string to a peer.\<close>

type_synonym 'p routes = "nat \<times> bool list \<Rightarrow> 'p option"

definition prefixKey :: "Prefix \<Rightarrow> nat \<times> bool list" where
  "prefixKey p = (length (Addr p), key (Bits p) (Addr p))"

definition validPrefix :: "Prefix \<Rightarrow> bool" where
  "validPrefix p \<longleftrightarrow> validLen (length (Addr p)) \<and> Bits p \<le> 8 * length (Addr p)"

definition absTable :: "'p AllowedIPs \<Rightarrow> 'p routes" where
  "absTable T = (\<lambda>(L, k). if validLen L then absTrie (familyOf T L) k else None)"

definition routeLookup :: "'p routes \<Rightarrow> bytes \<Rightarrow> 'p option" where
  "routeLookup m ip = lpm (\<lambda>k. m (length ip, k)) (bitsOf ip)"

definition validEntry :: "bytes \<times> nat \<Rightarrow> bool" where
  "validEntry e \<longleftrightarrow> validLen (length (fst e)) \<and> snd e \<le> 8 * length (fst e) \<and> maskSelf (snd e) (fst e) = fst e"

definition entryKey :: "bytes \<times> nat \<Rightarrow> nat \<times> bool list" where
  "entryKey e = (length (fst e), key (snd e) (fst e))"

definition entriesInv :: "'p routes \<Rightarrow> 'p entries \<Rightarrow> bool" where
  "entriesInv m E \<longleftrightarrow> (\<forall>q. distinct (E q) \<and> set (E q) = {e. validEntry e \<and> m (entryKey e) = Some q})"

definition tableInv :: "'p AllowedIPs \<Rightarrow> bool" where
  "tableInv T \<longleftrightarrow> wfTrie 4 [] (IPv4 T) \<and> wfTrie 16 [] (IPv6 T) \<and> entriesInv (absTable T) (trieEntries T)"

lemma familyOf_wf: "tableInv T \<Longrightarrow> validLen L \<Longrightarrow> wfTrie L [] (familyOf T L)"
  by (auto simp: tableInv_def familyOf_def validLen_def)

lemma entryKey_inj: "validEntry a \<Longrightarrow> validEntry b \<Longrightarrow> entryKey a = entryKey b \<Longrightarrow> a = b"
proof -
  assume v: "validEntry a" "validEntry b" "entryKey a = entryKey b"
  obtain x c y d where ab: "a = (x, c)" "b = (y, d)" by (cases a; cases b)
  have l: "length x = length y" "key c x = key d y" using v(3) by (simp_all add: ab entryKey_def)
  moreover have "length (key c x) = c" "length (key d y) = d"
    using v(1,2) by (auto simp: ab validEntry_def key_def)
  ultimately have "c = d" by metis
  moreover have "x = maskSelf c y" using v l \<open>c = d\<close> by (intro masked_eq) (auto simp: ab validEntry_def)
  ultimately show ?thesis using v(2) by (simp add: ab validEntry_def)
qed

lemma absTable_setFamily:
  "validLen L \<Longrightarrow> absTrie t = (absTrie (familyOf T L))(k := v) \<Longrightarrow>
   absTable (setFamily L (t, E) T) = (absTable T)((L, k) := v)"
  by (auto simp: absTable_def setFamily_def familyOf_def validLen_def fun_eq_iff)

lemma tableInv_setFamily:
  "tableInv T \<Longrightarrow> validLen L \<Longrightarrow> wfTrie L [] t \<Longrightarrow> entriesInv (absTable (setFamily L (t, E) T)) E \<Longrightarrow>
   tableInv (setFamily L (t, E) T)"
  by (auto simp: tableInv_def setFamily_def validLen_def)

lemma entriesInv_remove:
  assumes i: "entriesInv m E" and e: "validEntry e"
  shows "entriesInv (m(entryKey e := None)) (removeFromPeerEntries (m (entryKey e)) e E)"
proof (cases "m (entryKey e)")
  case None
  then show ?thesis using i by (simp add: removeFromPeerEntries_def fun_upd_idem)
next
  case (Some q)
  have "set (E p) - {e} = {x. validEntry x \<and> (m(entryKey e := None)) (entryKey x) = Some p}" for p
    using i entryKey_inj [OF _ e] Some by (auto simp: entriesInv_def)
  moreover have "set (removeFromPeerEntries (m (entryKey e)) e E p) = set (E p) - {e}" for p
    using i Some by (auto simp: entriesInv_def removeFromPeerEntries_def set_remove1_eq)
  moreover have "distinct (removeFromPeerEntries (m (entryKey e)) e E p)" for p
    using i Some by (auto simp: entriesInv_def removeFromPeerEntries_def)
  ultimately show ?thesis unfolding entriesInv_def by blast
qed

lemma entriesInv_add:
  assumes i: "entriesInv m E" and e: "validEntry e" and n: "m (entryKey e) = None"
  shows "entriesInv (m(entryKey e \<mapsto> q)) (addToPeerEntries q e E)"
proof -
  have "e \<notin> set (E p)" for p using i n by (auto simp: entriesInv_def)
  moreover have "validEntry x \<Longrightarrow> entryKey x = entryKey e \<longleftrightarrow> x = e" for x using entryKey_inj [OF _ e] by blast
  ultimately show ?thesis using i e by (auto simp: entriesInv_def addToPeerEntries_def)
qed

lemma maskedEntry:
  assumes "validPrefix p"
  shows "validEntry (maskSelf (Bits p) (Addr p), Bits p)"
    "entryKey (maskSelf (Bits p) (Addr p), Bits p) = prefixKey p"
  using assms by (simp_all add: validPrefix_def validEntry_def entryKey_def prefixKey_def key_maskSelf maskSelf_idem)

lemma Insert_setFamily:
  "validPrefix p \<Longrightarrow> Insert T p q = map_option (\<lambda>s. setFamily (length (Addr p)) s T)
     (trie_insert (familyOf T (length (Addr p))) (Addr p) (Bits p) q (trieEntries T))"
  by (auto simp: Insert_def validPrefix_def validLen_def familyOf_def setFamily_def case_prod_beta
      intro!: option.map_cong)

lemma Insert_refines:
  assumes i: "tableInv T" and v: "validPrefix p"
  shows "\<exists>T'. Insert T p q = Some T' \<and> tableInv T' \<and> absTable T' = (absTable T)(prefixKey p \<mapsto> q)"
proof -
  let ?L = "length (Addr p)" and ?k = "key (Bits p) (Addr p)" and ?e = "(maskSelf (Bits p) (Addr p), Bits p)"
  have L: "validLen ?L" and b: "Bits p \<le> 8 * ?L" using v by (simp_all add: validPrefix_def)
  let ?E = "addToPeerEntries q ?e (removeFromPeerEntries (absTable T (prefixKey p)) ?e (trieEntries T))"
  have a: "absTrie (familyOf T ?L) ?k = absTable T (prefixKey p)"
    using L by (simp add: absTable_def prefixKey_def)
  obtain t where t: "Insert T p q = Some (setFamily ?L (t, ?E) T)" "wfTrie ?L [] t"
      "absTrie t = (absTrie (familyOf T ?L))(?k \<mapsto> q)"
    using trie_insert_spec [OF familyOf_wf [OF i L] L refl b, of q "trieEntries T"]
    by (auto simp: Insert_setFamily [OF v] a)
  have ab: "absTable (setFamily ?L (t, ?E) T) = (absTable T)(prefixKey p \<mapsto> q)"
    using absTable_setFamily [OF L t(3)] by (simp add: prefixKey_def)
  have ei: "entriesInv (absTable T) (trieEntries T)" using i by (simp add: tableInv_def)
  have "entriesInv ((absTable T)(prefixKey p \<mapsto> q)) ?E"
    using entriesInv_add [OF entriesInv_remove [OF ei maskedEntry(1) [OF v]] maskedEntry(1) [OF v]]
      maskedEntry(2) [OF v] by simp
  then show ?thesis using t ab tableInv_setFamily [OF i L t(2)] by simp
qed

lemma removeNode_refines:
  assumes i: "tableInv T" and L: "validLen (length ip)" and c: "c \<le> 8 * length ip"
    and q: "absTable T (length ip, key c ip) = Some q"
  shows "\<exists>path. nodePlacement None [] (familyOf T (length ip)) ip c = Some (Some path, True) \<and>
    peer (nodeAt (familyOf T (length ip)) path) = Some q \<and>
    (let T' = setFamily (length ip) (trie_remove (familyOf T (length ip)) path (trieEntries T)) T in
     tableInv T' \<and> absTable T' = (absTable T)((length ip, key c ip) := None) \<and>
     trieEntries T' = (trieEntries T)(q := remove1 (maskSelf c ip, c) (trieEntries T q)))"
proof -
  let ?t = "familyOf T (length ip)" and ?e = "(maskSelf c ip, c)"
  note w = familyOf_wf [OF i L]
  have ab: "absTrie ?t (key c ip) = Some q" using q L by (simp add: absTable_def)
  then obtain p where p: "nodePlacement None [] ?t ip c = Some (Some p, True)" "exactAt ?t ip c p"
    using nodePlacement_cases [OF w L refl c, of None "[]"] mismatch_absTrie [OF w _ refl c]
      belowAt_absTrie [OF w _ refl c] by auto
  note e = exactAt_node [OF w p(2) refl c]
  obtain l r where n: "nodeAt ?t p = trieEntry (Some q) c (maskSelf c ip) l r" "validPath ?t p"
    using p(2) e ab by (cases "nodeAt ?t p") (auto simp: exactAt_def)
  obtain t' E' where tr: "trie_remove ?t p (trieEntries T) = (t', E')" by fastforce
  have E: "E' = removeFromPeerEntries (absTable T (entryKey ?e)) ?e (trieEntries T)"
    using trie_remove_entries [of ?t p "trieEntries T"] tr n q c by (simp add: entryKey_def key_maskSelf)
  have t': "wfTrie (length ip) [] t'" "absTrie t' = (absTrie ?t)(key c ip := None)"
    using trie_remove_spec [OF w n(2,1), of "trieEntries T"] tr c by (simp_all add: key_maskSelf)
  note ab' = absTable_setFamily [OF L t'(2), of E']
  have ve: "validEntry ?e" "entryKey ?e = (length ip, key c ip)"
    using L c by (simp_all add: validEntry_def entryKey_def key_maskSelf maskSelf_idem)
  have ei: "entriesInv (absTable T) (trieEntries T)" using i by (simp add: tableInv_def)
  have "tableInv (setFamily (length ip) (t', E') T)"
    using tableInv_setFamily [OF i L t'(1), of E'] entriesInv_remove [OF ei ve(1)] ab' E ve(2) by simp
  moreover have "trieEntries (setFamily (length ip) (t', E') T) = E'" by (simp add: setFamily_def)
  ultimately show ?thesis
    using p(1) n ab' E q ve tr by (simp add: Let_def removeFromPeerEntries_def)
qed

lemma nodePlacement_total:
  assumes "tableInv T" "validLen (length ip)" "c \<le> 8 * length ip"
    "absTable T (length ip, key c ip) \<noteq> Some q"
  shows "\<exists>par ex. nodePlacement None [] (familyOf T (length ip)) ip c = Some (par, ex) \<and>
    (\<forall>path. par = Some path \<longrightarrow> ex \<longrightarrow> peer (nodeAt (familyOf T (length ip)) path) \<noteq> Some q)"
  using nodePlacement_cases [OF familyOf_wf [OF assms(1,2)] assms(2) refl assms(3), of None "[]"]
    exactAt_node(2) [OF familyOf_wf [OF assms(1,2)] _ refl assms(3)] assms
  by (auto simp: absTable_def)

lemma Remove_refines:
  assumes i: "tableInv T" and v: "validPrefix p"
  shows "\<exists>T'. Remove T p q = Some T' \<and> tableInv T' \<and>
    absTable T' = (if absTable T (prefixKey p) = Some q then (absTable T)(prefixKey p := None) else absTable T)"
proof -
  have L: "validLen (length (Addr p))" and b: "Bits p \<le> 8 * length (Addr p)"
    using v by (simp_all add: validPrefix_def)
  then have n: "length (Addr p) = 16 \<or> length (Addr p) = 4" by (auto simp: validLen_def)
  show ?thesis
  proof (cases "absTable T (prefixKey p) = Some q")
    case True
    then show ?thesis
      using removeNode_refines [OF i L b, of q] n by (auto simp: Remove_def prefixKey_def Let_def)
  next
    case False
    then show ?thesis
      using nodePlacement_total [OF i L b, of q] i n
      by (auto simp: Remove_def prefixKey_def Let_def split: option.splits)
  qed
qed

lemma absTrie_entry:
  "wfTrie L pre t \<Longrightarrow> absTrie t k = Some q \<Longrightarrow>
   \<exists>bs c. length bs = L \<and> c \<le> 8 * L \<and> maskSelf c bs = bs \<and> key c bs = k"
  by (induction t arbitrary: pre) (auto split: if_splits)

lemma absTable_entry:
  assumes "tableInv T"
  shows "absTable T k = Some q \<longleftrightarrow> (\<exists>e \<in> set (trieEntries T q). entryKey e = k)"
proof
  assume a: "absTable T k = Some q"
  then have L: "validLen (fst k)" "absTrie (familyOf T (fst k)) (snd k) = Some q"
    by (auto simp: absTable_def split: prod.splits if_splits)
  then obtain bs c where "length bs = fst k" "c \<le> 8 * fst k" "maskSelf c bs = bs" "key c bs = snd k"
    using absTrie_entry [OF familyOf_wf [OF assms L(1)] L(2)] by blast
  then have "validEntry (bs, c)" "entryKey (bs, c) = k" using L by (simp_all add: validEntry_def entryKey_def)
  then show "\<exists>e \<in> set (trieEntries T q). entryKey e = k"
    using assms a by (intro bexI [of _ "(bs, c)"]) (auto simp: tableInv_def entriesInv_def)
qed (use assms in \<open>auto simp: tableInv_def entriesInv_def\<close>)

lemma removeEntries_refines:
  "tableInv T \<Longrightarrow> trieEntries T q = es \<Longrightarrow>
   \<exists>T'. removeEntries T es = Some T' \<and> tableInv T' \<and>
     absTable T' = (\<lambda>k. if absTable T k = Some q then None else absTable T k)"
proof (induction es arbitrary: T)
  case Nil
  then have "absTable T = (\<lambda>k. if absTable T k = Some q then None else absTable T k)"
    using absTable_entry [OF Nil(1), of _ q] by (auto simp: fun_eq_iff)
  with Nil show ?case by simp
next
  case (Cons e es)
  obtain bs c where e: "e = (bs, c)" by fastforce
  have "e \<in> set (trieEntries T q)" using Cons.prems by simp
  then have v: "validEntry e" "absTable T (entryKey e) = Some q"
    using Cons.prems(1) unfolding tableInv_def entriesInv_def by blast+
  then have b: "validLen (length bs)" "c \<le> 8 * length bs" "maskSelf c bs = bs"
    "absTable T (length bs, key c bs) = Some q" by (simp_all add: e validEntry_def entryKey_def)
  obtain path T1 where s: "nodePlacement None [] (familyOf T (length bs)) bs c = Some (Some path, True)"
      "setFamily (length bs) (trie_remove (familyOf T (length bs)) path (trieEntries T)) T = T1"
      "tableInv T1" "absTable T1 = (absTable T)((length bs, key c bs) := None)" "trieEntries T1 q = es"
    using removeNode_refines [OF Cons.prems(1) b(1,2,4)] Cons.prems(2) b(3) by (auto simp: Let_def e)
  then show ?case using Cons.IH [OF s(3,5)] b(4) by (auto simp: e fun_eq_iff)
qed

lemma RemoveByPeer_refines:
  "tableInv T \<Longrightarrow> \<exists>T'. RemoveByPeer T q = Some T' \<and> tableInv T' \<and>
     absTable T' = (\<lambda>k. if absTable T k = Some q then None else absTable T k)"
  using removeEntries_refines [of T q] by (simp add: RemoveByPeer_def)

lemma Lookup_refines:
  assumes "tableInv T" "validLen (length ip)"
  shows "Lookup T ip = Some (routeLookup (absTable T) ip)"
proof -
  have "Lookup T ip = trie_lookup None (familyOf T (length ip)) ip"
    using assms(2) by (auto simp: Lookup_def validLen_def familyOf_def)
  also have "\<dots> = Some (lpm (absTrie (familyOf T (length ip))) (bitsOf ip))"
    using trie_lookup_spec [OF familyOf_wf [OF assms] assms(2) refl, of None] by (simp split: option.splits)
  finally show ?thesis using assms(2) by (simp add: routeLookup_def absTable_def)
qed

lemma untilFalse_all: "untilFalse (\<lambda>_. True) xs = xs"
  by (induction xs) auto

lemma EntriesForPeer_refines:
  assumes "tableInv T"
  shows "distinct (map prefixKey (EntriesForPeer T q (\<lambda>_. True)))"
    "prefixKey ` set (EntriesForPeer T q (\<lambda>_. True)) = {k. absTable T k = Some q}"
proof -
  have m: "map prefixKey (EntriesForPeer T q (\<lambda>_. True)) = map entryKey (trieEntries T q)"
    by (simp add: EntriesForPeer_def untilFalse_all prefixKey_def entryKey_def case_prod_beta)
  have "\<forall>e \<in> set (trieEntries T q). validEntry e" "distinct (trieEntries T q)"
    using assms by (auto simp: tableInv_def entriesInv_def)
  then show "distinct (map prefixKey (EntriesForPeer T q (\<lambda>_. True)))"
    unfolding m distinct_map by (blast intro: inj_onI entryKey_inj)
  have "prefixKey ` set (EntriesForPeer T q (\<lambda>_. True)) = entryKey ` set (trieEntries T q)"
    by (metis m list.set_map)
  then show "prefixKey ` set (EntriesForPeer T q (\<lambda>_. True)) = {k. absTable T k = Some q}"
    using absTable_entry [OF assms, of _ q] by (simp add: image_def eq_commute)
qed

section \<open>Sequences of operations\<close>

datatype 'p routeOp = OpInsert Prefix 'p | OpRemove Prefix 'p | OpRemoveByPeer 'p

fun opValid :: "'p routeOp \<Rightarrow> bool" where
  "opValid (OpInsert p q) \<longleftrightarrow> validPrefix p"
| "opValid (OpRemove p q) \<longleftrightarrow> validPrefix p"
| "opValid (OpRemoveByPeer q) \<longleftrightarrow> True"

fun routeStep :: "'p routeOp \<Rightarrow> 'p routes \<Rightarrow> 'p routes" where
  "routeStep (OpInsert p q) m = m(prefixKey p \<mapsto> q)"
| "routeStep (OpRemove p q) m = (if m (prefixKey p) = Some q then m(prefixKey p := None) else m)"
| "routeStep (OpRemoveByPeer q) m = (\<lambda>k. if m k = Some q then None else m k)"

fun runOps :: "('p routeOp \<Rightarrow> 't \<Rightarrow> 't option) \<Rightarrow> 'p routeOp list \<Rightarrow> 't \<Rightarrow> 't option" where
  "runOps stp [] t = Some t"
| "runOps stp (opn # ops) t = Option.bind (stp opn t) (runOps stp ops)"

text \<open>What the device may rely on: every operation refines the step on the abstract table.\<close>

locale routing_table =
  fixes none :: 't
    and step :: "'p routeOp \<Rightarrow> 't \<Rightarrow> 't option"
    and look :: "'t \<Rightarrow> bytes \<Rightarrow> 'p option option"
    and entries :: "'t \<Rightarrow> 'p \<Rightarrow> Prefix list"
    and inv :: "'t \<Rightarrow> bool"
    and abs :: "'t \<Rightarrow> 'p routes"
  assumes none_inv: "inv none"
    and none_abs: "abs none = (\<lambda>_. None)"
    and step_refines: "inv t \<Longrightarrow> opValid opn \<Longrightarrow>
      \<exists>t'. step opn t = Some t' \<and> inv t' \<and> abs t' = routeStep opn (abs t)"
    and look_refines: "inv t \<Longrightarrow> validLen (length ip) \<Longrightarrow> look t ip = Some (routeLookup (abs t) ip)"
    and entries_refines: "inv t \<Longrightarrow> prefixKey ` set (entries t p) = {k. abs t k = Some p}"
begin

lemma exec_refines:
  "inv t \<Longrightarrow> list_all opValid ops \<Longrightarrow>
   \<exists>t'. runOps step ops t = Some t' \<and> inv t' \<and> abs t' = fold routeStep ops (abs t)"
proof (induction ops arbitrary: t)
  case (Cons opn ops)
  obtain t' where "step opn t = Some t'" "inv t'" "abs t' = routeStep opn (abs t)"
    using step_refines [OF Cons.prems(1), of opn] Cons.prems(2) by auto
  then show ?case using Cons.IH [of t'] Cons.prems(2) by simp
qed simp

lemma exec_lookup:
  assumes "list_all opValid ops"
  shows "\<exists>t. runOps step ops none = Some t \<and> inv t \<and>
    (\<forall>ip. validLen (length ip) \<longrightarrow> look t ip = Some (routeLookup (fold routeStep ops (\<lambda>_. None)) ip))"
  using exec_refines [OF none_inv assms] look_refines none_abs by force

lemma exec_entries:
  assumes "list_all opValid ops"
  shows "\<exists>t. runOps step ops none = Some t \<and>
    (\<forall>q. prefixKey ` set (entries t q) = {k. fold routeStep ops (\<lambda>_. None) k = Some q})"
  using exec_refines [OF none_inv assms] entries_refines none_abs by force

end

fun tableStep :: "'p routeOp \<Rightarrow> 'p AllowedIPs \<Rightarrow> 'p AllowedIPs option" where
  "tableStep (OpInsert p q) T = Insert T p q"
| "tableStep (OpRemove p q) T = Remove T p q"
| "tableStep (OpRemoveByPeer q) T = RemoveByPeer T q"

lemma tableStep_refines:
  "tableInv T \<Longrightarrow> opValid opn \<Longrightarrow>
   \<exists>T'. tableStep opn T = Some T' \<and> tableInv T' \<and> absTable T' = routeStep opn (absTable T)"
  using Insert_refines Remove_refines RemoveByPeer_refines by (cases opn) fastforce+

lemma emptyAllowedIPs_abs: "absTable emptyAllowedIPs = (\<lambda>_. None)"
  by (auto simp: emptyAllowedIPs_def absTable_def familyOf_def fun_eq_iff)

lemma emptyAllowedIPs_inv: "tableInv emptyAllowedIPs"
  unfolding tableInv_def emptyAllowedIPs_abs by (simp add: emptyAllowedIPs_def entriesInv_def)

interpretation aip: routing_table emptyAllowedIPs tableStep Lookup
  "\<lambda>T q. EntriesForPeer T q (\<lambda>_. True)" tableInv absTable
  by unfold_locales (simp_all add: emptyAllowedIPs_inv emptyAllowedIPs_abs tableStep_refines Lookup_refines EntriesForPeer_refines)

definition runTable :: "'p routeOp list \<Rightarrow> 'p AllowedIPs \<Rightarrow> 'p AllowedIPs option" where
  "runTable = runOps tableStep"

text \<open>
  C6: After any sequence of insertions, removals and peer removals with valid prefixes from the empty
  table, no operation has panicked, the trie invariant holds, and looking up any IPv4 or IPv6 address
  returns the peer of the longest matching prefix of the abstract route table that the same sequence
  produces.
\<close>

theorem AllowedIPs_longest_prefix:
  assumes "list_all opValid ops"
  shows "\<exists>T. runTable ops emptyAllowedIPs = Some T \<and> tableInv T \<and>
    (\<forall>ip. validLen (length ip) \<longrightarrow> Lookup T ip = Some (routeLookup (fold routeStep ops (\<lambda>_. None)) ip))"
  unfolding runTable_def by (rule aip.exec_lookup [OF assms])

theorem AllowedIPs_longest_prefix_witness:
  "\<exists>T. runTable [OpInsert \<lparr>Addr = [10, 0, 0, 0], Bits = 8\<rparr> (1::nat), OpInsert \<lparr>Addr = [10, 1, 0, 0], Bits = 16\<rparr> 2,
     OpRemoveByPeer 1] emptyAllowedIPs = Some T \<and> Lookup T [10, 1, 2, 3] = Some (Some 2)"
proof -
  let ?ops = "[OpInsert \<lparr>Addr = [10, 0, 0, 0], Bits = 8\<rparr> (1::nat), OpInsert \<lparr>Addr = [10, 1, 0, 0], Bits = 16\<rparr> 2,
     OpRemoveByPeer 1]"
  have v: "list_all opValid ?ops" by (simp add: validPrefix_def validLen_def)
  have "routeLookup (fold routeStep ?ops (\<lambda>_. None)) [10, 1, 2, 3] = Some 2" by code_simp
  then show ?thesis using AllowedIPs_longest_prefix [OF v] by (auto simp: validLen_def)
qed

text \<open>
  C18: After any sequence of operations with valid prefixes, the prefixes reported for a peer
  (\<open>EntriesForPeer\<close>, the source of \<open>allowed_ip\<close> lines in the configuration dump) are exactly the
  prefixes the abstract route table assigns to it.
\<close>

theorem AllowedIPs_entries_exact:
  assumes "list_all opValid ops"
  shows "\<exists>T. runTable ops emptyAllowedIPs = Some T \<and>
    (\<forall>q. prefixKey ` set (EntriesForPeer T q (\<lambda>_. True)) = {k. fold routeStep ops (\<lambda>_. None) k = Some q})"
  unfolding runTable_def by (rule aip.exec_entries [OF assms])

theorem AllowedIPs_entries_exact_witness:
  "\<exists>T. runTable [OpInsert \<lparr>Addr = [10, 0, 0, 7], Bits = 8\<rparr> (1::nat)] emptyAllowedIPs = Some T \<and>
     prefixKey ` set (EntriesForPeer T 1 (\<lambda>_. True)) = {prefixKey \<lparr>Addr = [10, 0, 0, 7], Bits = 8\<rparr>}"
proof -
  have v: "list_all opValid [OpInsert \<lparr>Addr = [10, 0, 0, 7], Bits = 8\<rparr> (1::nat)]"
    by (simp add: validPrefix_def validLen_def)
  show ?thesis using AllowedIPs_entries_exact [OF v] by (auto split: if_splits)
qed

lemma lpm_in_range: "lpm m bs = Some q \<Longrightarrow> \<exists>k. m k = Some q"
  by (auto simp: lpm_def lpmUpto_some)



end
