(* ===== verification/MagicHeader.thy ===== *)
theory MagicHeader
  imports Prelude
begin

text \<open>
  Message-type ranges of the obfuscated protocol (\<^verbatim>\<open>device/magic-header.go\<close>). Each WireGuard message
  type is replaced on the wire by a random value of a configured interval; the text form is \<open>n\<close>
  or \<open>n-m\<close>. The theory proves that the text form and the interval agree, that a generated value
  is recognised, and where generation panics.
\<close>

record magicHeader =
  mhStart :: u32
  mhEnd :: u32

datatype mhError = BadFormat | FailedToParse string numError | WrongRange

definition newMagicHeader :: "string \<Rightarrow> mhError + magicHeader" where
  "newMagicHeader spec =
     (let parts = splitOn CHR ''-'' spec in
      if length parts < 1 \<or> length parts > 2 then Inl BadFormat
      else case parseUint 32 (parts ! 0) of
        Inl e \<Rightarrow> Inl (FailedToParse (parts ! 0) e)
      | Inr start \<Rightarrow>
          (case (if length parts > 1 then parseUint 32 (parts ! 1) else Inr start) of
             Inl e \<Rightarrow> Inl (FailedToParse (parts ! 1) e)
           | Inr end' \<Rightarrow>
               if end' < start then Inl WrongRange
               else Inr \<lparr>mhStart = word_of_nat start, mhEnd = word_of_nat end'\<rparr>))"

definition GenSpec :: "magicHeader \<Rightarrow> string" where
  "GenSpec h =
     (if mhStart h = mhEnd h then showNat (unat (mhStart h))
      else showNat (unat (mhStart h)) @ ''-'' @ showNat (unat (mhEnd h)))"

definition Validate :: "magicHeader \<Rightarrow> u32 \<Rightarrow> bool" where
  "Validate h val \<longleftrightarrow> mhStart h \<le> val \<and> val \<le> mhEnd h"

text \<open>The subtraction and the increment are 32-bit; \<^const>\<open>None\<close> is the panic of \<^const>\<open>randInt\<close>.\<close>

definition Generate :: "nat \<Rightarrow> magicHeader \<Rightarrow> u32 option" where
  "Generate x h =
     (let high = int (unat (mhEnd h - mhStart h + 1))
      in map_option (\<lambda>r. mhStart h + word_of_nat r) (randInt x high))"

definition mhOrdered :: "magicHeader \<Rightarrow> bool" where
  "mhOrdered h \<longleftrightarrow> mhStart h \<le> mhEnd h"

definition mhFull :: "magicHeader \<Rightarrow> bool" where
  "mhFull h \<longleftrightarrow> mhStart h = 0 \<and> mhEnd h = - 1"

lemma word_of_nat_le32:
  "a \<le> b \<Longrightarrow> b < 2 ^ 32 \<Longrightarrow> (word_of_nat a :: u32) \<le> word_of_nat b"
  by (simp add: word_le_nat_alt unat_of_nat)

lemma newMagicHeader_ordered: "newMagicHeader spec = Inr h \<Longrightarrow> mhOrdered h"
  by (auto simp: newMagicHeader_def mhOrdered_def Let_def split: sum.splits if_splits
      dest!: parseUint_bound intro!: word_of_nat_le32)

lemma showNat_no_dash: "CHR ''-'' \<notin> set (showNat n)"
  using showNat_digits [of "CHR ''-''" n] by (auto simp: is_digit_def ord_of_def)

lemma unat32: "unat (w :: u32) < 2 ^ 32"
  using unsigned_less [of w] by simp

text \<open>
  C25: Printing a magic header and parsing the text back gives the same header, for every header
  with ordered bounds, which is every header the parser itself can return.
\<close>

theorem magicHeader_roundtrip:
  "newMagicHeader (GenSpec h) = Inr h \<longleftrightarrow> mhOrdered h"
proof
  assume "mhOrdered h"
  then have le: "unat (mhStart h) \<le> unat (mhEnd h)" by (simp add: mhOrdered_def word_le_nat_alt)
  show "newMagicHeader (GenSpec h) = Inr h"
  proof (cases "mhStart h = mhEnd h")
    case True
    then show ?thesis
      using unat32 [of "mhEnd h"]
      by (simp add: newMagicHeader_def GenSpec_def splitOn_none showNat_no_dash)
  next
    case False
    have "splitOn CHR ''-'' (GenSpec h) = [showNat (unat (mhStart h)), showNat (unat (mhEnd h))]"
      using False by (simp add: GenSpec_def splitOn_append splitOn_none showNat_no_dash)
    then show ?thesis
      using le unat32 [of "mhEnd h"] unat32 [of "mhStart h"] by (simp add: newMagicHeader_def)
  qed
qed (rule newMagicHeader_ordered)

lemma Generate_offset:
  assumes "mhOrdered h" and "\<not> mhFull h"
  shows "unat (mhEnd h - mhStart h + 1) = unat (mhEnd h) - unat (mhStart h) + 1"
proof -
  have le: "mhStart h \<le> mhEnd h" using assms(1) by (simp add: mhOrdered_def)
  then have d: "unat (mhEnd h - mhStart h) = unat (mhEnd h) - unat (mhStart h)"
    by (rule unat_sub)
  have "mhEnd h - mhStart h \<noteq> - 1"
  proof
    assume a: "mhEnd h - mhStart h = - 1"
    have "unat (- 1 :: u32) = 4294967295" by (simp add: unsigned_minus_1_eq_mask mask_eq_exp_minus_1)
    then have "unat (mhEnd h) - unat (mhStart h) = 4294967295" using d a by simp
    moreover have "unat (mhEnd h) < 4294967296" using unat32 [of "mhEnd h"] by simp
    ultimately have "unat (mhStart h) = 0" by arith
    then have "mhStart h = 0" by (simp add: unat_eq_0)
    with a assms(2) show False by (simp add: mhFull_def)
  qed
  then have "1 + (mhEnd h - mhStart h) \<noteq> 0" unfolding eq_neg_iff_add_eq_0 by (simp only: add.commute not_False_eq_True)
  then have "unat (1 + (mhEnd h - mhStart h)) = Suc (unat (mhEnd h - mhStart h))" by (rule unatSuc)
  then have "unat (mhEnd h - mhStart h + 1) = Suc (unat (mhEnd h - mhStart h))" by (simp only: add.commute)
  with d show ?thesis by simp
qed

lemma Generate_full: "mhFull h \<Longrightarrow> Generate x h = None"
  by (simp add: Generate_def mhFull_def randInt_def)

lemma Generate_in_range:
  assumes "mhOrdered h" and "\<not> mhFull h" and "Generate x h = Some v"
  shows "Validate h v"
proof -
  have le: "unat (mhStart h) \<le> unat (mhEnd h)" using assms(1) by (simp add: mhOrdered_def word_le_nat_alt)
  obtain r where r: "randInt x (int (unat (mhEnd h) - unat (mhStart h) + 1)) = Some r"
    and v: "v = mhStart h + word_of_nat r"
    using assms(3) unfolding Generate_def Let_def Generate_offset [OF assms(1,2)] map_option_eq_Some
    by blast
  have "r \<le> unat (mhEnd h) - unat (mhStart h)" using randInt_range [OF r] unfolding of_nat_less_iff by arith
  then have "unat (mhStart h) + r \<le> unat (mhEnd h)" using le by simp
  then show ?thesis
    using unat32 [of "mhEnd h"] unfolding v by (simp add: Validate_def word_le_nat_alt unat_add_nowrap)
qed

lemma Generate_onto:
  assumes "mhOrdered h" and "\<not> mhFull h" and "Validate h v"
  shows "Generate (unat (v - mhStart h)) h = Some v"
proof -
  have "mhStart h \<le> v" and v: "unat v \<le> unat (mhEnd h)"
    using assms(3) by (simp_all add: Validate_def word_le_nat_alt)
  then have d: "unat (v - mhStart h) = unat v - unat (mhStart h)" by (simp add: unat_sub)
  have "unat (v - mhStart h) < unat (mhEnd h - mhStart h + 1)"
    unfolding Generate_offset [OF assms(1,2)] d using v by arith
  then have "randInt (unat (v - mhStart h)) (int (unat (mhEnd h - mhStart h + 1))) = Some (unat (v - mhStart h))"
    by (intro randInt_onto) (simp only: of_nat_less_iff)
  then show ?thesis unfolding Generate_def Let_def by (simp only: option.map) simp
qed

lemma Generate_total:
  assumes "mhOrdered h" and "\<not> mhFull h"
  shows "Generate x h \<noteq> None"
proof -
  have "\<not> int (unat (mhEnd h - mhStart h + 1)) \<le> 0"
    unfolding Generate_offset [OF assms] by linarith
  then show ?thesis unfolding Generate_def Let_def randInt_def by (simp only: if_False) simp
qed

text \<open>
  C24: For a header with ordered bounds, the values that \<open>Generate\<close> can return are exactly the
  values that \<open>Validate\<close> recognises, and it never panics, except for the full 32-bit range, where
  the 32-bit size computation wraps to zero and every call panics.
\<close>

theorem Generate_Validate:
  assumes "mhOrdered h"
  shows "(Generate x h = None \<longleftrightarrow> mhFull h) \<and>
    {v. \<exists>x. Generate x h = Some v} = (if mhFull h then {} else {v. Validate h v})"
proof (cases "mhFull h")
  case True
  then show ?thesis by (simp add: Generate_full)
next
  case False
  have "(\<exists>x. Generate x h = Some v) \<longleftrightarrow> Validate h v" for v
    using Generate_in_range [OF assms False] Generate_onto [OF assms False] by blast
  then show ?thesis using Generate_total [OF assms False, of x] False by simp
qed

theorem Generate_Validate_witness:
  "mhOrdered \<lparr>mhStart = 5, mhEnd = 9\<rparr> \<and> Generate 7 \<lparr>mhStart = 5, mhEnd = 9\<rparr> \<noteq> None"
proof -
  have o: "mhOrdered \<lparr>mhStart = 5, mhEnd = 9\<rparr>" by (simp add: mhOrdered_def)
  have "\<not> mhFull \<lparr>mhStart = 5, mhEnd = 9\<rparr>" by (simp add: mhFull_def)
  then show ?thesis using conjunct1 [OF Generate_Validate [OF o, of 7]] o by blast
qed

end
