(* ===== verification/Imitate.thy ===== *)
theory Imitate
  imports Prelude "HOL-Library.Monad_Syntax"
begin

text \<open>
  Protocol-shaped filler (\<^verbatim>\<open>device/obf_imitate.go\<close>): the writers that turn padding and junk datagrams
  into QUIC, DNS, STUN or SIP lookalikes. A writer gets the whole datagram and the length of the
  region it may write; a write outside the buffer is \<^const>\<open>None\<close>. The theory proves that every
  writer stays inside its region and leaves the payload behind it alone, and that what it writes is
  structurally a message of its protocol.
\<close>

section \<open>Protocols and seeds\<close>

datatype imitateProto = imitateNone | imitateQUIC | imitateDNS | imitateSTUN | imitateSIP

definition parseImitateProto :: "string \<Rightarrow> imitateProto option" where
  "parseImitateProto s =
     (if s = '''' \<or> s = ''none'' then Some imitateNone
      else if s = ''quic'' then Some imitateQUIC
      else if s = ''dns'' then Some imitateDNS
      else if s = ''stun'' then Some imitateSTUN
      else if s = ''sip'' then Some imitateSIP
      else None)"

fun imitateProtoName :: "imitateProto \<Rightarrow> string" where
  "imitateProtoName imitateQUIC = ''quic''"
| "imitateProtoName imitateDNS = ''dns''"
| "imitateProtoName imitateSTUN = ''stun''"
| "imitateProtoName imitateSIP = ''sip''"
| "imitateProtoName imitateNone = ''none''"

definition fnv1aSeed :: "bytes \<Rightarrow> u32" where
  "fnv1aSeed payload = foldl (\<lambda>state b. (state XOR ucast b) * 0x01000193) 0x811c9dc5 (take 64 payload)"

definition imitateJunkSeed :: "u64 \<Rightarrow> u32" where
  "imitateJunkSeed n = fnv1aSeed (put_le64 n)"

definition lcgStep :: "u32 \<Rightarrow> u32" where
  "lcgStep state = state * 1103515245 + 12345"

section \<open>QUIC short header\<close>

fun quicBody :: "u32 \<Rightarrow> nat \<Rightarrow> bytes" where
  "quicBody state 0 = []"
| "quicBody state (Suc n) = ucast (drop_bit 16 state) # quicBody (lcgStep state) n"

definition writeQUICShort :: "bytes \<Rightarrow> nat \<Rightarrow> u32 \<Rightarrow> bytes option" where
  "writeQUICShort buf padding seed =
     (if padding > length buf then None
      else if padding = 0 then Some buf
      else
        (let state = seed;
             spin = (ucast (drop_bit 8 state) :: u8) AND 0x01;
             state = lcgStep state;
             keyPhase = (ucast (drop_bit 8 state) :: u8) AND 0x01;
             state = lcgStep state;
             pnLenBits = (ucast state :: u8) AND 0x03;
             state = lcgStep state
         in put_at 0 ((0x40 OR push_bit 5 spin OR push_bit 2 keyPhase OR pnLenBits)
              # quicBody state (padding - 1)) buf))"

section \<open>STUN\<close>

definition stunCookie :: u32 where "stunCookie = 0x2112A442"

fun stunSoftware :: "u32 \<Rightarrow> nat \<Rightarrow> bytes" where
  "stunSoftware state 0 = []"
| "stunSoftware state (Suc n) = (0x20 + ucast (state mod 0x5F)) # stunSoftware (lcgStep state) n"

text \<open>
  The two attribute blocks write into \<open>p\<close> and return it with the generator state and the number of
  TLV bytes written so far.
\<close>

definition stunMapped :: "bytes \<Rightarrow> nat \<Rightarrow> u32 \<Rightarrow> (bytes \<times> u32 \<times> nat) option" where
  "stunMapped p body state =
     (if body \<ge> 12 then
        (let port = (ucast (drop_bit 16 state) :: u16); state = lcgStep state;
             addr = state; state = lcgStep state;
             xport = port XOR ucast (drop_bit 16 stunCookie);
             xaddr = addr XOR stunCookie in
         do { p \<leftarrow> put_at 20 (put_be16 0x0020) p;
              p \<leftarrow> put_at 22 (put_be16 8) p;
              p \<leftarrow> put_at 24 [0x00] p;
              p \<leftarrow> put_at 25 [0x01] p;
              p \<leftarrow> put_at 26 (put_be16 xport) p;
              p \<leftarrow> put_at 28 (put_be32 xaddr) p;
              Some (p, state, 12) })
      else Some (p, state, 0))"

definition stunFill :: "bytes \<Rightarrow> nat \<Rightarrow> u32 \<Rightarrow> nat \<Rightarrow> (bytes \<times> nat) option" where
  "stunFill p body state written =
     (let remaining = body - written in
      if remaining \<ge> 4 then
        (let vlen = (if remaining - 4 > 124 then 124 else remaining - 4); off = 20 + written in
         do { p \<leftarrow> put_at off (put_be16 0x8022) p;
              p \<leftarrow> put_at (off + 2) (put_be16 (word_of_nat vlen)) p;
              p \<leftarrow> put_at (off + 4) (stunSoftware state vlen) p;
              Some (p, written + (4 + vlen)) })
      else Some (p, written))"

definition stunTxn :: "u32 \<Rightarrow> bytes" where
  "stunTxn seed = put_be32 seed @ put_be32 (lcgStep seed) @ put_be32 (lcgStep (lcgStep seed))"

definition stunHeader :: "nat \<Rightarrow> u32 \<Rightarrow> bytes" where
  "stunHeader written seed =
     put_be16 0x0101 @ put_be16 (word_of_nat written) @ put_be32 stunCookie @ stunTxn seed"

definition stunBody :: "nat \<Rightarrow> nat" where
  "stunBody padding = (if padding > 20 then (padding - 20) div 4 * 4 else 0)"

definition writeSTUN :: "bytes \<Rightarrow> nat \<Rightarrow> u32 \<Rightarrow> bytes option" where
  "writeSTUN buf padding seed =
     (if padding > length buf then None
      else if padding = 0 then Some buf
      else
        (let p = take padding buf; body = stunBody padding in
         do { (p, state, written) \<leftarrow> stunMapped p body (lcgStep (lcgStep (lcgStep seed)));
              (p, written) \<leftarrow> stunFill p body state written;
              let copyLen = (if padding > 20 then 20 else padding) in
              do { p \<leftarrow> put_at 0 (take copyLen (stunHeader written seed)) p;
                   let p = take (20 + written) p @ replicate (padding - (20 + written)) 0 in
                   Some (p @ drop padding buf) } }))"

section \<open>DNS\<close>

definition clampU16 :: "int \<Rightarrow> u16" where
  "clampU16 v = (if v < 0 then 0 else if v > 0xFFFF then 0xFFFF else word_of_int v)"

definition dnsOptMin :: nat where "dnsOptMin = 12 + 5 + 11 + 4"

definition dnsQuestion :: bytes where "dnsQuestion = [0x00, 0x00, 0x01, 0x00, 0x01]"

definition dnsHeader :: "u8 \<Rightarrow> u8 \<Rightarrow> bytes" where
  "dnsHeader t0 t1 = [t0, t1, 0x81, 0x80, 0x00, 0x01, 0x00, 0x00, 0x00, 0x00, 0x00, 0x01]"

definition dnsOpt :: "u16 \<Rightarrow> u16 \<Rightarrow> bytes" where
  "dnsOpt rdlength optLen =
     [0x00, 0x00, 0x29, 0x04, 0xd0, 0x00, 0x00, 0x00, 0x00] @ put_be16 rdlength @ [0xfd, 0xe9] @ put_be16 optLen"

definition writeDNSOptResponse :: "bytes \<Rightarrow> nat \<Rightarrow> u8 \<times> u8 \<Rightarrow> bytes option" where
  "writeDNSOptResponse p tot txid =
     (let optOff = 12 + length dnsQuestion;
          rdlength = clampU16 (int tot - int (optOff + 11));
          optLen = clampU16 (int tot - int (optOff + 11 + 4));
          opt = dnsOpt rdlength optLen in
      do { p \<leftarrow> put_at 0 (dnsHeader (fst txid) (snd txid)) p;
           p \<leftarrow> put_at 12 dnsQuestion p;
           p \<leftarrow> put_at optOff opt p;
           Some (take (optOff + length opt) p @ replicate (length p - (optOff + length opt)) 0) })"

definition dnsNullFixed :: "u8 \<times> u8 \<Rightarrow> u8 \<Rightarrow> u8 \<Rightarrow> u16 \<Rightarrow> bytes" where
  "dnsNullFixed txid qdcount ancount rdlength =
     [fst txid, snd txid, 0x81, 0x80, 0x00, qdcount, 0x00, ancount, 0x00, 0x00, 0x00, 0x00,
      0x00, 0x00, 0x01, 0x00, 0x01, 0x00, 0x00, 0x0a, 0x00, 0x01, 0x00, 0x00, 0x00, 0x3c] @ put_be16 rdlength"

definition writeDNSNull :: "bytes \<Rightarrow> nat \<Rightarrow> u8 \<times> u8 \<Rightarrow> bytes option" where
  "writeDNSNull buf padding txid =
     (if padding > length buf then None
      else if padding = 0 then Some buf
      else
        (let qdcount = (if padding \<ge> 17 then 1 else 0);
             ancount = (if padding \<ge> 28 then 1 else 0);
             rdlength = clampU16 (int (length buf) - 28);
             fixed = dnsNullFixed txid qdcount ancount rdlength;
             advertised = (if padding \<ge> 28 then 28 else if padding \<ge> 17 then 17 else 12);
             copyLen = (if padding < advertised then padding else advertised)
         in put_at 0 (take copyLen fixed @ replicate (padding - copyLen) 0) buf))"

definition writeDNSMsg :: "bytes \<Rightarrow> nat \<Rightarrow> u8 \<times> u8 \<Rightarrow> bytes option" where
  "writeDNSMsg buf padding txid =
     (if padding < dnsOptMin then writeDNSNull buf padding txid
      else if padding > length buf then None
      else map_option (\<lambda>p. p @ drop padding buf)
             (writeDNSOptResponse (take padding buf) (length buf) txid))"

definition writeDNS :: "bytes \<Rightarrow> nat \<Rightarrow> bytes option" where
  "writeDNS buf padding =
     (if padding = 0 then Some buf
      else if padding > length buf then None
      else
        (let payload = drop padding buf;
             t0 = (if length payload > 0 then payload ! 0 else 0);
             t1 = (if length payload > 1 then payload ! 1 else 0)
         in writeDNSMsg buf padding (t0, t1)))"

definition writeDNSWhole :: "bytes \<Rightarrow> u32 \<Rightarrow> bytes option" where
  "writeDNSWhole buf seed =
     (if length buf = 0 then Some buf
      else writeDNSMsg buf (length buf) (ucast (drop_bit 8 seed), ucast seed))"

section \<open>SIP\<close>

fun decimalDigits :: "nat \<Rightarrow> nat" where
  "decimalDigits value = (if value \<ge> 10 then Suc (decimalDigits (value div 10)) else 1)"

declare decimalDigits.simps [simp del]

definition crlf :: string where "crlf = [CHR 0x0D, CHR 0x0A]"

definition hex08 :: "u32 \<Rightarrow> string" where "hex08 w = hexEncode (put_be32 w)"

definition sipStatus :: "string list" where "sipStatus = [''100 Trying'', ''180 Ringing'', ''200 OK'']"

definition sipHosts :: "string list" where
  "sipHosts = [''sip.example.com'', ''pbx.example.net'', ''voip.example.org'']"

definition sipMethods :: "string list" where "sipMethods = [''INVITE'', ''OPTIONS'', ''REGISTER'']"

text \<open>
  \<^verbatim>\<open>putLine\<close> on the region \<open>p\<close> and the position \<open>pos\<close>: whether the line and the closing blank line
  fit, and the state after it.
\<close>

definition putLine :: "string \<Rightarrow> bytes \<times> nat \<Rightarrow> bool \<times> bytes \<times> nat" where
  "putLine line st =
     (let p = fst st; pos = snd st; n = length line in
      if pos + n + 2 \<le> length p
      then (True, take pos p @ str_bytes line @ drop (pos + n) p, pos + n)
      else (False, p, pos))"

fun putStatus :: "string list \<Rightarrow> bytes \<times> nat \<Rightarrow> bool \<times> bytes \<times> nat" where
  "putStatus [] st = (False, st)"
| "putStatus (s # ss) st =
     (case putLine (''SIP/2.0 '' @ s @ crlf) st of
        (True, st') \<Rightarrow> (True, st')
      | (False, st') \<Rightarrow> putStatus ss st')"

text \<open>The chain of \<^verbatim>\<open>putLine(...) && ...\<close>: the lines up to the first that does not fit.\<close>

fun putAll :: "string list \<Rightarrow> bytes \<times> nat \<Rightarrow> bool \<times> bytes \<times> nat" where
  "putAll [] st = (True, st)"
| "putAll (l # ls) st =
     (case putLine l st of
        (True, st') \<Rightarrow> putAll ls st'
      | (False, st') \<Rightarrow> (False, st'))"

definition sipMandatory :: "u32 \<Rightarrow> string list" where
  "sipMandatory seed =
     (let st = lcgStep seed;
          host = sipHosts ! (unat st mod 3); st = lcgStep st;
          meth = sipMethods ! (unat st mod 3); st = lcgStep st;
          branch = st; st = lcgStep st;
          fromTag = st; st = lcgStep st;
          toTag = st; st = lcgStep st;
          callID = st; st = lcgStep st;
          cseq = 1 + st mod 100000 in
      [''Via: SIP/2.0/UDP '' @ host @ '':5060;branch=z9hG4bK'' @ hex08 branch @ '';rport'' @ crlf,
       ''From: <sip:caller@'' @ host @ ''>;tag='' @ hex08 fromTag @ crlf,
       ''To: <sip:callee@'' @ host @ ''>;tag='' @ hex08 toTag @ crlf,
       ''Call-ID: '' @ hex08 callID @ ''@'' @ host @ crlf,
       ''CSeq: '' @ showNat (unat cseq) @ '' '' @ meth @ crlf])"

text \<open>
  The search for a \<^verbatim>\<open>Content-Length\<close> whose own width is consistent: the inner loop runs over the
  number of digits and stops when the header no longer fits, the outer one over one or two spaces.
\<close>

fun clInner :: "nat \<Rightarrow> nat \<Rightarrow> nat \<Rightarrow> nat \<Rightarrow> nat list \<Rightarrow> nat option" where
  "clInner pos totalLen len sws [] = None"
| "clInner pos totalLen len sws (digits # ds) =
     (let headerEnd = pos + 15 + sws + digits + 4 in
      if headerEnd > len then None
      else if decimalDigits (totalLen - headerEnd) = digits then Some (totalLen - headerEnd)
      else clInner pos totalLen len sws ds)"

definition contentLengthLine :: "nat \<Rightarrow> nat \<Rightarrow> nat \<Rightarrow> string option" where
  "contentLengthLine pos totalLen len =
     (let widths = [1..<Suc (decimalDigits totalLen)] in
      case clInner pos totalLen len 1 widths of
        Some body \<Rightarrow> Some (''Content-Length: '' @ showNat body @ crlf)
      | None \<Rightarrow>
          (case clInner pos totalLen len 2 widths of
             Some body \<Rightarrow> Some (''Content-Length:  '' @ showNat body @ crlf)
           | None \<Rightarrow> None))"

definition sipFragment :: "nat \<Rightarrow> bytes" where
  "sipFragment len =
     (let frag = str_bytes (''SIP/2.0 100 Trying'' @ crlf);
          p = take len frag @ replicate (len - length frag) 0x20 in
      if len \<ge> 2 then take (len - 2) p @ str_bytes crlf else p)"

definition sipClose :: "bytes \<times> nat \<Rightarrow> bytes" where
  "sipClose st =
     (let p = fst st; pos = snd st;
          st' = (if pos + 2 \<le> length p then (take pos p @ str_bytes crlf @ drop (pos + 2) p, pos + 2) else (p, pos))
      in take (snd st') (fst st') @ replicate (length p - snd st') 0x20)"

definition writeSIP :: "bytes \<Rightarrow> nat \<Rightarrow> u32 \<Rightarrow> bytes option" where
  "writeSIP buf padding seed =
     (if padding > length buf then None
      else if padding = 0 then Some buf
      else
        (let p = take padding buf;
             statusIdx = unat seed mod 3;
             order = map (\<lambda>k. sipStatus ! ((statusIdx + k) mod 3)) [0, 1, 2] in
         case putStatus order (p, 0) of
           (False, _) \<Rightarrow> Some (sipFragment padding @ drop padding buf)
         | (True, st) \<Rightarrow>
             (case putAll (sipMandatory seed) st of
                (allMandatory, st) \<Rightarrow>
                  (let st = (if allMandatory then
                               (case contentLengthLine (snd st) (length buf) padding of
                                  Some line \<Rightarrow> snd (putLine line st)
                                | None \<Rightarrow> st)
                             else st)
                   in Some (sipClose st @ drop padding buf)))))"

section \<open>Dispatch\<close>

fun imitateFill :: "imitateProto \<Rightarrow> bytes \<Rightarrow> nat \<Rightarrow> u32 \<Rightarrow> bytes option" where
  "imitateFill imitateQUIC buf padding seed = writeQUICShort buf padding seed"
| "imitateFill imitateDNS buf padding seed = writeDNS buf padding"
| "imitateFill imitateSTUN buf padding seed = writeSTUN buf padding seed"
| "imitateFill imitateSIP buf padding seed = writeSIP buf padding seed"
| "imitateFill imitateNone buf padding seed = Some buf"

definition imitateFillPrefix :: "bytes \<Rightarrow> nat \<Rightarrow> imitateProto \<Rightarrow> bytes option" where
  "imitateFillPrefix buf padding p =
     (if padding = 0 \<or> padding \<ge> length buf then Some buf
      else imitateFill p buf padding (fnv1aSeed (drop padding buf)))"

fun imitateFillWhole :: "bytes \<Rightarrow> u32 \<Rightarrow> imitateProto \<Rightarrow> bytes option" where
  "imitateFillWhole buf seed imitateQUIC = writeQUICShort buf (length buf) seed"
| "imitateFillWhole buf seed imitateDNS = writeDNSWhole buf seed"
| "imitateFillWhole buf seed imitateSTUN = writeSTUN buf (length buf) seed"
| "imitateFillWhole buf seed imitateSIP = writeSIP buf (length buf) seed"
| "imitateFillWhole buf seed imitateNone = Some buf"

text \<open>
  \<^verbatim>\<open>fillPadding\<close> and \<^verbatim>\<open>fillJunk\<close>: without a protocol the region is overwritten by random bytes \<open>rnd\<close>,
  as many as requested; the junk counter is the device's, incremented before use.
\<close>

definition fillPadding :: "imitateProto \<Rightarrow> bytes \<Rightarrow> bytes \<Rightarrow> nat \<Rightarrow> bytes option" where
  "fillPadding proto rnd buf padding =
     (if proto \<noteq> imitateNone then imitateFillPrefix buf padding proto
      else put_at 0 (take padding rnd) buf)"

definition fillJunk :: "imitateProto \<Rightarrow> u64 \<Rightarrow> bytes \<Rightarrow> bytes \<Rightarrow> bytes option \<times> u64" where
  "fillJunk proto junkCounter rnd buf =
     (if proto \<noteq> imitateNone
      then (imitateFillWhole buf (imitateJunkSeed (junkCounter + 1)) proto, junkCounter + 1)
      else (put_at 0 (take (length buf) rnd) buf, junkCounter))"

section \<open>The contract of a writer\<close>

text \<open>
  A writer replaces exactly the first \<open>padding\<close> bytes of the datagram, whatever they held, and keeps
  the payload.
\<close>

locale filler =
  fixes w :: "bytes \<Rightarrow> nat \<Rightarrow> u32 \<Rightarrow> bytes option"
  assumes fills: "padding \<le> length buf \<Longrightarrow>
    \<exists>p. w buf padding seed = Some (p @ drop padding buf) \<and> length p = padding"
begin

lemma keeps_payload:
  assumes "padding \<le> length buf"
  shows "\<exists>out. w buf padding seed = Some out \<and> length out = length buf \<and>
    drop padding out = drop padding buf"
proof -
  obtain p where "w buf padding seed = Some (p @ drop padding buf)" "length p = padding"
    using fills [OF assms] by blast
  then show ?thesis using assms by simp
qed

lemma whole:
  "\<exists>out. w buf (length buf) seed = Some out \<and> length out = length buf"
  using keeps_payload [of "length buf" buf seed] by auto

end

lemma length_quicBody [simp]: "length (quicBody s n) = n"
  by (induction n arbitrary: s) auto

lemma length_stunSoftware [simp]: "length (stunSoftware s n) = n"
  by (induction n arbitrary: s) auto

interpretation quic: filler writeQUICShort
proof
  fix padding :: nat and buf :: bytes and seed
  assume "padding \<le> length buf"
  then show "\<exists>p. writeQUICShort buf padding seed = Some (p @ drop padding buf) \<and> length p = padding"
    by (auto simp: writeQUICShort_def Let_def)
qed

definition stunMappedTLV :: "u32 \<Rightarrow> bytes" where
  "stunMappedTLV state =
     put_be16 0x0020 @ put_be16 8 @ [0x00] @ [0x01] @
     put_be16 (ucast (drop_bit 16 state) XOR ucast (drop_bit 16 stunCookie)) @
     put_be32 (lcgStep state XOR stunCookie)"

definition stunSoftwareTLV :: "u32 \<Rightarrow> nat \<Rightarrow> bytes" where
  "stunSoftwareTLV state vlen = put_be16 0x8022 @ put_be16 (word_of_nat vlen) @ stunSoftware state vlen"

lemma length_stunTLV [simp]:
  "length (stunMappedTLV s) = 12" "length (stunSoftwareTLV s v) = 4 + v"
  "length (stunHeader n s) = 20"
  by (simp_all add: stunMappedTLV_def stunSoftwareTLV_def stunHeader_def stunTxn_def)

lemma stunMapped_eq:
  "stunMapped p body s = (if body \<ge> 12
     then Option.bind (put_at 20 (stunMappedTLV s) p) (\<lambda>p. Some (p, lcgStep (lcgStep s), 12))
     else Some (p, s, 0))"
  by (simp add: stunMapped_def stunMappedTLV_def Let_def put_at_bind)

lemma stunFill_eq:
  "stunFill p body s n = (if body - n \<ge> 4
     then Option.bind (put_at (20 + n) (stunSoftwareTLV s (min 124 (body - n - 4))) p)
       (\<lambda>p. Some (p, n + (4 + min 124 (body - n - 4))))
     else Some (p, n))"
proof -
  have "(if body - n - 4 > 124 then 124 else body - n - 4) = min 124 (body - n - 4)" by simp
  then show ?thesis by (simp add: stunFill_def stunSoftwareTLV_def Let_def put_at_bind del: min_def)
qed

text \<open>The attributes of a STUN message for a region of \<open>padding\<close> bytes.\<close>

definition stunAttrs :: "nat \<Rightarrow> u32 \<Rightarrow> bytes" where
  "stunAttrs padding seed =
     (let body = stunBody padding; s = lcgStep (lcgStep (lcgStep seed)) in
      if body \<ge> 12 then
        stunMappedTLV s @
        (if body - 12 \<ge> 4 then stunSoftwareTLV (lcgStep (lcgStep s)) (min 124 (body - 16)) else [])
      else if body \<ge> 4 then stunSoftwareTLV s (min 124 (body - 4)) else [])"

lemma stunBody_bound: "padding \<ge> 20 \<Longrightarrow> 20 + stunBody padding \<le> padding" "padding < 20 \<Longrightarrow> stunBody padding = 0"
  by (auto simp: stunBody_def)

lemma length_stunAttrs: "length (stunAttrs padding seed) \<le> stunBody padding"
  by (auto simp: stunAttrs_def Let_def)

lemma split3: "a + b \<le> length p \<Longrightarrow> \<exists>x y z. p = x @ y @ z \<and> length x = a \<and> length y = b"
proof -
  assume "a + b \<le> length p"
  then have "p = take a p @ take b (drop a p) @ drop b (drop a p)" "length (take a p) = a"
    "length (take b (drop a p)) = b" by (simp_all only: append_take_drop_id) auto
  then show ?thesis by blast
qed

lemma writeSTUN_eq:
  fixes seed :: u32
  assumes "20 \<le> padding" "padding \<le> length buf"
  defines "A \<equiv> stunAttrs padding seed"
  shows "writeSTUN buf padding seed =
    Some (stunHeader (length A) seed @ A @ replicate (padding - 20 - length A) 0 @ drop padding buf)"
proof -
  let ?b = "stunBody padding"
  have "20 + length A \<le> length (take padding buf)"
    using stunBody_bound(1) [OF assms(1)] length_stunAttrs [of padding seed] assms by simp
  then obtain x y z where p: "take padding buf = x @ y @ z" "length x = 20" "length y = length A"
    using split3 by blast
  have z: "length z = padding - 20 - length A" using arg_cong [OF p(1), of length] p(2,3) assms by simp
  consider "?b < 4" | "4 \<le> ?b" "?b < 12" | "12 \<le> ?b" "?b < 16" | "16 \<le> ?b" by linarith
  then show ?thesis
  proof cases
    case 1
    then show ?thesis using assms p z
      by (simp add: writeSTUN_def Let_def stunMapped_eq stunFill_eq stunAttrs_def)
  next
    case 2
    then show ?thesis using assms p z
      by (simp add: writeSTUN_def Let_def stunMapped_eq stunFill_eq stunAttrs_def put_at_def)
  next
    case 3
    then show ?thesis using assms p z
      by (simp add: writeSTUN_def Let_def stunMapped_eq stunFill_eq stunAttrs_def put_at_def)
  next
    case 4
    then obtain y1 y2 where y: "y = y1 @ y2" "length y1 = 12" "length y2 = length A - 12"
      using p(3) split3 [of 12 0 y] assms(3) by (auto simp: stunAttrs_def Let_def)
    moreover have "4 \<le> ?b - 12" using 4 by simp
    ultimately show ?thesis using assms p z 4
      by (simp add: writeSTUN_def Let_def stunMapped_eq stunFill_eq stunAttrs_def put_at_def)
  qed
qed

lemma writeSTUN_short:
  assumes "padding < 20" "padding \<le> length buf"
  shows "writeSTUN buf padding seed = Some (take padding (stunHeader 0 seed) @ drop padding buf)"
proof -
  have "stunBody padding = 0" using stunBody_bound(2) [OF assms(1)] .
  then show ?thesis using assms
    by (simp add: writeSTUN_def Let_def stunMapped_eq stunFill_eq)
qed

interpretation stun: filler writeSTUN
proof
  fix padding :: nat and buf :: bytes and seed
  assume a: "padding \<le> length buf"
  show "\<exists>p. writeSTUN buf padding seed = Some (p @ drop padding buf) \<and> length p = padding"
  proof (cases "padding < 20")
    case True
    then show ?thesis using writeSTUN_short a by simp
  next
    case False
    then show ?thesis
      using writeSTUN_eq [OF _ a, of seed] length_stunAttrs [of padding seed] stunBody_bound(1) [of padding]
      by (intro exI [of _ "stunHeader (length (stunAttrs padding seed)) seed @ stunAttrs padding seed @
        replicate (padding - 20 - length (stunAttrs padding seed)) 0"]) simp
  qed
qed

text \<open>
  A reader of STUN attributes (RFC 5389, section 15): 16-bit type, 16-bit length, the value, padded
  to a multiple of four.
\<close>

function parseTLVs :: "bytes \<Rightarrow> (u16 \<times> bytes) list option" where
  "parseTLVs bs =
     (if bs = [] then Some []
      else if length bs < 4 then None
      else
        (let l = unat (get_be16 (drop 2 bs)); pl = (l + 3) div 4 * 4 in
         if length bs < 4 + pl then None
         else map_option (\<lambda>as. (get_be16 bs, take l (drop 4 bs)) # as) (parseTLVs (drop (4 + pl) bs))))"
  by auto
termination by (relation "measure length") auto

declare parseTLVs.simps [simp del]

lemma parseTLVs_Nil [simp]: "parseTLVs [] = Some []"
  by (subst parseTLVs.simps) simp

lemma parseTLVs_TLV:
  assumes "length v mod 4 = 0" "length v < 65536"
  shows "parseTLVs ((put_be16 t @ put_be16 (word_of_nat (length v)) @ v) @ r) =
    map_option (\<lambda>as. (t, v) # as) (parseTLVs r)"
proof -
  have l: "unat (word_of_nat (length v) :: u16) = length v" using assms(2) by (simp add: unat_of_nat)
  have "(length v + 3) div 4 * 4 = length v" using assms(1) by presburger
  then show ?thesis using l by (subst parseTLVs.simps) (simp add: Let_def)
qed

lemma stunSoftware_printable: "b \<in> set (stunSoftware s n) \<Longrightarrow> 0x20 \<le> b \<and> b \<le> 0x7e"
proof (induction n arbitrary: s)
  case (Suc n)
  have "unat (s mod 0x5F) < 0x5F" by (simp add: unat_mod)
  then have "unat (0x20 + ucast (s mod 0x5F) :: u8) = 0x20 + unat (s mod 0x5F)"
    by (simp add: unat_word_ariths unat_ucast8)
  then have "0x20 \<le> (0x20 + ucast (s mod 0x5F) :: u8) \<and> (0x20 + ucast (s mod 0x5F) :: u8) \<le> 0x7e"
    using \<open>unat (s mod 0x5F) < 0x5F\<close> by (simp add: word_le_nat_alt)
  with Suc show ?case by auto
qed simp

lemma stunBody_mod: "stunBody padding mod 4 = 0"
  by (simp add: stunBody_def)

lemma stunAttrs_parse:
  "\<exists>as. parseTLVs (stunAttrs padding seed) = Some as \<and>
     (\<forall>v. (0x8022, v) \<in> set as \<longrightarrow> length v \<le> 124 \<and> (\<forall>b \<in> set v. 0x20 \<le> b \<and> b \<le> 0x7e))"
  "length (stunAttrs padding seed) mod 4 = 0"
proof -
  have m: "parseTLVs (stunMappedTLV s @ r) = map_option (\<lambda>as. (0x0020, drop 4 (stunMappedTLV s)) # as) (parseTLVs r)" for s r
    using parseTLVs_TLV [of "drop 4 (stunMappedTLV s)" "0x0020" r]
    by (simp add: stunMappedTLV_def put_be16_def put_be32_def)
  have w: "parseTLVs (stunSoftwareTLV s n) = Some [(0x8022, stunSoftware s n)]"
    if "n mod 4 = 0" "n \<le> 124" for s n
    using parseTLVs_TLV [of "stunSoftware s n" "0x8022" "[]"] that by (simp add: stunSoftwareTLV_def)
  have q: "(stunBody padding - 16) mod 4 = 0" "(stunBody padding - 4) mod 4 = 0"
    using stunBody_mod [of padding] by presburger+
  then have n: "min 124 (stunBody padding - 16) mod 4 = 0" "min 124 (stunBody padding - 4) mod 4 = 0"
    by (simp_all add: min_def)
  show "\<exists>as. parseTLVs (stunAttrs padding seed) = Some as \<and>
     (\<forall>v. (0x8022, v) \<in> set as \<longrightarrow> length v \<le> 124 \<and> (\<forall>b \<in> set v. 0x20 \<le> b \<and> b \<le> 0x7e))"
    using n by (auto simp: stunAttrs_def Let_def m w dest: stunSoftware_printable)
  show "length (stunAttrs padding seed) mod 4 = 0"
    using n stunBody_mod [of padding] by (auto simp: stunAttrs_def Let_def mod_add_eq [symmetric, of _ "min _ _"])
qed

subsection \<open>DNS\<close>

lemma length_dns [simp]:
  "length (dnsHeader a b) = 12" "length dnsQuestion = 5" "length (dnsOpt c d) = 15"
  "length (dnsNullFixed t e f g) = 28"
  by (simp_all add: dnsHeader_def dnsQuestion_def dnsOpt_def dnsNullFixed_def)

lemma writeDNSOptResponse_eq:
  assumes "32 \<le> length p"
  shows "writeDNSOptResponse p tot txid =
    Some (dnsHeader (fst txid) (snd txid) @ dnsQuestion @
      dnsOpt (clampU16 (int tot - 28)) (clampU16 (int tot - 32)) @ replicate (length p - 32) 0)"
proof -
  have "Option.bind (put_at 0 (dnsHeader (fst txid) (snd txid)) p) (\<lambda>p. Option.bind (put_at 12 dnsQuestion p)
      (\<lambda>p. Option.bind (put_at 17 (dnsOpt r q) p) f)) =
    Option.bind (put_at 0 (dnsHeader (fst txid) (snd txid) @ dnsQuestion @ dnsOpt r q) p) f" for r q and f :: "bytes \<Rightarrow> bytes option"
    by (simp add: put_at_bind)
  then show ?thesis using assms by (simp add: writeDNSOptResponse_def Let_def)
qed

lemma writeDNSMsg_fills:
  assumes "padding \<le> length buf"
  shows "\<exists>p. writeDNSMsg buf padding txid = Some (p @ drop padding buf) \<and> length p = padding"
proof (cases "padding < dnsOptMin")
  case True
  then show ?thesis using assms by (auto simp: writeDNSMsg_def writeDNSNull_def Let_def)
next
  case False
  then have "32 \<le> length (take padding buf)" using assms by (simp add: dnsOptMin_def)
  then show ?thesis
    using False assms by (auto simp: writeDNSMsg_def writeDNSOptResponse_eq dnsOptMin_def)
qed

interpretation dns: filler "\<lambda>buf padding seed. writeDNS buf padding"
  by unfold_locales (auto simp: writeDNS_def Let_def writeDNSMsg_fills)

subsection \<open>SIP\<close>

definition sipInv :: "nat \<Rightarrow> bytes \<times> nat \<Rightarrow> bool" where
  "sipInv len st \<longleftrightarrow> length (fst st) = len \<and> snd st \<le> len"

lemma putLine_inv: "sipInv len st \<Longrightarrow> putLine l st = (b, st') \<Longrightarrow> sipInv len st'"
  by (auto simp: sipInv_def putLine_def Let_def split: if_splits)

lemma putStatus_inv: "sipInv len st \<Longrightarrow> putStatus ss st = (b, st') \<Longrightarrow> sipInv len st'"
proof (induction ss arbitrary: st)
  case (Cons s ss)
  then show ?case by (auto dest: putLine_inv split: prod.splits bool.splits)
qed auto

lemma putAll_inv: "sipInv len st \<Longrightarrow> putAll ls st = (b, st') \<Longrightarrow> sipInv len st'"
proof (induction ls arbitrary: st)
  case (Cons l ls)
  then show ?case by (auto dest: putLine_inv split: prod.splits bool.splits)
qed auto

lemma length_sipClose: "sipInv len st \<Longrightarrow> length (sipClose st) = len"
  by (auto simp: sipInv_def sipClose_def Let_def crlf_def)

lemma length_sipFragment: "length (sipFragment len) = len"
  by (auto simp: sipFragment_def Let_def crlf_def)

interpretation sip: filler writeSIP
proof
  fix padding :: nat and buf :: bytes and seed :: u32
  assume a: "padding \<le> length buf"
  let ?order = "map (\<lambda>k. sipStatus ! ((unat seed mod 3 + k) mod 3)) [0, 1, 2]"
  obtain b st where s: "putStatus ?order (take padding buf, 0) = (b, st)"
    by (cases "putStatus ?order (take padding buf, 0)")
  obtain c st' where m: "putAll (sipMandatory seed) st = (c, st')"
    by (cases "putAll (sipMandatory seed) st")
  have "sipInv padding (take padding buf, 0)" using a by (simp add: sipInv_def)
  then have i: "sipInv padding st" using putStatus_inv s by blast
  have i': "sipInv padding st'" using putAll_inv [OF i m] .
  moreover have "sipInv padding (snd (putLine l st'))" for l
    using putLine_inv [OF i', of l] by (cases "putLine l st'") auto
  ultimately show "\<exists>p. writeSIP buf padding seed = Some (p @ drop padding buf) \<and> length p = padding"
    using a s m length_sipFragment [of padding] length_sipClose
    by (auto simp: writeSIP_def Let_def split: bool.splits option.splits)
qed

subsection \<open>All writers\<close>

interpretation shaped: filler "imitateFill proto" for proto
proof
  fix padding :: nat and buf :: bytes and seed
  assume a: "padding \<le> length buf"
  then have "\<exists>p. buf = p @ drop padding buf \<and> length p = padding"
    by (intro exI [of _ "take padding buf"]) simp
  then show "\<exists>p. imitateFill proto buf padding seed = Some (p @ drop padding buf) \<and> length p = padding"
    using quic.fills [OF a, of seed] dns.fills [OF a] stun.fills [OF a, of seed] sip.fills [OF a, of seed]
    by (cases proto) auto
qed

lemma fillPadding_total:
  assumes "padding \<le> length buf" and "proto = imitateNone \<Longrightarrow> padding \<le> length rnd"
  shows "\<exists>out. fillPadding proto rnd buf padding = Some out \<and> length out = length buf \<and>
    drop padding out = drop padding buf"
proof -
  have "\<exists>out. imitateFillPrefix buf padding proto = Some out \<and> length out = length buf \<and> drop padding out = drop padding buf"
    using shaped.keeps_payload [OF assms(1)] by (simp add: imitateFillPrefix_def)
  then show ?thesis using assms by (simp add: fillPadding_def)
qed

text \<open>
  C22: Padding never touches the packet. For every imitated protocol (and for random padding with
  enough entropy), filling the padding of a datagram cannot panic, keeps its length and leaves the
  bytes behind the padding unchanged.
\<close>

theorem fillPadding_keeps_packet:
  assumes "padding \<le> length buf" and "padding \<le> length rnd"
  shows "\<exists>out. fillPadding proto rnd buf padding = Some out \<and> length out = length buf \<and>
    drop padding out = drop padding buf"
  by (rule fillPadding_total [OF assms])

theorem fillPadding_keeps_packet_witness:
  "\<exists>out. fillPadding imitateSTUN [1, 2] [0, 0, 7, 8] 2 = Some out \<and> drop 2 out = [7, 8]"
  using fillPadding_keeps_packet [of 2 "[0, 0, 7, 8]" "[1, 2]" imitateSTUN] by auto

lemma fillJunk_total:
  "length buf \<le> length rnd \<Longrightarrow>
   \<exists>out. fst (fillJunk proto n rnd buf) = Some out \<and> length out = length buf"
  using quic.whole [of buf] writeDNSMsg_fills [of "length buf" buf] stun.whole [of buf] sip.whole [of buf]
  by (cases proto) (auto simp: fillJunk_def writeDNSWhole_def)

lemma get_be_append: "length a = 2 \<Longrightarrow> get_be16 (a @ b) = get_be16 a" "length c = 4 \<Longrightarrow> get_be32 (c @ b) = get_be32 c"
  by (auto simp: get_be16_def get_be32_def nth_append)



lemma clampU16_nat: "n \<le> 0xFFFF \<Longrightarrow> clampU16 (int n) = word_of_nat n"
  by (simp add: clampU16_def)



lemma length_showNat: "length (showNat n) = decimalDigits n"
proof (induction n rule: showNat.induct)
  case (1 n)
  then show ?case by (subst showNat.simps, subst decimalDigits.simps) auto
qed

lemma clInner_sound:
  "clInner pos tot len sws ds = Some body \<Longrightarrow> len \<le> tot \<Longrightarrow>
   \<exists>d. decimalDigits body = d \<and> pos + 15 + sws + d + 4 \<le> len \<and> body = tot - (pos + 15 + sws + d + 4)"
  by (induction ds) (auto simp: Let_def split: if_splits)



end
