(* ===== verification/QuicInitial.thy ===== *)
theory QuicInitial
  imports Prelude "HOL-Library.Monad_Syntax"
begin

text \<open>
  The fake QUIC Initial of the \<^verbatim>\<open>qinit\<close> tag (\<^verbatim>\<open>device/obf_imitate_quic.go\<close>): variable-length integers,
  the TLS ClientHello, the CRYPTO frame, and the header-protected datagram. AES, AES-GCM and HKDF are
  a parameter; a panic is \<^const>\<open>None\<close>. The theory proves the varint round trip, that the datagram is
  exactly 1200 bytes for every accepted server name, and that a reader who derives the public Initial
  keys recovers the ClientHello with that name.
\<close>

section \<open>Primitives\<close>

record QuicCrypto =
  hkdfExtract :: "bytes \<Rightarrow> bytes \<Rightarrow> bytes"
  hkdfExpand :: "bytes \<Rightarrow> bytes \<Rightarrow> nat \<Rightarrow> bytes"
  gcmSeal :: "bytes \<Rightarrow> bytes \<Rightarrow> bytes \<Rightarrow> bytes \<Rightarrow> bytes"
  gcmOpen :: "bytes \<Rightarrow> bytes \<Rightarrow> bytes \<Rightarrow> bytes \<Rightarrow> bytes option"
  aesBlock :: "bytes \<Rightarrow> bytes \<Rightarrow> bytes"

text \<open>
  What the code relies on: opening a sealed text with the same key, nonce and associated data
  returns the plaintext, sealing adds 16 bytes, a cipher block is 16 bytes and HKDF returns as many
  bytes as asked for.
\<close>

definition quicCryptoOK :: "QuicCrypto \<Rightarrow> bool" where
  "quicCryptoOK C \<longleftrightarrow>
     (\<forall>k n p a. gcmOpen C k n (gcmSeal C k n p a) a = Some p) \<and>
     (\<forall>k n p a. length (gcmSeal C k n p a) = length p + 16) \<and>
     (\<forall>k b. length (aesBlock C k b) = 16) \<and>
     (\<forall>s i n. length (hkdfExpand C s i n) = n)"

definition quicV1InitialSalt :: bytes where
  "quicV1InitialSalt = [0x38, 0x76, 0x2c, 0xf7, 0xf5, 0x59, 0x34, 0xb3, 0x4d, 0x17,
     0x9a, 0xe6, 0xa4, 0xc8, 0x0c, 0xad, 0xcc, 0xbb, 0x7f, 0x0a]"

definition hkdfExpandLabel :: "QuicCrypto \<Rightarrow> bytes \<Rightarrow> string \<Rightarrow> nat \<Rightarrow> bytes option" where
  "hkdfExpandLabel C secret label len =
     (if len > 0xFFFF then None
      else let fullLabel = ''tls13 '' @ label;
               info = put_be16 (word_of_nat len) @ [word_of_nat (length fullLabel)] @ str_bytes fullLabel @ [0x00]
           in Some (hkdfExpand C secret info len))"

definition deriveInitialKeys :: "QuicCrypto \<Rightarrow> bytes \<Rightarrow> (bytes \<times> bytes \<times> bytes) option" where
  "deriveInitialKeys C dcid =
     (let initialSecret = hkdfExtract C dcid quicV1InitialSalt in
      do { clientSecret \<leftarrow> hkdfExpandLabel C initialSecret ''client in'' 32;
           key \<leftarrow> hkdfExpandLabel C clientSecret ''quic key'' 16;
           iv \<leftarrow> hkdfExpandLabel C clientSecret ''quic iv'' 12;
           hp \<leftarrow> hkdfExpandLabel C clientSecret ''quic hp'' 16;
           Some (key, iv, hp) })"

definition headerProtectionMask :: "QuicCrypto \<Rightarrow> bytes \<Rightarrow> bytes \<Rightarrow> bytes option" where
  "headerProtectionMask C hp sample = (if length sample \<noteq> 16 then None else Some (aesBlock C hp sample))"

definition appendQUICVarint :: "bytes \<Rightarrow> u64 \<Rightarrow> bytes" where
  "appendQUICVarint b v =
     (if v \<le> 63 then b @ [ucast v]
      else if v \<le> 16383 then b @ [ucast (0x40 OR drop_bit 8 v), ucast v]
      else if v \<le> 1073741823 then
        b @ [ucast (0x80 OR drop_bit 24 v), ucast (drop_bit 16 v), ucast (drop_bit 8 v), ucast v]
      else b @ [ucast (0xc0 OR drop_bit 56 v), ucast (drop_bit 48 v), ucast (drop_bit 40 v), ucast (drop_bit 32 v),
                ucast (drop_bit 24 v), ucast (drop_bit 16 v), ucast (drop_bit 8 v), ucast v])"

section \<open>The ClientHello\<close>

definition appendU8Vec :: "bytes \<Rightarrow> bytes \<Rightarrow> bytes option" where
  "appendU8Vec b body = (if length body > 0xFF then None else Some (b @ [word_of_nat (length body)] @ body))"

definition appendU16Vec :: "bytes \<Rightarrow> bytes \<Rightarrow> bytes option" where
  "appendU16Vec b body =
     (if length body > 0xFFFF then None else Some (b @ put_be16 (word_of_nat (length body)) @ body))"

definition tlsExtension :: "u16 \<Rightarrow> bytes \<Rightarrow> bytes option" where
  "tlsExtension extType body = appendU16Vec (put_be16 extType) body"

text \<open>\<^verbatim>\<open>io.ReadFull\<close> from a finite supply of random bytes; running dry panics.\<close>

definition readFull :: "nat \<Rightarrow> bytes \<Rightarrow> (bytes \<times> bytes) option" where
  "readFull n r = (if length r < n then None else Some (take n r, drop n r))"

definition buildClientHelloWithRand :: "bytes \<Rightarrow> string \<Rightarrow> bytes \<Rightarrow> bytes option" where
  "buildClientHelloWithRand r sni scid =
     do { let sniList = [0x00] @ put_be16 (word_of_nat (length sni)) @ str_bytes sni in
          do { v \<leftarrow> appendU16Vec [] sniList; e1 \<leftarrow> tlsExtension 0x0000 v;
          v \<leftarrow> appendU8Vec [] [0x03, 0x04]; e2 \<leftarrow> tlsExtension 0x002b v;
          v \<leftarrow> appendU16Vec [] [0x00, 0x1d]; e3 \<leftarrow> tlsExtension 0x000a v;
          (pub, r) \<leftarrow> readFull 32 r;
          v \<leftarrow> appendU16Vec [] pub; v \<leftarrow> appendU16Vec [] ([0x00, 0x1d] @ v); e4 \<leftarrow> tlsExtension 0x0033 v;
          v \<leftarrow> appendU16Vec [] [0x04, 0x03, 0x08, 0x04, 0x04, 0x01]; e5 \<leftarrow> tlsExtension 0x000d v;
          v \<leftarrow> appendU8Vec [] (str_bytes ''h3''); v \<leftarrow> appendU16Vec [] v; e6 \<leftarrow> tlsExtension 0x0010 v;
          e7 \<leftarrow> tlsExtension 0x0039 ([0x0f, word_of_nat (length scid)] @ scid);
          (random, r) \<leftarrow> readFull 32 r;
          let exts = e1 @ e2 @ e3 @ e4 @ e5 @ e6 @ e7; body = [0x03, 0x03] @ random in
          do { body \<leftarrow> appendU8Vec body [];
          body \<leftarrow> appendU16Vec body [0x13, 0x01, 0x13, 0x02, 0x13, 0x03];
          body \<leftarrow> appendU8Vec body [0x00];
          body \<leftarrow> appendU16Vec body exts;
          let n = length body in
          Some ([0x01, word_of_nat (n div 2 ^ 16), word_of_nat (n div 2 ^ 8), word_of_nat n] @ body) } } }"

definition buildCryptoFrame :: "bytes \<Rightarrow> bytes" where
  "buildCryptoFrame body =
     (let b = appendQUICVarint [0x06] 0; b = appendQUICVarint b (word_of_nat (length body)) in b @ body)"

section \<open>The datagram\<close>

definition qinitDatagramLen :: nat where "qinitDatagramLen = 1200"

definition xorAt :: "nat \<Rightarrow> bytes \<Rightarrow> bytes \<Rightarrow> bytes" where
  "xorAt off m b = take off b @ map2 (XOR) (take (length m) (drop off b)) m @ drop (off + length m) b"

definition buildQUICInitialWithRand :: "QuicCrypto \<Rightarrow> bytes \<Rightarrow> string \<Rightarrow> nat \<Rightarrow> bytes option" where
  "buildQUICInitialWithRand C r sni datagramLen =
     do { (dcid, r) \<leftarrow> readFull 8 r;
          (scid, r) \<leftarrow> readFull 8 r;
          (pn, r) \<leftarrow> readFull 4 r;
          (key, iv, hp) \<leftarrow> deriveInitialKeys C dcid;
          hello \<leftarrow> buildClientHelloWithRand r sni scid;
          let crypto = buildCryptoFrame hello;
              headerLen = 1 + 4 + 1 + length dcid + 1 + length scid + 1 + 2 + 4 in
          if datagramLen < headerLen + 16 then None
          else
            (let payloadLen = datagramLen - headerLen - 16;
                 payload = take payloadLen crypto @ replicate (payloadLen - length crypto) 0x00;
                 lengthField = 4 + payloadLen + 16 in
             do { hdr \<leftarrow> appendU8Vec ([0xC3] @ put_be32 1) dcid;
                  hdr \<leftarrow> appendU8Vec hdr scid;
                  let hdr = appendQUICVarint (hdr @ [0x00]) (word_of_nat lengthField);
                      pnOffset = length hdr;
                      hdr = hdr @ pn;
                      nonce = xorAt 8 pn iv;
                      pkt = hdr @ gcmSeal C key nonce payload hdr in
                  do { mask \<leftarrow> headerProtectionMask C hp (subslice (pnOffset + 4) (pnOffset + 4 + 16) pkt);
                       let pkt = xorAt 0 [mask ! 0 AND 0x0f] pkt in
                       Some (xorAt pnOffset (take 4 (drop 1 mask)) pkt) } }) }"

section \<open>The tag\<close>

record qinitObf =
  qiSni :: string
  qiLength :: nat

datatype qinitError = QinitMissingName | QinitNameTooLong

definition newQInitObf :: "string \<Rightarrow> qinitError + qinitObf" where
  "newQInitObf val =
     (let sni = trimSpace val in
      if sni = [] then Inl QinitMissingName
      else if length sni > 255 then Inl QinitNameTooLong
      else Inr \<lparr>qiSni = sni, qiLength = qinitDatagramLen\<rparr>)"

definition qinitObfuscate :: "QuicCrypto \<Rightarrow> bytes \<Rightarrow> qinitObf \<Rightarrow> bytes \<Rightarrow> bytes option" where
  "qinitObfuscate C r q dst =
     (if qiLength q > length dst then None
      else do { b \<leftarrow> buildQUICInitialWithRand C r (qiSni q) (qiLength q);
                Some (copy_at 0 (take (qiLength q) b) dst) })"

section \<open>Reading it back\<close>

text \<open>A reader of QUIC variable-length integers (RFC 9000, section 16).\<close>

definition readVarint :: "bytes \<Rightarrow> (u64 \<times> bytes) option" where
  "readVarint b =
     (if b = [] then None
      else let l = 2 ^ unat (drop_bit 6 (b ! 0)) in
        if length b < l then None
        else Some (foldl (\<lambda>acc x. push_bit 8 acc OR ucast x) (ucast (b ! 0 AND 0x3f)) (take (l - 1) (drop 1 b)), drop l b))"

lemma small_bits:
  fixes v :: u64
  assumes "unat v < 2 ^ n" "n \<le> i"
  shows "\<not> bit v i"
proof -
  have "unat v < 2 ^ i" using assms by (meson less_le_trans one_le_numeral power_increasing)
  then have "\<not> bit (unat v) i" by (simp add: bit_iff_odd)
  then show ?thesis by (simp add: bit_unsigned_iff)
qed

lemma join_step:
  "push_bit 8 (drop_bit (k + 8) v) OR ucast (ucast (drop_bit k v) :: u8) = drop_bit k v" for v :: u64
  by (rule bit_eqI) (auto simp: bit_simps dest: bit_imp_le_length)

lemma byte_cases: "i < 8 \<Longrightarrow> i \<in> {0, 1, 2, 3, 4, 5, 6, 7 :: nat}"
  by auto

lemma varint_head:
  fixes x :: u64
  assumes "unat x < 64" "c \<in> {0, 0x40, 0x80, 0xc0 :: u64}"
  shows "ucast ((ucast (c OR x) :: u8) AND 0x3f) = x"
    "drop_bit 6 (ucast (c OR x) :: u8) = ucast (drop_bit 6 c)"
proof -
  have n: "\<not> bit x i" if "6 \<le> i" for i using small_bits [of x 6 i] assms(1) that by simp
  show "ucast ((ucast (c OR x) :: u8) AND 0x3f) = x"
  proof (rule bit_eqI)
    fix i
    show "bit (ucast ((ucast (c OR x) :: u8) AND 0x3f) :: u64) i = bit x i"
    proof (cases "i < 8")
      case True
      then show ?thesis using assms(2) n byte_cases [OF True] by (auto simp: bit_simps)
    next
      case False
      then show ?thesis using n [of i] by (auto simp: bit_simps)
    qed
  qed
  show "drop_bit 6 (ucast (c OR x) :: u8) = ucast (drop_bit 6 c)"
  proof (rule bit_eqI)
    fix i
    show "bit (drop_bit 6 (ucast (c OR x) :: u8)) i = bit (ucast (drop_bit 6 c) :: u8) i"
    proof (cases "i < 8")
      case True
      then show ?thesis using assms(2) n byte_cases [OF True] by (auto simp: bit_simps)
    next
      case False
      then show ?thesis using n by (auto simp: bit_simps)
    qed
  qed
qed

lemma unat_drop_bit: "unat (drop_bit k v) = unat v div 2 ^ k" for v :: "'a::len word"
  unfolding unat_drop_bit_eq by (rule drop_bit_eq_div)

lemma readVarint_append:
  assumes "v < 2 ^ 62"
  shows "readVarint (appendQUICVarint [] v @ r) = Some (v, r)"
proof -
  have u: "unat v < 2 ^ 62" using assms by (simp add: word_less_nat_alt)
  consider "v \<le> 63" | "\<not> v \<le> 63" "v \<le> 16383" | "\<not> v \<le> 16383" "v \<le> 1073741823" | "\<not> v \<le> 1073741823"
    by fastforce
  then show ?thesis
  proof cases
    case 1
    then have "unat v < 64" by (simp add: word_le_nat_alt)
    then show ?thesis using 1 varint_head [of v 0] by (simp add: appendQUICVarint_def readVarint_def)
  next
    case 2
    then have "unat (drop_bit 8 v) < 64" by (simp add: word_le_nat_alt unat_drop_bit)
    then show ?thesis
      using 2 varint_head [of "drop_bit 8 v" "0x40"] join_step [of 0 v]
      by (simp add: appendQUICVarint_def readVarint_def)
  next
    case 3
    then have "unat (drop_bit 24 v) < 64" by (simp add: word_le_nat_alt unat_drop_bit)
    moreover have "\<not> v \<le> 63" using 3 by (simp add: word_le_nat_alt)
    ultimately show ?thesis
      using 3 varint_head [of "drop_bit 24 v" "0x80"] join_step [of 16 v] join_step [of 8 v] join_step [of 0 v]
      by (simp add: appendQUICVarint_def readVarint_def)
  next
    case 4
    have "unat (drop_bit 56 v) < 64" using u by (simp add: unat_drop_bit)
    moreover have "\<not> v \<le> 63" "\<not> v \<le> 16383" using 4 by (simp_all add: word_le_nat_alt)
    ultimately show ?thesis
      using 4 varint_head [of "drop_bit 56 v" "0xc0"] join_step [of 48 v] join_step [of 40 v] join_step [of 32 v]
        join_step [of 24 v] join_step [of 16 v] join_step [of 8 v] join_step [of 0 v]
      by (simp add: appendQUICVarint_def readVarint_def)
  qed
qed

text \<open>
  C32: QUIC variable-length integers round-trip: whatever follows, reading an appended value below
  \<open>2^62\<close> returns it and the bytes behind it.
\<close>

theorem quicVarint_roundtrip:
  "v < 2 ^ 62 \<Longrightarrow> readVarint (appendQUICVarint [] v @ r) = Some (v, r)"
  by (rule readVarint_append)

theorem quicVarint_roundtrip_witness: "readVarint (appendQUICVarint [] 1174 @ [9]) = Some (1174, [9])"
  by (rule quicVarint_roundtrip) simp

section \<open>The contents\<close>

definition sniExtension :: "string \<Rightarrow> bytes" where
  "sniExtension sni = put_be16 0x0000 @ put_be16 (word_of_nat (length sni + 5)) @ put_be16 (word_of_nat (length sni + 3)) @
     [0x00] @ put_be16 (word_of_nat (length sni)) @ str_bytes sni"

text \<open>The ClientHello is a 51-byte preamble, the server name extension and the fixed extensions.\<close>

definition helloPre :: "bytes \<Rightarrow> string \<Rightarrow> bytes" where
  "helloPre r sni = [0x01, 0x00, word_of_nat ((148 + length sni) div 256), word_of_nat (148 + length sni), 0x03, 0x03] @
     take 32 (drop 32 r) @ [0x00] @ put_be16 6 @ [0x13, 0x01, 0x13, 0x02, 0x13, 0x03] @ [0x01, 0x00] @
     put_be16 (word_of_nat (101 + length sni))"

definition helloPost :: "bytes \<Rightarrow> bytes \<Rightarrow> bytes" where
  "helloPost r scid =
     put_be16 0x002b @ put_be16 3 @ [2, 0x03, 0x04] @ put_be16 0x000a @ put_be16 4 @ put_be16 2 @ [0x00, 0x1d] @
     put_be16 0x0033 @ put_be16 38 @ put_be16 36 @ [0x00, 0x1d] @ put_be16 32 @ take 32 r @
     put_be16 0x000d @ put_be16 8 @ put_be16 6 @ [0x04, 0x03, 0x08, 0x04, 0x04, 0x01] @
     put_be16 0x0010 @ put_be16 5 @ put_be16 3 @ [2] @ str_bytes ''h3'' @
     put_be16 0x0039 @ put_be16 10 @ [0x0f, 8] @ scid"

lemma length_hello [simp]:
  "64 \<le> length r \<Longrightarrow> length (helloPre r sni) = 51"
  "64 \<le> length r \<Longrightarrow> length scid = 8 \<Longrightarrow> length (helloPost r scid) = 92"
  "length (sniExtension sni) = 9 + length sni"
  by (simp_all add: helloPre_def helloPost_def sniExtension_def)

lemma buildClientHello_shape:
  assumes "length sni \<le> 255" "length scid = 8" "64 \<le> length r"
  shows "buildClientHelloWithRand r sni scid = Some (helloPre r sni @ sniExtension sni @ helloPost r scid)"
proof -
  have "\<not> length r - 32 < 32" using assms(3) by simp
  then show ?thesis using assms
    by (simp add: buildClientHelloWithRand_def appendU8Vec_def appendU16Vec_def tlsExtension_def readFull_def
        sniExtension_def helloPre_def helloPost_def Let_def add.commute)
qed

text \<open>
  The reader: remove the header protection with the mask computed from the ciphertext sample, open
  the payload, take the CRYPTO frame, and read the server name at its place in the ClientHello.
\<close>

definition readInitial :: "QuicCrypto \<Rightarrow> bytes \<Rightarrow> bytes option" where
  "readInitial C pkt =
     do { (key, iv, hp) \<leftarrow> deriveInitialKeys C (subslice 6 14 pkt);
          mask \<leftarrow> headerProtectionMask C hp (subslice 30 46 pkt);
          let p = xorAt 26 (take 4 (drop 1 mask)) (xorAt 0 [mask ! 0 AND 0x0f] pkt) in
          gcmOpen C key (xorAt 8 (subslice 26 30 p) iv) (drop 30 p) (take 30 p) }"

definition readCrypto :: "bytes \<Rightarrow> bytes option" where
  "readCrypto payload =
     (if payload = [] \<or> payload ! 0 \<noteq> 0x06 then None
      else do { (off, r) \<leftarrow> readVarint (drop 1 payload);
                (n, r) \<leftarrow> readVarint r;
                if off = 0 \<and> unat n \<le> length r then Some (take (unat n) r) else None })"

definition readSNI :: "bytes \<Rightarrow> bytes option" where
  "readSNI hello =
     (let ext = drop 51 hello in
      if get_be16 ext = 0x0000 then Some (take (unat (get_be16 (drop 7 ext))) (drop 9 ext)) else None)"

lemma xorAt_append:
  "length b = length m \<Longrightarrow> n = length a \<Longrightarrow> xorAt n m (a @ b @ c) = a @ map2 (XOR) b m @ c"
  by (simp add: xorAt_def)

lemma xor_xor: "length a = length b \<Longrightarrow> map2 (XOR) (map2 (XOR) a b) b = a" for a b :: bytes
proof (induction a b rule: list_induct2)
  case (Cons x xs y ys)
  have "(x XOR y) XOR y = x" by (simp add: xor.assoc)
  then show ?case using Cons by simp
qed simp

lemma deriveInitialKeys_total:
  "quicCryptoOK C \<Longrightarrow> \<exists>key iv hp. deriveInitialKeys C dcid = Some (key, iv, hp) \<and> length iv = 12"
  by (simp add: deriveInitialKeys_def hkdfExpandLabel_def Let_def quicCryptoOK_def)

lemma length_appendQUICVarint: "length (appendQUICVarint b v) \<le> length b + 8"
  by (simp add: appendQUICVarint_def)

lemma length_buildCryptoFrame: "length (buildCryptoFrame d) \<le> length d + 17"
  using length_appendQUICVarint [of "[0x06]" 0]
    length_appendQUICVarint [of "appendQUICVarint [0x06] 0" "word_of_nat (length d)"]
  by (simp add: buildCryptoFrame_def Let_def)

lemma varint_two: "appendQUICVarint b 1174 = b @ [0x44, 0x96]"
  by (simp add: appendQUICVarint_def)

text \<open>The datagram for the fixed length of 1200 bytes, before and after header protection.\<close>

lemma buildQUICInitial_shape:
  assumes C: "quicCryptoOK C" and n: "length sni \<le> 255" and r: "84 \<le> length r"
  defines "hello \<equiv> helloPre (drop 20 r) sni @ sniExtension sni @ helloPost (drop 20 r) (take 8 (drop 8 r))"
  shows "\<exists>key iv hp mask mid payload sealed.
    deriveInitialKeys C (take 8 r) = Some (key, iv, hp) \<and> length mid = 25 \<and> subslice 5 13 mid = take 8 r \<and>
    payload = buildCryptoFrame hello @ replicate (1154 - length (buildCryptoFrame hello)) 0 \<and>
    sealed = gcmSeal C key (xorAt 8 (take 4 (drop 16 r)) iv) payload (0xC3 # mid @ take 4 (drop 16 r)) \<and>
    length sealed = 1170 \<and> length mask = 16 \<and> mask = aesBlock C hp (take 16 sealed) \<and>
    buildQUICInitialWithRand C r sni 1200 = Some ((0xC3 XOR (mask ! 0 AND 0x0f)) # mid @
      map2 (XOR) (take 4 (drop 16 r)) (take 4 (drop 1 mask)) @ sealed)"
proof -
  let ?dcid = "take 8 r" and ?scid = "take 8 (drop 8 r)" and ?pn = "take 4 (drop 16 r)"
  define mid where "mid = put_be32 1 @ [8] @ ?dcid @ [8] @ ?scid @ [0] @ [0x44, 0x96]"
  obtain key iv hp where k: "deriveInitialKeys C ?dcid = Some (key, iv, hp)" "length iv = 12"
    using deriveInitialKeys_total [OF C] by blast
  have h: "buildClientHelloWithRand (drop 20 r) sni ?scid = Some hello"
    using buildClientHello_shape [OF n, of ?scid "drop 20 r"] r by (simp add: hello_def)
  have lf: "length (buildCryptoFrame hello) \<le> 1154"
    using length_buildCryptoFrame [of hello] n r by (simp add: hello_def)
  define payload where "payload = buildCryptoFrame hello @ replicate (1154 - length (buildCryptoFrame hello)) 0"
  define sealed where "sealed = gcmSeal C key (xorAt 8 ?pn iv) payload (0xC3 # mid @ ?pn)"
  define mk where "mk = aesBlock C hp (take 16 sealed)"
  have ls: "length sealed = 1170" "length mk = 16" "length mid = 25" "length ?pn = 4" "subslice 5 13 mid = ?dcid"
    using C lf r by (simp_all add: quicCryptoOK_def sealed_def mk_def payload_def mid_def subslice_def)
  have sl: "subslice 30 46 (0xC3 # mid @ ?pn @ sealed) = take 16 sealed" using ls by (simp add: subslice_def)
  have rr: "\<not> length r - 16 < 4" "\<not> length r - 8 < 8" using r by simp_all
  have "buildQUICInitialWithRand C r sni 1200 =
      Some (xorAt 26 (take 4 (drop 1 mk)) (xorAt 0 [mk ! 0 AND 0x0f] (0xC3 # mid @ ?pn @ sealed)))"
    using k h r lf sl ls rr
    by (simp add: buildQUICInitialWithRand_def readFull_def Let_def appendU8Vec_def varint_two
        headerProtectionMask_def mk_def sealed_def payload_def mid_def)
  also have "xorAt 0 [mk ! 0 AND 0x0f] (0xC3 # mid @ ?pn @ sealed) = (0xC3 XOR (mk ! 0 AND 0x0f)) # mid @ ?pn @ sealed"
    by (simp add: xorAt_def)
  also have "xorAt 26 (take 4 (drop 1 mk)) \<dots> =
      (0xC3 XOR (mk ! 0 AND 0x0f)) # mid @ map2 (XOR) ?pn (take 4 (drop 1 mk)) @ sealed"
    using xorAt_append [of ?pn "take 4 (drop 1 mk)" 26 "(0xC3 XOR (mk ! 0 AND 0x0f)) # mid" sealed] ls by simp
  finally show ?thesis using k ls payload_def sealed_def mk_def by blast
qed

lemma readCrypto_frame:
  assumes "length d < 2 ^ 62"
  shows "readCrypto (buildCryptoFrame d @ z) = Some d"
proof -
  have f: "buildCryptoFrame d = 0x06 # appendQUICVarint [] 0 @ appendQUICVarint [] (word_of_nat (length d)) @ d"
    by (simp add: buildCryptoFrame_def appendQUICVarint_def Let_def)
  have u: "unat (word_of_nat (length d) :: u64) = length d" using assms by (simp add: unat_of_nat)
  then have "(word_of_nat (length d) :: u64) < 2 ^ 62" using assms by (simp add: word_less_nat_alt)
  then have "readVarint (appendQUICVarint [] (word_of_nat (length d)) @ d @ z) = Some (word_of_nat (length d), d @ z)"
    by (rule readVarint_append)
  then show ?thesis using u readVarint_append [of 0 "appendQUICVarint [] (word_of_nat (length d)) @ d @ z"]
    by (simp add: readCrypto_def f)
qed

lemma readInitial_protected:
  assumes C: "quicCryptoOK C" and k: "deriveInitialKeys C dcid = Some (key, iv, hp)"
    and mid: "length mid = 25" "subslice 5 13 mid = dcid" and pn: "length pn = 4"
    and sl: "sealed = gcmSeal C key (xorAt 8 pn iv) payload (0xC3 # mid @ pn)" "length sealed = 1170"
    and m: "length mk = 16" "mk = aesBlock C hp (take 16 sealed)"
  shows "readInitial C ((0xC3 XOR (mk ! 0 AND 0x0f)) # mid @ map2 (XOR) pn (take 4 (drop 1 mk)) @ sealed) = Some payload"
    (is "readInitial C ?pkt = _")
proof -
  let ?m = "take 4 (drop 1 mk)" and ?y = "mk ! 0 AND 0x0f"
  have "subslice 6 14 ?pkt = dcid" using mid by (simp add: subslice_def)
  moreover have "subslice 30 46 ?pkt = take 16 sealed" using mid pn m(1) by (simp add: subslice_def)
  moreover have "headerProtectionMask C hp (take 16 sealed) = Some mk"
    using sl(2) m(2) by (simp add: headerProtectionMask_def)
  moreover have "xorAt 0 [?y] ?pkt = 0xC3 # mid @ map2 (XOR) pn ?m @ sealed"
    by (simp add: xorAt_def xor.assoc)
  moreover have "xorAt 26 ?m (0xC3 # mid @ map2 (XOR) pn ?m @ sealed) = 0xC3 # mid @ pn @ sealed"
    using xorAt_append [of "map2 (XOR) pn ?m" ?m 26 "0xC3 # mid" sealed] xor_xor [of pn ?m] mid pn m(1) by simp
  moreover have "subslice 26 30 (0xC3 # mid @ pn @ sealed) = pn" "drop 30 (0xC3 # mid @ pn @ sealed) = sealed"
    "take 30 (0xC3 # mid @ pn @ sealed) = 0xC3 # mid @ pn" using mid pn by (simp_all add: subslice_def)
  ultimately show ?thesis using k C sl(1) by (simp add: readInitial_def quicCryptoOK_def)
qed

text \<open>
  C15: For every server name the tag accepts and enough entropy, the generated datagram has exactly
  1200 bytes, building it cannot panic, and a reader that only knows the public Initial salt recovers
  from it a CRYPTO frame with a ClientHello that carries exactly that server name.
\<close>

theorem qinit_readable:
  assumes "quicCryptoOK C" and "newQInitObf val = Inr q" and "84 \<le> length r"
  shows "\<exists>pkt payload hello. buildQUICInitialWithRand C r (qiSni q) (qiLength q) = Some pkt \<and>
    length pkt = qinitDatagramLen \<and> readInitial C pkt = Some payload \<and> readCrypto payload = Some hello \<and>
    readSNI hello = Some (str_bytes (qiSni q))"
proof -
  let ?sni = "qiSni q" and ?pn = "take 4 (drop 16 r)"
  have q: "length ?sni \<le> 255" "qiLength q = 1200"
    using assms(2) by (auto simp: newQInitObf_def Let_def qinitDatagramLen_def split: if_splits)
  let ?hello = "helloPre (drop 20 r) ?sni @ sniExtension ?sni @ helloPost (drop 20 r) (take 8 (drop 8 r))"
  obtain key iv hp mask mid payload sealed where
    s: "deriveInitialKeys C (take 8 r) = Some (key, iv, hp)" "length mid = 25" "subslice 5 13 mid = take 8 r"
      "payload = buildCryptoFrame ?hello @ replicate (1154 - length (buildCryptoFrame ?hello)) 0"
      "sealed = gcmSeal C key (xorAt 8 ?pn iv) payload (0xC3 # mid @ ?pn)"
      "length sealed = 1170" "length mask = 16" "mask = aesBlock C hp (take 16 sealed)" and
    b: "buildQUICInitialWithRand C r ?sni 1200 = Some ((0xC3 XOR (mask ! 0 AND 0x0f)) # mid @
      map2 (XOR) ?pn (take 4 (drop 1 mask)) @ sealed)" (is "_ = Some ?pkt")
    using buildQUICInitial_shape [OF assms(1) q(1) assms(3)] by blast
  let ?m = "take 4 (drop 1 mask)"
  have lpn: "length ?pn = 4" "length ?m = 4" using assms(3) s(7) by simp_all
  have "readInitial C ?pkt = Some payload" by (rule readInitial_protected [OF assms(1) s(1-3) lpn(1) s(5-8)])
  moreover have "readCrypto payload = Some ?hello"
    unfolding s(4) by (rule readCrypto_frame) (use q assms(3) in simp)
  moreover have "readSNI ?hello = Some (str_bytes ?sni)"
    using q(1) assms(3) by (simp add: readSNI_def sniExtension_def unat_of_nat)
  moreover have "length ?pkt = 1200" using s(2,6) lpn by simp
  ultimately show ?thesis using b q(2) by (auto simp: qinitDatagramLen_def)
qed

text \<open>A toy instance of the primitives that satisfies what is assumed of them.\<close>

definition toyQuic :: QuicCrypto where
  "toyQuic = \<lparr>hkdfExtract = (\<lambda>s salt. s), hkdfExpand = (\<lambda>s i n. replicate n 0),
     gcmSeal = (\<lambda>k n p a. p @ replicate 16 0), gcmOpen = (\<lambda>k n c a. Some (take (length c - 16) c)),
     aesBlock = (\<lambda>k b. replicate 16 0)\<rparr>"

theorem qinit_readable_witness:
  "\<exists>pkt payload hello. buildQUICInitialWithRand toyQuic (replicate 84 1) ''example.com'' 1200 = Some pkt \<and>
     readInitial toyQuic pkt = Some payload \<and> readCrypto payload = Some hello \<and>
     readSNI hello = Some (str_bytes ''example.com'')"
proof -
  have "quicCryptoOK toyQuic" by (simp add: quicCryptoOK_def toyQuic_def)
  moreover have "newQInitObf ''example.com'' = Inr \<lparr>qiSni = ''example.com'', qiLength = 1200\<rparr>" by code_simp
  ultimately show ?thesis using qinit_readable [of toyQuic "''example.com''" _ "replicate 84 1"] by fastforce
qed

end
