(* ===== verification/Obf.thy ===== *)
theory Obf
  imports Imitate QuicInitial
begin

text \<open>
  I-packets (\<^verbatim>\<open>device/obf.go\<close> and the \<^verbatim>\<open>obf_*.go\<close> files): the tag language, the obfuscators it
  builds, and chains of them. An obfuscator writes into the slice it is given; a slice or index out
  of range is \<^const>\<open>None\<close>. The theory proves that a chain fills exactly the length it announces, that
  data tags round-trip, and that a tag with a negative length is accepted and panics when used.
\<close>

section \<open>Obfuscators\<close>

text \<open>One constructor per implementation of the \<^verbatim>\<open>obf\<close> interface, with its fields.\<close>

datatype obf =
    bytesObf bytes
  | timestampObf
  | randObf int
  | randCharObf int
  | randDigitObf int
  | dataObf
  | dataStringObf
  | dataSizeObf int
  | imitateObf int imitateProto u64
  | qinit qinitObf

text \<open>\<^verbatim>\<open>base64.RawStdEncoding\<close>.\<close>

definition b64len :: "nat \<Rightarrow> nat" where "b64len n = n div 3 * 4 + (n mod 3 * 8 + 5) div 6"
definition b64declen :: "nat \<Rightarrow> nat" where "b64declen n = n div 4 * 3 + n mod 4 * 6 div 8"

definition b64chars :: string where
  "b64chars = ''ABCDEFGHIJKLMNOPQRSTUVWXYZabcdefghijklmnopqrstuvwxyz0123456789+/''"

definition b64char :: "nat \<Rightarrow> u8" where "b64char n = of_char (b64chars ! n)"

fun b64enc :: "bytes \<Rightarrow> bytes" where
  "b64enc (a # b # c # r) =
     (let n = unat a * 65536 + unat b * 256 + unat c in
      b64char (n div 262144) # b64char (n div 4096 mod 64) # b64char (n div 64 mod 64) # b64char (n mod 64) # b64enc r)"
| "b64enc [a, b] =
     (let n = unat a * 65536 + unat b * 256 in
      [b64char (n div 262144), b64char (n div 4096 mod 64), b64char (n div 64 mod 64)])"
| "b64enc [a] = (let n = unat a * 65536 in [b64char (n div 262144), b64char (n div 4096 mod 64)])"
| "b64enc [] = []"

definition b64val :: "u8 \<Rightarrow> nat option" where
  "b64val x =
     (let n = unat x in
      if 65 \<le> n \<and> n \<le> 90 then Some (n - 65)
      else if 97 \<le> n \<and> n \<le> 122 then Some (n - 71)
      else if 48 \<le> n \<and> n \<le> 57 then Some (n + 4)
      else if n = 43 then Some 62
      else if n = 47 then Some 63
      else None)"

text \<open>Decoding stops at the first invalid character; the code ignores the error.\<close>

fun b64dec :: "bytes \<Rightarrow> bytes" where
  "b64dec (a # b # c # d # r) =
     (case (b64val a, b64val b, b64val c, b64val d) of
        (Some w, Some x, Some y, Some z) \<Rightarrow>
          (let n = w * 262144 + x * 4096 + y * 64 + z in
           word_of_nat (n div 65536) # word_of_nat (n div 256 mod 256) # word_of_nat (n mod 256) # b64dec r)
      | _ \<Rightarrow> [])"
| "b64dec [a, b, c] =
     (case (b64val a, b64val b, b64val c) of
        (Some w, Some x, Some y) \<Rightarrow>
          (let n = w * 262144 + x * 4096 + y * 64 in [word_of_nat (n div 65536), word_of_nat (n div 256 mod 256)])
      | _ \<Rightarrow> [])"
| "b64dec [a, b] =
     (case (b64val a, b64val b) of
        (Some w, Some x) \<Rightarrow> (let n = w * 262144 + x * 4096 in [word_of_nat (n div 65536)])
      | _ \<Rightarrow> [])"
| "b64dec _ = []"

fun ObfuscatedLen :: "obf \<Rightarrow> nat \<Rightarrow> int" where
  "ObfuscatedLen (bytesObf d) n = int (length d)"
| "ObfuscatedLen timestampObf n = 4"
| "ObfuscatedLen (randObf l) n = l"
| "ObfuscatedLen (randCharObf l) n = l"
| "ObfuscatedLen (randDigitObf l) n = l"
| "ObfuscatedLen dataObf n = int n"
| "ObfuscatedLen dataStringObf n = int (b64len n)"
| "ObfuscatedLen (dataSizeObf l) n = l"
| "ObfuscatedLen (imitateObf l p c) n = l"
| "ObfuscatedLen (qinit q) n = int (qiLength q)"

text \<open>Go's division truncates towards zero, so the decoded length is odd in its argument.\<close>

fun DeobfuscatedLen :: "obf \<Rightarrow> int \<Rightarrow> int" where
  "DeobfuscatedLen dataObf n = n"
| "DeobfuscatedLen dataStringObf n =
     (if n \<ge> 0 then int (b64declen (nat n)) else - int (b64declen (nat (- n))))"
| "DeobfuscatedLen _ n = 0"

definition chars52 :: string where
  "chars52 = ''abcdefghijklmnopqrstuvwxyzABCDEFGHIJKLMNOPQRSTUVWXYZ''"

definition digits10 :: string where "digits10 = ''0123456789''"

text \<open>\<^verbatim>\<open>rand.Read(dst[:l])\<close>, each byte mapped through a table.\<close>

definition randInto :: "(u8 \<Rightarrow> u8) \<Rightarrow> int \<Rightarrow> bytes \<Rightarrow> tape \<Rightarrow> (bytes \<times> tape) option" where
  "randInto f l dst t =
     (if l < 0 then None
      else case drawBytes (nat l) t of (b, t') \<Rightarrow> map_option (\<lambda>d. (d, t')) (put_at 0 (map f b) dst))"

text \<open>The big-endian length written from the last byte back; the shift is arithmetic.\<close>

fun sizeBytes :: "nat \<Rightarrow> nat \<Rightarrow> bytes" where
  "sizeBytes 0 n = []"
| "sizeBytes (Suc l) n = sizeBytes l (n div 256) @ [word_of_nat (n mod 256)]"

text \<open>
  \<^verbatim>\<open>Obfuscate(dst, src)\<close>: the destination after the call, the obfuscator (whose packet counter may
  have advanced) and the rest of the entropy. \<open>now\<close> is the Unix time in seconds.
\<close>

fun Obfuscate ::
  "QuicCrypto \<Rightarrow> int \<Rightarrow> obf \<Rightarrow> bytes \<Rightarrow> bytes \<Rightarrow> tape \<Rightarrow> (bytes \<times> obf \<times> tape) option"
where
  "Obfuscate C now (bytesObf d) dst src t = Some (copy_at 0 d dst, bytesObf d, t)"
| "Obfuscate C now timestampObf dst src t =
     map_option (\<lambda>d. (d, timestampObf, t)) (put_at 0 (put_be32 (word_of_int now)) dst)"
| "Obfuscate C now (randObf l) dst src t =
     map_option (\<lambda>(d, t'). (d, randObf l, t')) (randInto (\<lambda>b. b) l dst t)"
| "Obfuscate C now (randCharObf l) dst src t =
     map_option (\<lambda>(d, t'). (d, randCharObf l, t')) (randInto (\<lambda>b. of_char (chars52 ! (unat b mod 52))) l dst t)"
| "Obfuscate C now (randDigitObf l) dst src t =
     map_option (\<lambda>(d, t'). (d, randDigitObf l, t')) (randInto (\<lambda>b. of_char (digits10 ! (unat b mod 10))) l dst t)"
| "Obfuscate C now dataObf dst src t = Some (copy_at 0 src dst, dataObf, t)"
| "Obfuscate C now dataStringObf dst src t =
     map_option (\<lambda>d. (d, dataStringObf, t)) (put_at 0 (b64enc src) dst)"
| "Obfuscate C now (dataSizeObf l) dst src t =
     (if l < 0 then Some (dst, dataSizeObf l, t)
      else map_option (\<lambda>d. (d, dataSizeObf l, t)) (put_at 0 (sizeBytes (nat l) (length src)) dst))"
| "Obfuscate C now (imitateObf l p c) dst src t =
     (if l < 0 \<or> nat l > length dst then None
      else map_option (\<lambda>d. (d @ drop (nat l) dst, imitateObf l p (c + 1), t))
             (imitateFillWhole (take (nat l) dst) (imitateJunkSeed (c + 1)) p))"
| "Obfuscate C now (qinit q) dst src t =
     (case drawBytes 84 t of (r, t') \<Rightarrow> map_option (\<lambda>d. (d, qinit q, t')) (qinitObfuscate C r q dst))"

text \<open>\<^verbatim>\<open>unicode.IsLetter\<close> and \<^verbatim>\<open>unicode.IsDigit\<close> on the runes a byte can denote.\<close>

definition isLetter :: "u8 \<Rightarrow> bool" where
  "isLetter b \<longleftrightarrow>
     (let n = unat b in (65 \<le> n \<and> n \<le> 90) \<or> (97 \<le> n \<and> n \<le> 122) \<or> n = 0xAA \<or> n = 0xB5 \<or> n = 0xBA \<or>
        (0xC0 \<le> n \<and> n \<noteq> 0xD7 \<and> n \<noteq> 0xF7))"

definition isDigit :: "u8 \<Rightarrow> bool" where
  "isDigit b \<longleftrightarrow> 48 \<le> unat b \<and> unat b \<le> 57"

definition prefixAll :: "(u8 \<Rightarrow> bool) \<Rightarrow> int \<Rightarrow> bytes \<Rightarrow> bool option" where
  "prefixAll P l src = (if l < 0 \<or> nat l > length src then None else Some (list_all P (take (nat l) src)))"

text \<open>\<^verbatim>\<open>Deobfuscate(dst, src)\<close>: the destination and the verdict.\<close>

fun Deobfuscate :: "obf \<Rightarrow> bytes \<Rightarrow> bytes \<Rightarrow> (bytes \<times> bool) option" where
  "Deobfuscate (bytesObf d) dst src =
     (if length d > length src then None else Some (dst, d = take (length d) src))"
| "Deobfuscate (randCharObf l) dst src = map_option (\<lambda>b. (dst, b)) (prefixAll isLetter l src)"
| "Deobfuscate (randDigitObf l) dst src = map_option (\<lambda>b. (dst, b)) (prefixAll isDigit l src)"
| "Deobfuscate dataObf dst src = Some (copy_at 0 src dst, True)"
| "Deobfuscate dataStringObf dst src = map_option (\<lambda>d. (d, True)) (put_at 0 (b64dec src) dst)"
| "Deobfuscate _ dst src = Some (dst, True)"

section \<open>Builders and the tag language\<close>

datatype buildError = EmptyArgument | OddSymbols | BadHex | BadNumber numError | BadQinit qinitError

definition intBuilder :: "(int \<Rightarrow> obf) \<Rightarrow> string \<Rightarrow> buildError + obf" where
  "intBuilder f val = (case atoi val of Inl e \<Rightarrow> Inl (BadNumber e) | Inr n \<Rightarrow> Inr (f n))"

definition newBytesObf :: "string \<Rightarrow> buildError + obf" where
  "newBytesObf val =
     (let val = (if take 2 val = ''0x'' then drop 2 val else val) in
      if length val = 0 then Inl EmptyArgument
      else if length val mod 2 \<noteq> 0 then Inl OddSymbols
      else case hexDecode val of None \<Rightarrow> Inl BadHex | Some b \<Rightarrow> Inr (bytesObf b))"

definition newImitateObf :: "imitateProto \<Rightarrow> string \<Rightarrow> buildError + obf" where
  "newImitateObf proto = intBuilder (\<lambda>l. imitateObf l proto 0)"

definition obfBuilders :: "string \<Rightarrow> (string \<Rightarrow> buildError + obf) option" where
  "obfBuilders key =
     map_of [(''b'', newBytesObf),
       (''t'', \<lambda>_. Inr timestampObf),
       (''r'', intBuilder randObf),
       (''rc'', intBuilder randCharObf),
       (''rd'', intBuilder randDigitObf),
       (''d'', \<lambda>_. Inr dataObf),
       (''ds'', \<lambda>_. Inr dataStringObf),
       (''dz'', intBuilder dataSizeObf),
       (''q'', newImitateObf imitateQUIC),
       (''dns'', newImitateObf imitateDNS),
       (''stun'', newImitateObf imitateSTUN),
       (''sip'', newImitateObf imitateSIP),
       (''qinit'', \<lambda>v. case newQInitObf v of Inl e \<Rightarrow> Inl (BadQinit e) | Inr q \<Rightarrow> Inr (qinit q))] key"

datatype obfError = MissingEnclosing | EmptyTag | UnknownTag string | FailedToBuild string buildError

record obfChain =
  Spec :: string
  obfs :: "obf list"

definition buildTag :: "string \<Rightarrow> obfError + obf" where
  "buildTag tag =
     (let parts = strFields tag in
      if parts = [] then Inl EmptyTag
      else case obfBuilders (parts ! 0) of
        None \<Rightarrow> Inl (UnknownTag (parts ! 0))
      | Some builder \<Rightarrow>
          (case builder (if length parts > 1 then parts ! 1 else '''') of
             Inl e \<Rightarrow> Inl (FailedToBuild (parts ! 0) e)
           | Inr v \<Rightarrow> Inr v))"

text \<open>The loop over the rest of the specification: the errors and the obfuscators, or a missing \<^verbatim>\<open>>\<close>.\<close>

function parseTags :: "string \<Rightarrow> (obfError list \<times> obf list) option" where
  "parseTags remaining =
     (case cut CHR ''<'' remaining of
        None \<Rightarrow> Some ([], [])
      | Some (_, rest) \<Rightarrow>
          (case cut CHR ''>'' rest of
             None \<Rightarrow> None
           | Some (tag, remaining') \<Rightarrow>
               (case parseTags remaining' of
                  None \<Rightarrow> None
                | Some (es, os) \<Rightarrow>
                    (case buildTag tag of Inl e \<Rightarrow> Some (e # es, os) | Inr v \<Rightarrow> Some (es, v # os)))))"
  by auto
termination
  by (relation "measure length") (auto dest!: length_cut)

declare parseTags.simps [simp del]

definition newObfChain :: "string \<Rightarrow> obfError list + obfChain" where
  "newObfChain spec =
     (case parseTags spec of
        None \<Rightarrow> Inl [MissingEnclosing]
      | Some (es, os) \<Rightarrow> if es \<noteq> [] then Inl es else Inr \<lparr>Spec = spec, obfs = os\<rparr>)"

section \<open>Chains\<close>

definition chainObfuscatedLen :: "obf list \<Rightarrow> nat \<Rightarrow> int" where
  "chainObfuscatedLen os n = sum_list (map (\<lambda>v. ObfuscatedLen v n) os)"

definition chainDeobfuscatedLen :: "obf list \<Rightarrow> nat \<Rightarrow> int" where
  "chainDeobfuscatedLen os n = sum_list (map (\<lambda>v. DeobfuscatedLen v (int n - chainObfuscatedLen os 0)) os)"

text \<open>The loop of \<^verbatim>\<open>obfChain.Obfuscate\<close> from position \<open>written\<close>.\<close>

fun chainObfuscate ::
  "QuicCrypto \<Rightarrow> int \<Rightarrow> obf list \<Rightarrow> nat \<Rightarrow> bytes \<Rightarrow> bytes \<Rightarrow> tape \<Rightarrow> (bytes \<times> obf list \<times> tape) option"
where
  "chainObfuscate C now [] written dst src t = Some (dst, [], t)"
| "chainObfuscate C now (v # os) written dst src t =
     (let obfLen = ObfuscatedLen v (length src) in
      if obfLen < 0 \<or> written + nat obfLen > length dst then None
      else
        do { (d, v', t) \<leftarrow> Obfuscate C now v (subslice written (written + nat obfLen) dst) src t;
             (dst, os', t) \<leftarrow> chainObfuscate C now os (written + nat obfLen)
                (take written dst @ d @ drop (written + nat obfLen) dst) src t;
             Some (dst, v' # os', t) })"

fun chainDeobfuscateFrom :: "obf list \<Rightarrow> int \<Rightarrow> nat \<Rightarrow> nat \<Rightarrow> bytes \<Rightarrow> bytes \<Rightarrow> (bytes \<times> bool) option" where
  "chainDeobfuscateFrom [] dyn written rd dst src = Some (dst, True)"
| "chainDeobfuscateFrom (v # os) dyn written rd dst src =
     (let dl = DeobfuscatedLen v dyn; deobfLen = nat dl; obfLen = ObfuscatedLen v deobfLen in
      if dl < 0 \<or> obfLen < 0 \<or> written + deobfLen > length dst \<or> rd + nat obfLen > length src then None
      else
        do { (d, good) \<leftarrow> Deobfuscate v (subslice written (written + deobfLen) dst) (subslice rd (rd + nat obfLen) src);
             let dst = take written dst @ d @ drop (written + deobfLen) dst in
             if \<not> good then Some (dst, False)
             else chainDeobfuscateFrom os dyn (written + deobfLen) (rd + nat obfLen) dst src })"

definition chainDeobfuscate :: "obf list \<Rightarrow> bytes \<Rightarrow> bytes \<Rightarrow> (bytes \<times> bool) option" where
  "chainDeobfuscate os dst src =
     chainDeobfuscateFrom os (int (length src) - chainObfuscatedLen os 0) 0 0 dst src"

text \<open>
  The use of a chain by the sender: \<^verbatim>\<open>make\<close> of the announced length (a negative one panics), then
  \<^verbatim>\<open>Obfuscate\<close> without payload.
\<close>

definition buildIPacket :: "QuicCrypto \<Rightarrow> int \<Rightarrow> obf list \<Rightarrow> tape \<Rightarrow> (bytes \<times> obf list \<times> tape) option" where
  "buildIPacket C now os t =
     (if chainObfuscatedLen os 0 < 0 then None
      else chainObfuscate C now os 0 (replicate (nat (chainObfuscatedLen os 0)) 0) [] t)"

section \<open>Base64\<close>

lemma b64val_char: "n < 64 \<Longrightarrow> b64val (b64char n) = Some n"
proof -
  assume "n < 64"
  then have "n \<in> set [0..<64]" by simp
  moreover have "\<forall>n \<in> set [0..<64]. b64val (b64char n) = Some n" by code_simp
  ultimately show ?thesis by blast
qed

lemma length_b64enc: "length (b64enc s) = b64len (length s)"
proof (induction s rule: b64enc.induct)
  case (1 a b c r)
  have "b64len (Suc (Suc (Suc (length r)))) = b64len (length r) + 4"
    by (simp add: b64len_def div_Suc mod_Suc)
  then show ?case using 1 by (simp add: Let_def)
qed (simp_all add: b64len_def Let_def)

lemma b64declen_len: "b64declen (b64len n) = n"
proof -
  define k r where "k = n div 3" and "r = n mod 3"
  have n: "n = k * 3 + r" by (simp add: k_def r_def)
  have "r < 3" by (simp add: r_def)
  then consider "r = 0" | "r = 1" | "r = 2" by linarith
  then have "(r * 8 + 5) div 6 < 4 \<and> (r * 8 + 5) div 6 * 6 div 8 = r" by cases simp_all
  moreover have "b64len n = k * 4 + (r * 8 + 5) div 6" by (simp add: b64len_def k_def r_def)
  ultimately show ?thesis using n by (simp add: b64declen_def)
qed

lemma u8_nat: "unat (a :: u8) < 256"
  using unsigned_less [of a] by simp

lemma byte_unat: "word_of_nat (unat a) = (a :: u8)"
  by simp

lemma b64_group:
  assumes "a < 256" "b < 256" "c < 256"
  defines "n \<equiv> a * 65536 + b * 256 + (c :: nat)"
  shows "n div 262144 < 64" "n div 4096 mod 64 < 64" "n div 64 mod 64 < 64" "n mod 64 < 64"
    "n div 262144 * 262144 + n div 4096 mod 64 * 4096 + n div 64 mod 64 * 64 + n mod 64 = n"
    "n div 65536 = a" "n div 256 mod 256 = b" "n mod 256 = c"
proof -
  show "n div 262144 < 64" using assms by simp
  show "n div 262144 * 262144 + n div 4096 mod 64 * 4096 + n div 64 mod 64 * 64 + n mod 64 = n"
  proof -
    have d: "n div 4096 = n div 64 div 64" "n div 262144 = n div 64 div 64 div 64"
      by (simp_all add: div_mult2_eq [symmetric])
    show ?thesis
      using div_mult_mod_eq [of n 64] div_mult_mod_eq [of "n div 64" 64] div_mult_mod_eq [of "n div 64 div 64" 64]
      unfolding d by linarith
  qed
  have n: "n = (a * 256 + b) * 256 + c" by (simp add: n_def)
  have "n mod 256 = c" unfolding n using assms(3) by (simp only: mod_mult_self3 mod_less)
  moreover have "n div 256 = a * 256 + b" unfolding n using assms(3) by simp
  moreover from this have "n div 256 mod 256 = b" using assms(2) by simp
  moreover have "n div 65536 = n div 256 div 256" by (simp add: div_mult2_eq [symmetric])
  ultimately show "n div 65536 = a" "n div 256 mod 256 = b" "n mod 256 = c" using assms(2) by simp_all
qed simp_all

lemma b64dec_enc: "b64dec (b64enc s) = s"
proof (induction s rule: b64enc.induct)
  case (1 a b c r)
  define n where "n = unat a * 65536 + unat b * 256 + unat c"
  note g = b64_group [OF u8_nat [of a] u8_nat [of b] u8_nat [of c], folded n_def]
  have "b64enc (a # b # c # r) =
      b64char (n div 262144) # b64char (n div 4096 mod 64) # b64char (n div 64 mod 64) # b64char (n mod 64) # b64enc r"
    by (simp add: n_def Let_def)
  then show ?case using 1 by (simp only: b64dec.simps b64val_char g prod.case option.case Let_def byte_unat)
next
  case (2 a b)
  define n where "n = unat a * 65536 + unat b * 256 + 0"
  note g = b64_group [OF u8_nat [of a] u8_nat [of b], of 0, folded n_def, OF zero_less_numeral]
  have e: "b64enc [a, b] = [b64char (n div 262144), b64char (n div 4096 mod 64), b64char (n div 64 mod 64)]"
    by (simp add: n_def Let_def)
  have "n mod 64 = 0" by (simp add: n_def)
  with g(5) have "n div 262144 * 262144 + n div 4096 mod 64 * 4096 + n div 64 mod 64 * 64 = n" by linarith
  then show ?case unfolding e
    by (simp only: b64dec.simps b64val_char g prod.case option.case Let_def byte_unat)
next
  case (3 a)
  define n where "n = unat a * 65536 + 0 * 256 + 0"
  note g = b64_group [OF u8_nat [of a], of 0 0, folded n_def, OF zero_less_numeral zero_less_numeral]
  have e: "b64enc [a] = [b64char (n div 262144), b64char (n div 4096 mod 64)]"
    by (simp add: n_def Let_def)
  have "n mod 64 = 0" "n div 64 mod 64 = 0" by (simp_all add: n_def)
  with g(5) have "n div 262144 * 262144 + n div 4096 mod 64 * 4096 = n" by linarith
  then show ?case unfolding e
    by (simp only: b64dec.simps b64val_char g prod.case option.case Let_def byte_unat)
qed simp

section \<open>Lengths\<close>

text \<open>A server name the \<^verbatim>\<open>qinit\<close> builder accepts, and no negative length.\<close>

fun obfOK :: "obf \<Rightarrow> bool" where
  "obfOK (qinit q) \<longleftrightarrow> qiLength q = 1200 \<and> length (qiSni q) \<le> 255"
| "obfOK v \<longleftrightarrow> True"

lemma length_sizeBytes [simp]: "length (sizeBytes l n) = l"
  by (induction l arbitrary: n) auto

lemma imitateFillWhole_total: "\<exists>out. imitateFillWhole buf seed p = Some out \<and> length out = length buf"
  using quic.whole [of buf] writeDNSMsg_fills [of "length buf" buf] stun.whole [of buf] sip.whole [of buf]
  by (cases p) (auto simp: writeDNSWhole_def)

lemma qinitObfuscate_total:
  assumes "quicCryptoOK C" "obfOK (qinit q)" "84 \<le> length r" "length dst = qiLength q"
  shows "\<exists>d. qinitObfuscate C r q dst = Some d \<and> length d = length dst"
  using buildQUICInitial_shape [OF assms(1), of "qiSni q" r] assms by (auto simp: qinitObfuscate_def)

lemma randInto_total:
  "length dst = nat l \<Longrightarrow> 0 \<le> l \<Longrightarrow>
   randInto f l dst t = Some (map f (fst (drawBytes (nat l) t)), snd (drawBytes (nat l) t))"
  by (simp add: randInto_def drawBytes_def)

lemma Obfuscate_total:
  assumes "quicCryptoOK C" "obfOK v" "0 \<le> ObfuscatedLen v (length src)"
    "length dst = nat (ObfuscatedLen v (length src))"
  shows "\<exists>d v' t'. Obfuscate C now v dst src t = Some (d, v', t') \<and> length d = length dst \<and> obfOK v' \<and>
    ObfuscatedLen v' = ObfuscatedLen v"
proof (cases v)
  case (imitateObf l p c)
  then show ?thesis using assms imitateFillWhole_total [of dst "imitateJunkSeed (c + 1)" p] by (auto simp: fun_eq_iff)
next
  case (qinit q)
  then show ?thesis using assms qinitObfuscate_total [OF assms(1), of q "fst (drawBytes 84 t)" dst]
    by (auto simp: fun_eq_iff case_prod_beta)
qed (use assms in \<open>auto simp: fun_eq_iff randInto_total length_b64enc case_prod_beta\<close>)

lemma chainObfuscate_total:
  assumes C: "quicCryptoOK C"
  shows "list_all obfOK os \<Longrightarrow> list_all (\<lambda>v. 0 \<le> ObfuscatedLen v (length src)) os \<Longrightarrow>
    int (length dst) = int written + chainObfuscatedLen os (length src) \<Longrightarrow>
    \<exists>out os' t'. chainObfuscate C now os written dst src t = Some (out, os', t') \<and> length out = length dst \<and>
      take written out = take written dst \<and> list_all obfOK os' \<and> map ObfuscatedLen os' = map ObfuscatedLen os"
proof (induction os arbitrary: written dst t)
  case (Cons v os)
  let ?l = "nat (ObfuscatedLen v (length src))"
  let ?seg = "subslice written (written + ?l) dst"
  have pos: "0 \<le> chainObfuscatedLen os (length src)"
    using Cons.prems(2) by (auto simp: chainObfuscatedLen_def list_all_iff intro!: sum_list_nonneg)
  have v: "obfOK v" "0 \<le> ObfuscatedLen v (length src)" using Cons.prems by simp_all
  have fits: "written + ?l \<le> length dst"
    using Cons.prems(3) v pos by (simp add: chainObfuscatedLen_def)
  then have "length ?seg = ?l" by simp
  then obtain d v' t' where d: "Obfuscate C now v ?seg src t = Some (d, v', t')" "length d = ?l" "obfOK v'"
      "ObfuscatedLen v' = ObfuscatedLen v"
    using Obfuscate_total [OF C v, of ?seg now t] by auto
  let ?dst = "take written dst @ d @ drop (written + ?l) dst"
  have "int (length ?dst) = int (written + ?l) + chainObfuscatedLen os (length src)"
    using Cons.prems(3) v fits d(2) by (simp add: chainObfuscatedLen_def)
  then obtain out os' t'' where o: "chainObfuscate C now os (written + ?l) ?dst src t' = Some (out, os', t'')"
      "length out = length ?dst" "take (written + ?l) out = take (written + ?l) ?dst" "list_all obfOK os'"
      "map ObfuscatedLen os' = map ObfuscatedLen os"
    using Cons.IH [of ?dst "written + ?l" t'] Cons.prems by auto
  have "take written out = take written (take (written + ?l) out)" by (simp add: min_def)
  also have "\<dots> = take written dst" unfolding o(3) using fits by (simp add: min_def)
  finally show ?case using o d fits v by (simp add: Let_def)
qed (simp add: chainObfuscatedLen_def)

lemma buildTag_OK: "buildTag tag = Inr v \<Longrightarrow> obfOK v"
  by (auto simp: buildTag_def obfBuilders_def intBuilder_def newImitateObf_def newBytesObf_def newQInitObf_def
      qinitDatagramLen_def Let_def split: if_splits sum.splits option.splits)

lemma parseTags_OK: "parseTags s = Some (es, os) \<Longrightarrow> list_all obfOK os"
proof (induction s arbitrary: es os rule: parseTags.induct)
  case (1 s)
  show ?case
  proof (cases "cut CHR ''<'' s")
    case None
    then show ?thesis using "1.prems" by (simp add: parseTags.simps [of s])
  next
    case (Some p)
    then show ?thesis
      using "1.prems" "1.IH"
      by (cases p) (auto simp: parseTags.simps [of s] buildTag_OK split: option.splits prod.splits sum.splits)
  qed
qed

lemma newObfChain_OK: "newObfChain spec = Inr c \<Longrightarrow> list_all obfOK (obfs c)"
  by (auto simp: newObfChain_def parseTags_OK split: option.splits prod.splits if_splits)

lemma chainObfuscate_negative:
  "\<not> list_all (\<lambda>v. 0 \<le> ObfuscatedLen v (length src)) os \<Longrightarrow> chainObfuscate C now os written dst src t = None"
proof (induction os arbitrary: written dst t)
  case (Cons v os)
  show ?case
  proof (cases "0 \<le> ObfuscatedLen v (length src)")
    case True
    then show ?thesis using Cons by (auto simp: Let_def split: bind_splits)
  next
    case False
    then show ?thesis by (simp add: Let_def)
  qed
qed simp



section \<open>Round trip\<close>

fun isData :: "obf \<Rightarrow> bool" where
  "isData dataObf \<longleftrightarrow> True"
| "isData dataStringObf \<longleftrightarrow> True"
| "isData _ \<longleftrightarrow> False"

lemma chars52_letters: "isLetter (of_char (chars52 ! (n mod 52)))"
proof -
  have "\<forall>i \<in> set [0..<52]. isLetter (of_char (chars52 ! i))" by code_simp
  moreover have "n mod 52 \<in> set [0..<52]" by simp
  ultimately show ?thesis by blast
qed

lemma digits10_digits: "isDigit (of_char (digits10 ! (n mod 10)))"
proof -
  have "\<forall>i \<in> set [0..<10]. isDigit (of_char (digits10 ! i))" by code_simp
  moreover have "n mod 10 \<in> set [0..<10]" by simp
  ultimately show ?thesis by blast
qed

lemma static_accepts:
  assumes "\<not> isData v" "0 \<le> ObfuscatedLen v n" "length dst = nat (ObfuscatedLen v n)"
    "Obfuscate C now v dst src t = Some (d, v', t')"
  shows "Deobfuscate v [] d = Some ([], True)" "DeobfuscatedLen v k = 0" "ObfuscatedLen v m = ObfuscatedLen v n"
  using assms
  by (cases v; auto simp: randInto_total prefixAll_def list_all_iff chars52_letters digits10_digits copy_at_def)+

lemma data_accepts:
  assumes "isData v" "length dst = nat (ObfuscatedLen v (length src))" "length ddst = length src"
    "Obfuscate C now v dst src t = Some (d, v', t')" "dyn = ObfuscatedLen v (length src)"
  shows "Deobfuscate v ddst d = Some (src, True)" "DeobfuscatedLen v dyn = int (length src)"
  using assms
  by (cases v; auto simp: length_b64enc b64dec_enc b64declen_len copy_at_def)+

text \<open>What one step of the chain leaves in the output, and the state the rest starts from.\<close>

lemma chainObfuscate_step:
  assumes C: "quicCryptoOK C" and ok: "list_all obfOK (v # os)"
    and nn: "list_all (\<lambda>v. 0 \<le> ObfuscatedLen v (length src)) (v # os)"
    and len: "int (length dst) = int w + chainObfuscatedLen (v # os) (length src)"
    and run: "chainObfuscate C now (v # os) w dst src t = Some (out, os', t')"
  defines "l \<equiv> nat (ObfuscatedLen v (length src))"
  shows "\<exists>d v' t1 dst1 os1. Obfuscate C now v (subslice w (w + l) dst) src t = Some (d, v', t1) \<and>
    length (subslice w (w + l) dst) = l \<and> subslice w (w + l) out = d \<and>
    int (length dst1) = int (w + l) + chainObfuscatedLen os (length src) \<and> w + l \<le> length out \<and>
    chainObfuscate C now os (w + l) dst1 src t1 = Some (out, os1, t')"
proof -
  have pos: "0 \<le> chainObfuscatedLen os (length src)"
    using nn by (auto simp: chainObfuscatedLen_def list_all_iff intro!: sum_list_nonneg)
  have fits: "w + l \<le> length dst" and v: "0 \<le> ObfuscatedLen v (length src)"
    using len nn pos unfolding chainObfuscatedLen_def l_def by (simp_all, linarith)
  then have ls: "length (subslice w (w + l) dst) = l" by simp
  obtain d v' t1 os1 where d: "Obfuscate C now v (subslice w (w + l) dst) src t = Some (d, v', t1)"
      "chainObfuscate C now os (w + l) (take w dst @ d @ drop (w + l) dst) src t1 = Some (out, os1, t')"
    using run v fits by (auto simp: Let_def l_def split: bind_splits)
  have ld: "length d = l" using Obfuscate_total [OF C _ v, of "subslice w (w + l) dst" now t] d(1) ls ok by (simp add: l_def)
  let ?dst = "take w dst @ d @ drop (w + l) dst"
  have ldst: "int (length ?dst) = int (w + l) + chainObfuscatedLen os (length src)" "length ?dst = length dst"
    using len v fits ld by (simp_all add: chainObfuscatedLen_def l_def)
  then have "length out = length dst" "take (w + l) out = take (w + l) ?dst"
    using chainObfuscate_total [OF C _ _ ldst(1), of now t1] ok nn d(2) by auto
  moreover have "take (w + l) ?dst = take w dst @ d" using fits ld by (simp add: min_def)
  ultimately have "drop w (take (w + l) out) = d" using fits by simp
  then have "subslice w (w + l) out = d" by (simp add: subslice_def drop_take)
  moreover have "w + l \<le> length out" using fits \<open>length out = length dst\<close> by simp
  ultimately show ?thesis using d ls ldst by blast
qed

definition dynMatches :: "int \<Rightarrow> obf list \<Rightarrow> nat \<Rightarrow> bool" where
  "dynMatches dyn os n \<longleftrightarrow> (\<forall>v \<in> set os. isData v \<longrightarrow> dyn = ObfuscatedLen v n)"

lemma chain_roundtrip_from:
  assumes C: "quicCryptoOK C"
  shows "list_all obfOK os \<Longrightarrow> list_all (\<lambda>v. 0 \<le> ObfuscatedLen v (length src)) os \<Longrightarrow>
    length (filter isData os) \<le> 1 \<Longrightarrow> dynMatches dyn os (length src) \<Longrightarrow>
    int (length dst) = int w + chainObfuscatedLen os (length src) \<Longrightarrow>
    chainObfuscate C now os w dst src t = Some (out, os', t') \<Longrightarrow>
    k = (if filter isData os = [] then 0 else length src) \<Longrightarrow> wr + k \<le> length ddst \<Longrightarrow>
    chainDeobfuscateFrom os dyn wr w ddst out =
      Some (take wr ddst @ (if filter isData os = [] then [] else src) @ drop (wr + k) ddst, True)"
proof (induction os arbitrary: w dst t os' wr ddst k)
  case (Cons v os)
  let ?l = "nat (ObfuscatedLen v (length src))"
  obtain d v' t1 dst1 os1 where s: "Obfuscate C now v (subslice w (w + ?l) dst) src t = Some (d, v', t1)"
      "length (subslice w (w + ?l) dst) = ?l" "subslice w (w + ?l) out = d"
      "int (length dst1) = int (w + ?l) + chainObfuscatedLen os (length src)" and fits: "w + ?l \<le> length out"
      and s': "chainObfuscate C now os (w + ?l) dst1 src t1 = Some (out, os1, t')"
    using chainObfuscate_step [OF C Cons.prems(1,2,5,6)] by blast
  have v: "0 \<le> ObfuscatedLen v (length src)" using Cons.prems(2) by simp
  have dm: "dynMatches dyn os (length src)" using Cons.prems(4) by (simp add: dynMatches_def)
  show ?case
  proof (cases "isData v")
    case False
    note a = static_accepts [OF False v s(2,1)]
    have "chainDeobfuscateFrom (v # os) dyn wr w ddst out = chainDeobfuscateFrom os dyn wr (w + ?l) ddst out"
      using a(1,2) a(3) [of 0] fits v s(3) Cons.prems(8) by (simp add: Let_def subslice_def)
    then show ?thesis
      using Cons.IH [OF _ _ _ dm s(4) s', of k wr ddst] Cons.prems False by simp
  next
    case True
    have k: "k = length src" "wr + length src \<le> length ddst" "filter isData os = []"
      using Cons.prems(3,7,8) True by (auto simp: filter_empty_conv split: if_splits)
    have dyn: "dyn = ObfuscatedLen v (length src)" using Cons.prems(4) True by (simp add: dynMatches_def)
    have "length (subslice wr (wr + length src) ddst) = length src" using k by simp
    note a = data_accepts [OF True s(2) this s(1) dyn]
    have "chainDeobfuscateFrom (v # os) dyn wr w ddst out =
        chainDeobfuscateFrom os dyn (wr + length src) (w + ?l) (take wr ddst @ src @ drop (wr + length src) ddst) out"
      using a fits v s(3) k by (simp add: Let_def)
    then show ?thesis
      using Cons.IH [OF _ _ _ dm s(4) s', of 0 "wr + length src" "take wr ddst @ src @ drop (wr + length src) ddst"]
        Cons.prems k True by simp
  qed
qed (simp add: dynMatches_def)

text \<open>The length left for the one data tag, and the decoded length, as the chain computes them.\<close>

lemma ObfuscatedLen_0: "isData v \<Longrightarrow> ObfuscatedLen v 0 = 0"
  by (cases v) (simp_all add: b64len_def)

lemma ObfuscatedLen_static: "\<not> isData v \<Longrightarrow> ObfuscatedLen v n = ObfuscatedLen v 0"
  by (cases v) simp_all

lemma ObfuscatedLen_mono: "0 \<le> ObfuscatedLen v 0 \<Longrightarrow> 0 \<le> ObfuscatedLen v n"
  by (cases v) simp_all

lemma chainLen_no_data:
  "filter isData os = [] \<Longrightarrow> chainObfuscatedLen os n = chainObfuscatedLen os 0"
  "filter isData os = [] \<Longrightarrow> sum_list (map (\<lambda>v. DeobfuscatedLen v k) os) = 0"
proof (induction os)
  case (Cons v os)
  case 1 then show ?case using Cons.IH(1) ObfuscatedLen_static [of v n] by (simp add: chainObfuscatedLen_def split: if_splits)
  case 2 then show ?case using Cons.IH(2) by (cases v) (simp_all split: if_splits)
qed (simp_all add: chainObfuscatedLen_def)

lemma DeobfuscatedLen_data:
  "isData v \<Longrightarrow> DeobfuscatedLen v (ObfuscatedLen v n) = int n"
  "\<not> isData v \<Longrightarrow> DeobfuscatedLen v k = 0"
  by (cases v; simp add: b64declen_len)+

lemma chainLen_one_data:
  assumes "length (filter isData os) = 1"
  shows "dynMatches (chainObfuscatedLen os n - chainObfuscatedLen os 0) os n \<and>
    sum_list (map (\<lambda>v. DeobfuscatedLen v (chainObfuscatedLen os n - chainObfuscatedLen os 0)) os) = int n"
  using assms
proof (induction os)
  case (Cons v os)
  show ?case
  proof (cases "isData v")
    case True
    then have e: "filter isData os = []" using Cons.prems by simp
    then have "chainObfuscatedLen (v # os) n - chainObfuscatedLen (v # os) 0 = ObfuscatedLen v n"
      using chainLen_no_data(1) [of os n] ObfuscatedLen_0 [OF True] by (simp add: chainObfuscatedLen_def)
    then show ?thesis
      using e True by (auto simp: dynMatches_def filter_empty_conv DeobfuscatedLen_data chainLen_no_data(2))
  next
    case False
    then have "chainObfuscatedLen (v # os) n - chainObfuscatedLen (v # os) 0 = chainObfuscatedLen os n - chainObfuscatedLen os 0"
      using ObfuscatedLen_static [of v n] by (simp add: chainObfuscatedLen_def)
    then show ?thesis using Cons False by (simp add: dynMatches_def DeobfuscatedLen_data)
  qed
qed simp



end
