(* ===== verification/Tai64n.thy ===== *)
theory Tai64n
  imports Prelude
begin

text \<open>
  The TAI64N timestamps of \<^verbatim>\<open>tai64n/tai64n.go\<close>: a 12-byte big-endian label of seconds and
  nanoseconds whose low 24 bits are masked off. Times are nanoseconds since the Unix epoch. The theory
  shows that comparing two labels byte by byte compares the masked times.
\<close>

unbundle bit_operations_syntax

section \<open>Time\<close>

text \<open>
  \<^verbatim>\<open>time.Time\<close> is the number of nanoseconds since the Unix epoch, the zero value being the first instant of
  year 1; \<^verbatim>\<open>time.Time.Sub\<close> saturates at the range of \<^verbatim>\<open>time.Duration\<close>, a signed 64-bit integer.
\<close>

type_synonym gotime = int

definition second :: int where "second = 1000000000"
definition zeroTime :: gotime where "zeroTime = - 62135596800 * second"
definition maxDuration :: int where "maxDuration = 2 ^ 63 - 1"
definition minDuration :: int where "minDuration = - (2 ^ 63)"

definition timeSub :: "gotime \<Rightarrow> gotime \<Rightarrow> int" where
  "timeSub t u = (if t - u > maxDuration then maxDuration else if t - u < minDuration then minDuration else t - u)"

definition unixSec :: "gotime \<Rightarrow> int" where "unixSec t = t div second"
definition nanosecond :: "gotime \<Rightarrow> int" where "nanosecond t = t mod second"

section \<open>Timestamps\<close>

definition TimestampSize :: nat where "TimestampSize = 12"
definition tai64nBase :: u64 where "tai64nBase = 0x400000000000000a"
definition whitenerMask :: u32 where "whitenerMask = 0x1000000 - 1"

definition stamp :: "gotime \<Rightarrow> bytes" where
  "stamp t = put_be64 (tai64nBase + word_of_int (unixSec t)) @ put_be32 (word_of_int (nanosecond t) AND NOT whitenerMask)"

text \<open>\<^verbatim>\<open>bytes.Compare(t1, t2) > 0\<close>\<close>

fun bytesGreater :: "bytes \<Rightarrow> bytes \<Rightarrow> bool" where
  "bytesGreater [] ys \<longleftrightarrow> False"
| "bytesGreater (x # xs) [] \<longleftrightarrow> True"
| "bytesGreater (x # xs) (y # ys) \<longleftrightarrow> y < x \<or> (x = y \<and> bytesGreater xs ys)"

definition After :: "bytes \<Rightarrow> bytes \<Rightarrow> bool" where
  "After t1 t2 \<longleftrightarrow> bytesGreater t1 t2"

section \<open>Order of timestamps\<close>

lemma length_stamp [len_simps]: "length (stamp t) = TimestampSize"
  by (simp add: stamp_def TimestampSize_def len_simps)

text \<open>The number a big-endian byte string denotes.\<close>

fun beVal :: "bytes \<Rightarrow> nat" where
  "beVal [] = 0"
| "beVal (b # bs) = unat b * 256 ^ length bs + beVal bs"

lemma radix_less:
  fixes a b p r s :: nat
  assumes "a < b" "r < p"
  shows "a * p + r < b * p + s"
proof -
  have "a * p + r < (a + 1) * p" using assms(2) by simp
  also have "\<dots> \<le> b * p" using assms(1) by (intro mult_le_mono1) simp
  finally show ?thesis by simp
qed

lemma beVal_less: "beVal bs < 256 ^ length bs"
proof (induction bs)
  case (Cons b bs)
  have "unat b < 256" using unsigned_less [of b, where 'a = nat] by simp
  then show ?case using radix_less [of "unat b" 256 _ _ 0, OF _ Cons] by simp
qed simp

lemma beVal_append: "beVal (a @ b) = beVal a * 256 ^ length b + beVal b"
  by (induction a) (simp_all add: algebra_simps power_add)

lemma bytesGreater_iff: "length xs = length ys \<Longrightarrow> bytesGreater xs ys \<longleftrightarrow> beVal ys < beVal xs"
proof (induction xs ys rule: list_induct2)
  case (Cons x xs y ys)
  let ?p = "256 ^ length ys :: nat"
  have lt: "beVal xs < ?p" "beVal ys < ?p" using beVal_less [of xs] beVal_less [of ys] Cons.hyps by simp_all
  consider "unat y < unat x" | "unat x < unat y" | "x = y" by (metis linorder_neqE_nat unsigned_word_eqI)
  then show ?case
    using radix_less [OF _ lt(2), of "unat y" "unat x" "beVal xs"] radix_less [OF _ lt(1), of "unat x" "unat y" "beVal ys"] Cons
    by cases (auto simp: word_less_nat_alt)
qed simp

lemma beVal_bytes: "beVal (map (\<lambda>k. word_of_nat (n div 256 ^ k mod 256)) (rev [0..<m])) = n mod 256 ^ m"
proof (induction m)
  case (Suc m)
  have "n mod 256 ^ Suc m = n div 256 ^ m mod 256 * 256 ^ m + n mod 256 ^ m"
    using mod_mult2_eq [of n "256 ^ m" 256] by (simp add: algebra_simps)
  then show ?case using Suc by (simp add: unsigned_of_nat take_bit_eq_mod)
qed simp

lemma byte_of_word:
  "(ucast (drop_bit (8 * k) (w :: 'a :: len word)) :: u8) = word_of_nat (unat w div 256 ^ k mod 256)"
proof -
  have "unat (ucast (drop_bit (8 * k) w) :: u8) = unat w div 256 ^ k mod 256"
    by (simp add: unsigned_ucast_eq take_bit_eq_mod unat_drop_bit_eq drop_bit_eq_div [where 'a = nat] power_mult)
  then show ?thesis by (intro unsigned_word_eqI [where 'a = nat]) (simp add: unsigned_of_nat take_bit_eq_mod)
qed

lemma beVal_put_be64 [simp]: "beVal (put_be64 w) = unat w"
proof -
  have "put_be64 w = map (\<lambda>k. word_of_nat (unat w div 256 ^ k mod 256)) (rev [0..<8])"
    using byte_of_word [of 7 w] byte_of_word [of 6 w] byte_of_word [of 5 w] byte_of_word [of 4 w]
      byte_of_word [of 3 w] byte_of_word [of 2 w] byte_of_word [of 1 w] byte_of_word [of 0 w]
    by (simp add: put_be64_def upt_rec)
  then show ?thesis using beVal_bytes [of "unat w" 8] unsigned_less [of w, where 'a = nat] by simp
qed

lemma beVal_put_be32 [simp]: "beVal (put_be32 w) = unat w"
proof -
  have "put_be32 w = map (\<lambda>k. word_of_nat (unat w div 256 ^ k mod 256)) (rev [0..<4])"
    using byte_of_word [of 3 w] byte_of_word [of 2 w] byte_of_word [of 1 w] byte_of_word [of 0 w]
    by (simp add: put_be32_def upt_rec)
  then show ?thesis using beVal_bytes [of "unat w" 4] unsigned_less [of w, where 'a = nat] by simp
qed

text \<open>The part of a time a label keeps: the second and the 24-bit granule of the nanosecond.\<close>

definition granule :: "gotime \<Rightarrow> int" where "granule t = nanosecond t div 2 ^ 24"

definition stampable :: "gotime \<Rightarrow> bool" where
  "stampable t \<longleftrightarrow> - (2 ^ 62) \<le> unixSec t \<and> unixSec t < 2 ^ 62"

lemma uint_of_int: "0 \<le> i \<Longrightarrow> i < 2 ^ LENGTH('a) \<Longrightarrow> uint (word_of_int i :: 'a :: len word) = i"
  by (simp add: unsigned_of_int take_bit_int_eq_self)

lemma uint_secs:
  assumes "stampable t"
  shows "uint (tai64nBase + word_of_int (unixSec t)) = 0x400000000000000a + unixSec t"
proof -
  have "tai64nBase + word_of_int (unixSec t) = word_of_int (0x400000000000000a + unixSec t)"
    by (simp add: tai64nBase_def)
  then show ?thesis using assms uint_of_int [of "0x400000000000000a + unixSec t", where 'a = 64] by (simp add: stampable_def)
qed

lemma uint_nanos: "uint (word_of_int (nanosecond t) AND NOT whitenerMask) = granule t * 2 ^ 24"
proof -
  have r: "0 \<le> nanosecond t" "nanosecond t < 1000000000" by (simp_all add: nanosecond_def second_def)
  have "nanosecond t AND NOT (mask 24) = push_bit 24 (drop_bit 24 (nanosecond t))"
    by (rule bit_eqI) (auto simp: bit_simps)
  also have "\<dots> = granule t * 2 ^ 24" by (simp add: granule_def push_bit_eq_mult drop_bit_eq_div)
  finally have e: "nanosecond t AND NOT (mask 24) = granule t * 2 ^ 24" .
  have "word_of_int (nanosecond t) AND NOT whitenerMask = (word_of_int (nanosecond t AND NOT (mask 24)) :: u32)"
    by (simp add: of_int_and_eq of_int_not_eq whitenerMask_def of_int_mask_eq mask_eq_exp_minus_1)
  then have "word_of_int (nanosecond t) AND NOT whitenerMask = (word_of_int (granule t * 2 ^ 24) :: u32)" unfolding e .
  then show ?thesis using r uint_of_int [of "granule t * 2 ^ 24", where 'a = 32] by (simp add: granule_def)
qed

lemma granule_less: "granule t < 256"
  by (simp add: granule_def nanosecond_def second_def)

lemma granule_later:
  assumes "b + 2 ^ 24 \<le> a"
  shows "unixSec b < unixSec a \<or> unixSec b = unixSec a \<and> granule b < granule a"
proof (cases "unixSec b = unixSec a")
  case True
  then have "nanosecond b + 2 ^ 24 \<le> nanosecond a"
    using assms div_mult_mod_eq [of a second] div_mult_mod_eq [of b second] unfolding unixSec_def nanosecond_def second_def by linarith
  then have "(nanosecond b + 2 ^ 24) div 2 ^ 24 \<le> granule a" unfolding granule_def by (intro zdiv_mono1) simp_all
  then show ?thesis using True by (simp add: granule_def)
next
  case False
  have "unixSec b \<le> unixSec a" using assms unfolding unixSec_def by (intro zdiv_mono1) (simp_all add: second_def)
  then show ?thesis using False by simp
qed

text \<open>
  C28: Timestamps order as times do: for times whose second fits the label, \<^verbatim>\<open>After\<close> on the labels made by
  \<^verbatim>\<open>stamp\<close> holds exactly when the first time has a later second, or the same second and a later granule of
  2^24 nanoseconds; in particular every time at least one granule later gives a later label.
\<close>

theorem stamp_order:
  assumes "stampable a" "stampable b"
  shows "(After (stamp a) (stamp b) \<longleftrightarrow> unixSec b < unixSec a \<or> unixSec b = unixSec a \<and> granule b < granule a) \<and>
    (b + 2 ^ 24 \<le> a \<longrightarrow> After (stamp a) (stamp b))"
proof -
  define f where "f t = (0x400000000000000a + unixSec t) * 2 ^ 32 + granule t * 2 ^ 24" for t
  have v: "int (beVal (stamp t)) = f t" if "stampable t" for t
    using uint_secs [OF that] uint_nanos [of t] by (simp add: stamp_def beVal_append len_simps f_def)
  have "After (stamp a) (stamp b) \<longleftrightarrow> int (beVal (stamp b)) < int (beVal (stamp a))"
    by (simp add: After_def bytesGreater_iff len_simps)
  also have "\<dots> \<longleftrightarrow> f b < f a" using v assms by simp
  also have "\<dots> \<longleftrightarrow> unixSec b < unixSec a \<or> unixSec b = unixSec a \<and> granule b < granule a"
    using granule_less [of a] granule_less [of b] by (simp add: f_def) (auto simp: granule_def nanosecond_def second_def)
  finally have "After (stamp a) (stamp b) \<longleftrightarrow> unixSec b < unixSec a \<or> unixSec b = unixSec a \<and> granule b < granule a" .
  then show ?thesis using granule_later [of b a] by blast
qed

theorem stamp_order_witness:
  "After (stamp 1700000000033554432) (stamp 1700000000000000000)"
  using stamp_order [of 1700000000033554432 1700000000000000000] by (simp add: stampable_def unixSec_def second_def granule_def nanosecond_def)

end
