(* ===== verification/Ratelimiter.thy ===== *)
theory Ratelimiter
  imports Tai64n "HOL-Library.AList"
begin

text \<open>
  The token-bucket rate limiter of \<^verbatim>\<open>ratelimiter/ratelimiter.go\<close>: one bucket per source address, kept in a
  table that a garbage collector empties. The table is an association list; a bucket's tokens are a
  signed 64-bit integer whose wrap-around is written out. The theory bounds how many packets of one
  address are let through in any interval, whatever the garbage collector does.
\<close>

section \<open>The limiter\<close>

definition packetsPerSecond :: int where "packetsPerSecond = 20"
definition packetsBurstable :: int where "packetsBurstable = 5"
definition garbageCollectTime :: int where "garbageCollectTime = second"
definition packetCost :: int where "packetCost = 1000000000 div packetsPerSecond"
definition maxTokens :: int where "maxTokens = packetCost * packetsBurstable"

lemmas rate_consts = packetsPerSecond_def packetsBurstable_def garbageCollectTime_def packetCost_def maxTokens_def second_def

record RatelimiterEntry =
  lastTime :: gotime
  tokens :: int

text \<open>\<open>ticking\<close> says that the garbage collector's ticker runs.\<close>

record 'a Ratelimiter =
  rateTable :: "('a \<times> RatelimiterEntry) list"
  ticking :: bool

definition rateInit :: "'a Ratelimiter" where
  "rateInit = \<lparr>rateTable = [], ticking = False\<rparr>"

definition wrapInt64 :: "int \<Rightarrow> int" where
  "wrapInt64 i = (i + 2 ^ 63) mod 2 ^ 64 - 2 ^ 63"

definition rateCleanup :: "gotime \<Rightarrow> 'a Ratelimiter \<Rightarrow> bool \<times> 'a Ratelimiter" where
  "rateCleanup now rate =
     (let tab = filter (\<lambda>(ip, e). \<not> timeSub now (lastTime e) > garbageCollectTime) (rateTable rate)
      in (tab = [], rate\<lparr>rateTable := tab\<rparr>))"

text \<open>One tick of the collector's goroutine.\<close>

definition rateTick :: "gotime \<Rightarrow> 'a Ratelimiter \<Rightarrow> 'a Ratelimiter" where
  "rateTick now rate =
     (if \<not> ticking rate then rate
      else case rateCleanup now rate of (none, rate') \<Rightarrow> if none then rate'\<lparr>ticking := False\<rparr> else rate')"

definition Allow :: "gotime \<Rightarrow> 'a \<Rightarrow> 'a Ratelimiter \<Rightarrow> bool \<times> 'a Ratelimiter" where
  "Allow now ip rate =
     (case map_of (rateTable rate) ip of
        None \<Rightarrow>
          let tab = AList.update ip \<lparr>lastTime = now, tokens = maxTokens - packetCost\<rparr> (rateTable rate)
          in (True, rate\<lparr>rateTable := tab, ticking := (length tab = 1 \<or> ticking rate)\<rparr>)
      | Some entry \<Rightarrow>
          let tok = wrapInt64 (tokens entry + timeSub now (lastTime entry));
              tok = (if tok > maxTokens then maxTokens else tok);
              (ok, tok) = (if tok > packetCost then (True, tok - packetCost) else (False, tok))
          in (ok, rate\<lparr>rateTable := AList.update ip \<lparr>lastTime = now, tokens = tok\<rparr> (rateTable rate)\<rparr>))"

section \<open>The bound\<close>

text \<open>
  The invariant of the table between the times \<open>a\<close> and \<open>now\<close>, and the level of an address's bucket: what
  it would hold if it were filled now; an address with no bucket has a full one.
\<close>

definition entryInv :: "gotime \<Rightarrow> gotime \<Rightarrow> RatelimiterEntry \<Rightarrow> bool" where
  "entryInv a now e \<longleftrightarrow> 0 \<le> tokens e \<and> tokens e \<le> maxTokens \<and> a \<le> lastTime e \<and> lastTime e \<le> now"

definition rateInv :: "gotime \<Rightarrow> gotime \<Rightarrow> 'a Ratelimiter \<Rightarrow> bool" where
  "rateInv a now rate \<longleftrightarrow> distinct (map fst (rateTable rate)) \<and> (\<forall>ip e. map_of (rateTable rate) ip = Some e \<longrightarrow> entryInv a now e)"

definition level :: "gotime \<Rightarrow> 'a \<Rightarrow> 'a Ratelimiter \<Rightarrow> int" where
  "level now ip rate = (case map_of (rateTable rate) ip of None \<Rightarrow> maxTokens
     | Some e \<Rightarrow> min maxTokens (tokens e + (now - lastTime e)))"

datatype 'a rateEvent = AllowAt gotime 'a | TickAt gotime

fun eventTime :: "'a rateEvent \<Rightarrow> gotime" where
  "eventTime (AllowAt t ip) = t"
| "eventTime (TickAt t) = t"

text \<open>A run: the limiter after a sequence of events and how many packets of \<open>ip\<close> it let through.\<close>

fun rateRun :: "'a \<Rightarrow> 'a rateEvent list \<Rightarrow> 'a Ratelimiter \<Rightarrow> nat \<times> 'a Ratelimiter" where
  "rateRun ip [] rate = (0, rate)"
| "rateRun ip (TickAt t # es) rate = rateRun ip es (rateTick t rate)"
| "rateRun ip (AllowAt t ip' # es) rate =
     (case Allow t ip' rate of (ok, rate') \<Rightarrow>
        case rateRun ip es rate' of (n, rate'') \<Rightarrow> (if ok \<and> ip' = ip then Suc n else n, rate''))"

lemma rateInv_later: "rateInv a now rate \<Longrightarrow> now \<le> t \<Longrightarrow> rateInv a t rate"
  by (fastforce simp: rateInv_def entryInv_def)

lemma level_later: "now \<le> t \<Longrightarrow> level t ip rate \<le> level now ip rate + (t - now)"
  by (auto simp: level_def split: option.splits)

lemma map_of_entryInv: "rateInv a now rate \<Longrightarrow> map_of (rateTable rate) ip = Some e \<Longrightarrow> entryInv a now e"
  by (simp add: rateInv_def)

lemma level_nonneg: "rateInv a now rate \<Longrightarrow> 0 \<le> level now ip rate"
  by (cases "map_of (rateTable rate) ip") (auto simp: level_def rate_consts entryInv_def dest: map_of_entryInv)

lemma level_le_max: "level now ip rate \<le> maxTokens"
  by (auto simp: level_def split: option.splits)

lemma timeSub_small: "a \<le> u \<Longrightarrow> u \<le> t \<Longrightarrow> t - a < 2 ^ 62 \<Longrightarrow> timeSub t u = t - u"
  by (auto simp: timeSub_def maxDuration_def minDuration_def)

text \<open>A collected bucket was full again.\<close>

lemma map_of_filter:
  "distinct (map fst xs) \<Longrightarrow> map_of (filter P xs) k =
    (case map_of xs k of None \<Rightarrow> None | Some e \<Rightarrow> if P (k, e) then Some e else None)"
  by (induction xs) (force split: option.splits)+

lemma rateCleanup_level:
  assumes "rateInv a now rate" "now - a < 2 ^ 62" "rateCleanup now rate = (none, rate')"
  shows "rateInv a now rate' \<and> level now ip rate' = level now ip rate"
proof -
  let ?P = "\<lambda>(ip, e). \<not> timeSub now (lastTime e) > garbageCollectTime"
  have t: "rateTable rate' = filter ?P (rateTable rate)" using assms(3) by (auto simp: rateCleanup_def Let_def)
  have d: "distinct (map fst (rateTable rate))" using assms(1) by (simp add: rateInv_def)
  have "rateInv a now rate'" using assms(1) by (auto simp: rateInv_def t distinct_map_filter map_of_filter split: option.splits if_splits)
  moreover have "level now ip rate' = level now ip rate"
  proof (cases "map_of (rateTable rate) ip")
    case (Some e)
    have e: "entryInv a now e" using map_of_entryInv [OF assms(1) Some] .
    then have "timeSub now (lastTime e) = now - lastTime e" using timeSub_small assms(2) by (auto simp: entryInv_def)
    then show ?thesis
      using Some e by (auto simp: level_def t map_of_filter [OF d] entryInv_def rate_consts)
  qed (simp add: level_def t map_of_filter [OF d])
  ultimately show ?thesis ..
qed

lemma rateTick_level:
  assumes "rateInv a now rate" "now - a < 2 ^ 62"
  shows "rateInv a now (rateTick now rate) \<and> level now ip (rateTick now rate) = level now ip rate"
  using rateCleanup_level [OF assms] assms(1)
  by (auto simp: rateTick_def rateInv_def level_def split: prod.splits)

lemma rateInv_update:
  assumes "rateInv a now rate" "entryInv a now e" "rateTable rate' = AList.update ip e (rateTable rate)"
  shows "rateInv a now rate'"
  using assms distinct_update [of "rateTable rate" ip e] by (auto simp: rateInv_def update_conv')

text \<open>A packet let through costs its address \<open>packetCost\<close> and no other address anything.\<close>

lemma Allow_level:
  assumes "rateInv a now rate" "now - a < 2 ^ 62" "a \<le> now" "Allow now ip' rate = (ok, rate')"
  shows "rateInv a now rate' \<and>
    level now ip rate' \<le> level now ip rate - (if ok \<and> ip' = ip then packetCost else 0)"
proof (cases "map_of (rateTable rate) ip'")
  case None
  let ?e = "\<lparr>lastTime = now, tokens = maxTokens - packetCost\<rparr>"
  have "rateTable rate' = AList.update ip' ?e (rateTable rate)" and "ok"
    using assms(4) None by (auto simp: Allow_def Let_def)
  then show ?thesis
    using rateInv_update [OF assms(1), of ?e rate' ip'] None assms(3)
    by (auto simp: entryInv_def rate_consts level_def update_conv')
next
  case (Some e)
  have e: "entryInv a now e" using map_of_entryInv [OF assms(1) Some] .
  define tok where "tok = min maxTokens (tokens e + (now - lastTime e))"
  have "timeSub now (lastTime e) = now - lastTime e" using e timeSub_small assms(2) by (auto simp: entryInv_def)
  moreover have "wrapInt64 (tokens e + (now - lastTime e)) = tokens e + (now - lastTime e)"
    using e assms(2) by (auto simp: wrapInt64_def entryInv_def rate_consts intro!: mod_pos_pos_trivial)
  ultimately have A: "Allow now ip' rate = (tok > packetCost, rate\<lparr>rateTable := AList.update ip'
      \<lparr>lastTime = now, tokens = if tok > packetCost then tok - packetCost else tok\<rparr> (rateTable rate)\<rparr>)"
    using Some by (simp add: Allow_def Let_def tok_def min_def)
  have "0 \<le> tok" using e by (auto simp: tok_def entryInv_def rate_consts)
  then have "entryInv a now \<lparr>lastTime = now, tokens = if tok > packetCost then tok - packetCost else tok\<rparr>"
    using assms(3) by (auto simp: entryInv_def tok_def rate_consts)
  then have "rateInv a now rate'" by (rule rateInv_update [OF assms(1)]) (use A assms(4) in auto)
  moreover have "level now ip rate' \<le> level now ip rate - (if ok \<and> ip' = ip then packetCost else 0)"
    using A assms(4) Some by (auto simp: level_def update_conv' tok_def rate_consts)
  ultimately show ?thesis ..
qed

lemma rateRun_bound:
  "rateInv a now rate \<Longrightarrow> a \<le> now \<Longrightarrow> now \<le> b \<Longrightarrow> b - a < 2 ^ 62 \<Longrightarrow> sorted (now # map eventTime es) \<Longrightarrow>
   list_all (\<lambda>e. eventTime e \<le> b) es \<Longrightarrow>
   int (fst (rateRun ip es rate)) * packetCost \<le> level now ip rate + (b - now)"
proof (induction ip es rate arbitrary: now rule: rateRun.induct)
  case (1 ip rate)
  then show ?case using level_nonneg [OF 1(1), of ip] by simp
next
  case (2 ip t es rate)
  have t: "now \<le> t" "t \<le> b" "sorted (t # map eventTime es)" using 2 by auto
  have i: "rateInv a t (rateTick t rate)" "level t ip (rateTick t rate) = level t ip rate"
    using rateTick_level [OF rateInv_later [OF "2.prems"(1) t(1)], of ip] 2 t by auto
  show ?case using "2.IH" [OF i(1)] 2 t i(2) level_later [OF t(1), of ip rate] by auto
next
  case (3 ip t ip' es rate)
  have t: "now \<le> t" "t \<le> b" "sorted (t # map eventTime es)" using 3 by auto
  obtain ok rate' where A: "Allow t ip' rate = (ok, rate')" by fastforce
  have i: "rateInv a t rate'" "level t ip rate' \<le> level t ip rate - (if ok \<and> ip' = ip then packetCost else 0)"
    using Allow_level [OF rateInv_later [OF "3.prems"(1) t(1)] _ _ A, of ip] 3 t by auto
  have "int (fst (rateRun ip es rate')) * packetCost \<le> level t ip rate' + (b - t)"
    using "3.IH" [OF A [symmetric] i(1)] 3 t by auto
  then show ?case
    using A i(2) level_later [OF t(1), of ip rate] by (auto simp: algebra_simps split: prod.splits if_splits)
qed



end
