(* ===== verification/NoiseCrypto.thy ===== *)
theory NoiseCrypto
  imports Tai64n QuicInitial
begin

text \<open>
  The cryptographic helpers of \<^verbatim>\<open>device/noise-helpers.go\<close> and the key types of
  \<^verbatim>\<open>device/noise-types.go\<close>. The primitives come from packages outside the repository and are the fields of
  one record; what the protocol relies on of them is the predicate \<open>cryptoOK\<close>. HMAC is the standard
  library's and is written out over the hash.
\<close>

unbundle bit_operations_syntax

section \<open>The primitives\<close>

record Crypto =
  blake2s256 :: "bytes \<Rightarrow> bytes"
  blake2s128 :: "bytes \<Rightarrow> bytes \<Rightarrow> bytes"
  scalarMult :: "bytes \<Rightarrow> bytes \<Rightarrow> bytes"
  scalarBaseMult :: "bytes \<Rightarrow> bytes"
  aeadSeal :: "bytes \<Rightarrow> bytes \<Rightarrow> bytes \<Rightarrow> bytes \<Rightarrow> bytes"
  aeadOpen :: "bytes \<Rightarrow> bytes \<Rightarrow> bytes \<Rightarrow> bytes \<Rightarrow> bytes option"
  xaeadSeal :: "bytes \<Rightarrow> bytes \<Rightarrow> bytes \<Rightarrow> bytes \<Rightarrow> bytes"
  xaeadOpen :: "bytes \<Rightarrow> bytes \<Rightarrow> bytes \<Rightarrow> bytes \<Rightarrow> bytes option"
  quicCrypto :: QuicCrypto

text \<open>
  Documented behaviour: fixed output sizes, an authenticated cipher opens what it sealed and adds a
  16-byte tag, and the Diffie-Hellman function commutes on 32-byte scalars.
\<close>

definition dhCommutes :: "Crypto \<Rightarrow> bool" where
  "dhCommutes C \<longleftrightarrow> (\<forall>a b. length a = 32 \<longrightarrow> length b = 32 \<longrightarrow>
     scalarMult C a (scalarBaseMult C b) = scalarMult C b (scalarBaseMult C a))"

definition cryptoOK :: "Crypto \<Rightarrow> bool" where
  "cryptoOK C \<longleftrightarrow>
     (\<forall>m. length (blake2s256 C m) = 32) \<and> (\<forall>k m. length (blake2s128 C k m) = 16) \<and>
     (\<forall>a b. length (scalarMult C a b) = 32) \<and> (\<forall>a. length (scalarBaseMult C a) = 32) \<and>
     dhCommutes C \<and>
     (\<forall>k n p a. aeadOpen C k n (aeadSeal C k n p a) a = Some p) \<and>
     (\<forall>k n p a. length (aeadSeal C k n p a) = length p + 16) \<and>
     (\<forall>k n c a p. aeadOpen C k n c a = Some p \<longrightarrow> length c = length p + 16) \<and>
     (\<forall>k n p a. xaeadOpen C k n (xaeadSeal C k n p a) a = Some p) \<and>
     (\<forall>k n p a. length (xaeadSeal C k n p a) = length p + 16) \<and>
     (\<forall>k n c a p. xaeadOpen C k n c a = Some p \<longrightarrow> length c = length p + 16) \<and>
     quicCryptoOK (quicCrypto C)"

section \<open>Sizes\<close>

definition NoisePublicKeySize :: nat where "NoisePublicKeySize = 32"
definition NoisePrivateKeySize :: nat where "NoisePrivateKeySize = 32"
definition NoisePresharedKeySize :: nat where "NoisePresharedKeySize = 32"
definition ZeroNonce :: bytes where "ZeroNonce = replicate 12 0"

lemmas size_defs = NoisePublicKeySize_def NoisePrivateKeySize_def NoisePresharedKeySize_def

definition zeroKey :: bytes where "zeroKey = replicate 32 0"

section \<open>HMAC and the key derivation functions\<close>

text \<open>\<^verbatim>\<open>hmac.New\<close> over BLAKE2s, whose block has 64 bytes.\<close>

definition hmacKey :: "Crypto \<Rightarrow> bytes \<Rightarrow> bytes" where
  "hmacKey C key = (let k = (if length key > 64 then blake2s256 C key else key) in k @ replicate (64 - length k) 0)"

definition hmacSum :: "Crypto \<Rightarrow> bytes \<Rightarrow> bytes \<Rightarrow> bytes" where
  "hmacSum C key m =
     blake2s256 C (map (\<lambda>b. b XOR 0x5c) (hmacKey C key) @ blake2s256 C (map (\<lambda>b. b XOR 0x36) (hmacKey C key) @ m))"

definition HMAC1 :: "Crypto \<Rightarrow> bytes \<Rightarrow> bytes \<Rightarrow> bytes" where
  "HMAC1 C key in0 = hmacSum C key in0"

definition HMAC2 :: "Crypto \<Rightarrow> bytes \<Rightarrow> bytes \<Rightarrow> bytes \<Rightarrow> bytes" where
  "HMAC2 C key in0 in1 = hmacSum C key (in0 @ in1)"

definition KDF1 :: "Crypto \<Rightarrow> bytes \<Rightarrow> bytes \<Rightarrow> bytes" where
  "KDF1 C key input = (let t0 = HMAC1 C key input in HMAC1 C t0 [0x1])"

definition KDF2 :: "Crypto \<Rightarrow> bytes \<Rightarrow> bytes \<Rightarrow> bytes \<times> bytes" where
  "KDF2 C key input =
     (let prk = HMAC1 C key input; t0 = HMAC1 C prk [0x1]; t1 = HMAC2 C prk t0 [0x2] in (t0, t1))"

definition KDF3 :: "Crypto \<Rightarrow> bytes \<Rightarrow> bytes \<Rightarrow> bytes \<times> bytes \<times> bytes" where
  "KDF3 C key input =
     (let prk = HMAC1 C key input; t0 = HMAC1 C prk [0x1]; t1 = HMAC2 C prk t0 [0x2]; t2 = HMAC2 C prk t1 [0x3]
      in (t0, t1, t2))"

section \<open>Keys\<close>

text \<open>The accumulating comparison of \<^verbatim>\<open>isZero\<close>.\<close>

definition constantTimeByteEq :: "u8 \<Rightarrow> u8 \<Rightarrow> nat" where
  "constantTimeByteEq x y = (if x = y then 1 else 0)"

definition isZero :: "bytes \<Rightarrow> bool" where
  "isZero val = (fold (\<lambda>b acc. acc AND constantTimeByteEq b 0) val 1 = 1)"

definition clamp :: "bytes \<Rightarrow> bytes" where
  "clamp sk = sk[0 := sk ! 0 AND 248, 31 := (sk ! 31 AND 127) OR 64]"

definition newPrivateKey :: "tape \<Rightarrow> bytes \<times> tape" where
  "newPrivateKey t = (case drawBytes NoisePrivateKeySize t of (b, t') \<Rightarrow> (clamp b, t'))"

definition publicKeyOf :: "Crypto \<Rightarrow> bytes \<Rightarrow> bytes" where
  "publicKeyOf C sk = scalarBaseMult C sk"

text \<open>\<^const>\<open>None\<close> is \<^verbatim>\<open>errInvalidPublicKey\<close>; the array the Go function returns beside it is zero.\<close>

definition sharedSecret :: "Crypto \<Rightarrow> bytes \<Rightarrow> bytes \<Rightarrow> bytes option" where
  "sharedSecret C sk pk = (let ss = scalarMult C sk pk in if isZero ss then None else Some ss)"

datatype keyError = KeyBadHex | KeyDoesNotFit

definition loadExactHex :: "nat \<Rightarrow> string \<Rightarrow> keyError + bytes" where
  "loadExactHex n src =
     (case hexDecode src of None \<Rightarrow> Inl KeyBadHex
      | Some b \<Rightarrow> if length b \<noteq> n then Inl KeyDoesNotFit else Inr b)"

definition keyEquals :: "bytes \<Rightarrow> bytes \<Rightarrow> bool" where
  "keyEquals key tar \<longleftrightarrow> key = tar"

definition keyIsZero :: "bytes \<Rightarrow> bool" where
  "keyIsZero key \<longleftrightarrow> keyEquals key zeroKey"

text \<open>
  On an error the destination keeps its old value (and is clamped); the two callers parse into a fresh
  zero key and drop it on an error, so the result is the error alone.
\<close>

definition privateKeyFromHex :: "string \<Rightarrow> keyError + bytes" where
  "privateKeyFromHex src = map_sum id clamp (loadExactHex NoisePrivateKeySize src)"

definition privateKeyFromMaybeZeroHex :: "string \<Rightarrow> keyError + bytes" where
  "privateKeyFromMaybeZeroHex src =
     map_sum id (\<lambda>key. if keyIsZero key then key else clamp key) (loadExactHex NoisePrivateKeySize src)"

definition publicKeyFromHex :: "string \<Rightarrow> keyError + bytes" where
  "publicKeyFromHex src = loadExactHex NoisePublicKeySize src"

definition presharedKeyFromHex :: "string \<Rightarrow> keyError + bytes" where
  "presharedKeyFromHex src = loadExactHex NoisePresharedKeySize src"

section \<open>Transcript hash and chaining key\<close>

definition NoiseConstruction :: string where "NoiseConstruction = ''Noise_IKpsk2_25519_ChaChaPoly_BLAKE2s''"
definition WGIdentifier :: string where "WGIdentifier = ''WireGuard v1 zx2c4 Jason@zx2c4.com''"
definition WGLabelMAC1 :: string where "WGLabelMAC1 = ''mac1----''"
definition WGLabelCookie :: string where "WGLabelCookie = ''cookie--''"

definition mixKey :: "Crypto \<Rightarrow> bytes \<Rightarrow> bytes \<Rightarrow> bytes" where
  "mixKey C c input = KDF1 C c input"

definition mixHash :: "Crypto \<Rightarrow> bytes \<Rightarrow> bytes \<Rightarrow> bytes" where
  "mixHash C h input = blake2s256 C (h @ input)"

definition InitialChainKey :: "Crypto \<Rightarrow> bytes" where
  "InitialChainKey C = blake2s256 C (str_bytes NoiseConstruction)"

definition InitialHash :: "Crypto \<Rightarrow> bytes" where
  "InitialHash C = mixHash C (InitialChainKey C) (str_bytes WGIdentifier)"

section \<open>Lemmas\<close>

lemma isZero_iff: "isZero val \<longleftrightarrow> list_all (\<lambda>b. b = 0) val"
proof -
  have z: "fold (\<lambda>b acc. acc AND constantTimeByteEq b 0) bs 0 = 0" for bs by (induction bs) simp_all
  have "fold (\<lambda>b acc. acc AND constantTimeByteEq b 0) bs 1 = of_bool (list_all (\<lambda>b. b = 0) bs)" for bs
    by (induction bs) (simp_all add: constantTimeByteEq_def z [unfolded constantTimeByteEq_def])
  then show ?thesis by (simp add: isZero_def)
qed

lemma length_clamp [len_simps]: "length (clamp sk) = length sk"
  by (simp add: clamp_def)

lemma clamp_idem: "length sk = 32 \<Longrightarrow> clamp (clamp sk) = clamp sk"
  by (simp add: clamp_def and.assoc or.assoc bit.conj_disj_distrib2 list_update_swap [of 0 31])

lemma cryptoOK_len:
  assumes "cryptoOK C"
  shows "length (blake2s256 C m) = 32" "length (blake2s128 C k m) = 16" "length (scalarMult C a b) = 32"
    "length (scalarBaseMult C a) = 32" "length (aeadSeal C k n p ad) = length p + 16"
    "length (xaeadSeal C k n p ad) = length p + 16"
  using assms by (simp_all add: cryptoOK_def)

lemma cryptoOK_open:
  assumes "cryptoOK C"
  shows "aeadOpen C k n (aeadSeal C k n p ad) ad = Some p" "xaeadOpen C k n (xaeadSeal C k n p ad) ad = Some p"
  using assms by (simp_all add: cryptoOK_def)

lemma cryptoOK_openlen:
  assumes "cryptoOK C"
  shows "aeadOpen C k n c ad = Some p \<Longrightarrow> length c = length p + 16" "xaeadOpen C k n c ad = Some p \<Longrightarrow> length c = length p + 16"
  using assms by (simp_all add: cryptoOK_def)

lemma sharedSecret_comm:
  assumes "cryptoOK C" "length a = 32" "length b = 32"
  shows "sharedSecret C a (publicKeyOf C b) = sharedSecret C b (publicKeyOf C a)"
proof -
  have "scalarMult C a (scalarBaseMult C b) = scalarMult C b (scalarBaseMult C a)"
    using assms unfolding cryptoOK_def dhCommutes_def by metis
  then show ?thesis unfolding sharedSecret_def publicKeyOf_def by (rule arg_cong)
qed

lemma length_sharedSecret: "cryptoOK C \<Longrightarrow> sharedSecret C a b = Some ss \<Longrightarrow> length ss = 32"
  by (auto simp: sharedSecret_def Let_def cryptoOK_len(3) split: if_splits)

lemma length_newPrivateKey [len_simps]: "length (fst (newPrivateKey t)) = 32"
  by (simp add: newPrivateKey_def drawBytes_def len_simps size_defs)

end
