(* ===== verification/DeviceState.thy ===== *)
theory DeviceState
  imports Replay AllowedIPs MagicHeader Obf Ratelimiter NoiseCrypto
begin

text \<open>
  The state of the tunnel: the structs of \<^verbatim>\<open>device/device.go\<close>, \<^verbatim>\<open>device/peer.go\<close>,
  \<^verbatim>\<open>device/keypair.go\<close>, \<^verbatim>\<open>device/indextable.go\<close>, the handshake of \<^verbatim>\<open>device/noise-protocol.go\<close>, the cookie
  state of \<^verbatim>\<open>device/cookie.go\<close>, the timers of \<^verbatim>\<open>device/timers.go\<close> and the queue elements of
  \<^verbatim>\<open>device/send.go\<close> and \<^verbatim>\<open>device/receive.go\<close>. Peers and key pairs are objects with identity: a pointer to one
  is a number into a heap held by the device. A mutex makes each operation one step on this state.
\<close>

type_synonym peerId = nat
type_synonym kpId = nat

section \<open>Constants\<close>

definition RekeyAfterMessages :: u64 where "RekeyAfterMessages = 2 ^ 60"
definition RejectAfterMessages :: u64 where "RejectAfterMessages = - (2 ^ 13) - 1"
definition RekeyAfterTime :: int where "RekeyAfterTime = second * 120"
definition RekeyAttemptTime :: int where "RekeyAttemptTime = second * 90"
definition RekeyTimeout :: int where "RekeyTimeout = second * 5"
definition MaxTimerHandshakes :: u32 where "MaxTimerHandshakes = 18"
definition RekeyTimeoutJitterMaxMs :: nat where "RekeyTimeoutJitterMaxMs = 334"
definition RejectAfterTime :: int where "RejectAfterTime = second * 180"
definition KeepaliveTimeout :: int where "KeepaliveTimeout = second * 10"
definition CookieRefreshTime :: int where "CookieRefreshTime = second * 120"
definition HandshakeInitationRate :: int where "HandshakeInitationRate = second div 50"
definition PaddingMultiple :: nat where "PaddingMultiple = 16"
definition UnderLoadAfterTime :: int where "UnderLoadAfterTime = second"
definition MaxPeers :: nat where "MaxPeers = 2 ^ 16"

definition MessageUnknownType :: u32 where "MessageUnknownType = 0"
definition MessageInitiationType :: u32 where "MessageInitiationType = 1"
definition MessageResponseType :: u32 where "MessageResponseType = 2"
definition MessageCookieReplyType :: u32 where "MessageCookieReplyType = 3"
definition MessageTransportType :: u32 where "MessageTransportType = 4"

definition MessageInitiationSize :: nat where "MessageInitiationSize = 148"
definition MessageResponseSize :: nat where "MessageResponseSize = 92"
definition MessageCookieReplySize :: nat where "MessageCookieReplySize = 64"
definition MessageTransportHeaderSize :: nat where "MessageTransportHeaderSize = 16"
definition MessageTransportSize :: nat where "MessageTransportSize = MessageTransportHeaderSize + 16"
definition MessageKeepaliveSize :: nat where "MessageKeepaliveSize = MessageTransportSize"
definition MessageTransportOffsetReceiver :: nat where "MessageTransportOffsetReceiver = 4"
definition MessageTransportOffsetCounter :: nat where "MessageTransportOffsetCounter = 8"
definition MessageTransportOffsetContent :: nat where "MessageTransportOffsetContent = 16"

definition QueueStagedSize :: nat where "QueueStagedSize = 128"
definition QueueHandshakeSize :: nat where "QueueHandshakeSize = 1024"
definition MaxSegmentSize :: nat where "MaxSegmentSize = 2 ^ 16 - 1"
definition MinMessageSize :: nat where "MinMessageSize = MessageKeepaliveSize"
definition MaxMessageSize :: nat where "MaxMessageSize = MaxSegmentSize"

lemmas time_consts = RekeyAfterTime_def RekeyAttemptTime_def RekeyTimeout_def RejectAfterTime_def KeepaliveTimeout_def
  CookieRefreshTime_def HandshakeInitationRate_def UnderLoadAfterTime_def second_def
lemmas type_consts = MessageUnknownType_def MessageInitiationType_def MessageResponseType_def MessageCookieReplyType_def
  MessageTransportType_def
lemmas msg_consts = MessageInitiationSize_def MessageResponseSize_def MessageCookieReplySize_def
  MessageTransportHeaderSize_def MessageTransportSize_def MessageKeepaliveSize_def MessageTransportOffsetReceiver_def
  MessageTransportOffsetCounter_def MessageTransportOffsetContent_def MinMessageSize_def MaxMessageSize_def MaxSegmentSize_def

section \<open>Handshake, key pairs and cookies\<close>

datatype handshakeState = handshakeZeroed | handshakeInitiationCreated | handshakeInitiationConsumed
  | handshakeResponseCreated | handshakeResponseConsumed

record Handshake =
  hsState :: handshakeState
  hsHash :: bytes
  chainKey :: bytes
  presharedKey :: bytes
  localEphemeral :: bytes
  localIndex :: u32
  remoteIndex :: u32
  remoteStatic :: bytes
  remoteEphemeral :: bytes
  precomputedStaticStatic :: bytes
  lastTimestamp :: bytes
  lastInitiationConsumption :: gotime
  lastSentHandshake :: gotime

definition zeroHandshake :: Handshake where
  "zeroHandshake = \<lparr>hsState = handshakeZeroed, hsHash = zeroKey, chainKey = zeroKey, presharedKey = zeroKey,
     localEphemeral = zeroKey, localIndex = 0, remoteIndex = 0, remoteStatic = zeroKey, remoteEphemeral = zeroKey,
     precomputedStaticStatic = zeroKey, lastTimestamp = replicate TimestampSize 0,
     lastInitiationConsumption = zeroTime, lastSentHandshake = zeroTime\<rparr>"

text \<open>The two AEAD instances of a key pair are their keys.\<close>

record Keypair =
  sendNonce :: u64
  kpSend :: bytes
  kpReceive :: bytes
  replayFilter :: Filter
  isInitiator :: bool
  created :: gotime
  kpLocalIndex :: u32
  kpRemoteIndex :: u32

definition zeroKeypair :: Keypair where
  "zeroKeypair = \<lparr>sendNonce = 0, kpSend = zeroKey, kpReceive = zeroKey, replayFilter = zeroFilter, isInitiator = False,
     created = zeroTime, kpLocalIndex = 0, kpRemoteIndex = 0\<rparr>"

record CookieChecker =
  ckMac1Key :: bytes
  ckSecret :: bytes
  ckSecretSet :: gotime
  ckEncryptionKey :: bytes

record CookieGenerator =
  cgMac1Key :: bytes
  cgCookie :: bytes
  cgCookieSet :: gotime
  cgHasLastMAC1 :: bool
  cgLastMAC1 :: bytes
  cgEncryptionKey :: bytes

definition zeroCookieGenerator :: CookieGenerator where
  "zeroCookieGenerator = \<lparr>cgMac1Key = zeroKey, cgCookie = replicate 16 0, cgCookieSet = zeroTime, cgHasLastMAC1 = False,
     cgLastMAC1 = replicate 16 0, cgEncryptionKey = zeroKey\<rparr>"

definition zeroCookieChecker :: CookieChecker where
  "zeroCookieChecker = \<lparr>ckMac1Key = zeroKey, ckSecret = zeroKey, ckSecretSet = zeroTime, ckEncryptionKey = zeroKey\<rparr>"

record IndexTableEntry =
  entryPeer :: "peerId option"
  entryHandshake :: "peerId option"
  entryKeypair :: "kpId option"

section \<open>Endpoints, timers and queue elements\<close>

text \<open>\<^verbatim>\<open>conn.StdNetEndpoint\<close>: the destination address with its zone, the port, and the sticky source, if any.\<close>

record Endpoint =
  dstAddr :: bytes
  dstZone :: string
  dstPort :: u16
  epSrc :: "bytes option"

text \<open>
  A timer: its pending flag, the instant the runtime timer is armed for, and the callbacks the runtime
  has started that have not yet taken the lock.
\<close>

record Timer =
  isPending :: bool
  armedFor :: "gotime option"
  fired :: nat

definition stoppedTimer :: Timer where
  "stoppedTimer = \<lparr>isPending = False, armedFor = None, fired = 0\<rparr>"

text \<open>
  An outbound element has the packet it carries (the buffer in front of it is room for the header), its
  nonce and its key pair; an inbound one the packet, which is nil once decryption has failed.
\<close>

record OutElem =
  oePacket :: bytes
  oeNonce :: u64
  oeKeypair :: "kpId option"

record InElem =
  iePacket :: "bytes option"
  ieCounter :: u64
  ieKeypair :: kpId
  ieEndpoint :: Endpoint

record HandshakeElem =
  heMsgType :: u32
  hePacket :: bytes
  heEndpoint :: Endpoint

section \<open>Peers and the device\<close>

text \<open>
  The containers in \<open>outbound\<close> and \<open>inbound\<close> carry the state of their lock: \<^const>\<open>True\<close> once a worker has
  encrypted or decrypted the elements and released it.
\<close>

record Peer =
  isRunning :: bool
  kpCurrent :: "kpId option"
  kpPrevious :: "kpId option"
  kpNext :: "kpId option"
  handshake :: Handshake
  txBytes :: u64
  rxBytes :: u64
  lastHandshakeNano :: int
  epVal :: "Endpoint option"
  clearSrcOnTx :: bool
  disableRoaming :: bool
  retransmitHandshake :: Timer
  sendKeepalive :: Timer
  newHandshake :: Timer
  zeroKeyMaterial :: Timer
  persistentKeepalive :: Timer
  handshakeAttempts :: u32
  needAnotherKeepalive :: bool
  sentLastMinuteHandshake :: bool
  staged :: "OutElem list list"
  outbound :: "(OutElem list \<times> bool) list"
  inbound :: "(InElem list \<times> bool) list"
  cookieGenerator :: CookieGenerator
  persistentKeepaliveInterval :: u32

text \<open>\<^verbatim>\<open>new(Peer)\<close> with its timers made and stopped.\<close>

definition zeroPeer :: Peer where
  "zeroPeer = \<lparr>isRunning = False, kpCurrent = None, kpPrevious = None, kpNext = None, handshake = zeroHandshake,
     txBytes = 0, rxBytes = 0, lastHandshakeNano = 0, epVal = None, clearSrcOnTx = False, disableRoaming = False,
     retransmitHandshake = stoppedTimer, sendKeepalive = stoppedTimer, newHandshake = stoppedTimer,
     zeroKeyMaterial = stoppedTimer, persistentKeepalive = stoppedTimer, handshakeAttempts = 0,
     needAnotherKeepalive = False, sentLastMinuteHandshake = False, staged = [], outbound = [], inbound = [],
     cookieGenerator = zeroCookieGenerator, persistentKeepaliveInterval = 0\<rparr>"

datatype deviceState = deviceStateDown | deviceStateUp | deviceStateClosed

text \<open>
  The ghost parts are last: the clock, the entropy the device has left, the number of calls made to the
  network bind, what was sent to the network, what was written to the TUN device, and the nonces used
  for encryption under each key pair.
\<close>

record Device =
  devState :: deviceState
  netPort :: u16
  fwmark :: u32
  brokenRoaming :: bool
  privateKey :: bytes
  publicKey :: bytes
  keyMap :: "(bytes \<times> peerId) list"
  underLoadUntil :: int
  limiter :: "(bytes \<times> string) Ratelimiter"
  allowedips :: "peerId AllowedIPs"
  indexTable :: "u32 \<rightharpoonup> IndexTableEntry"
  cookieChecker :: CookieChecker
  handshakeQueue :: "HandshakeElem list"
  mtu :: int
  junkMin :: int
  junkMax :: int
  junkCount :: int
  hdrInit :: magicHeader
  hdrResponse :: magicHeader
  hdrCookie :: magicHeader
  hdrTransport :: magicHeader
  padInit :: nat
  padResponse :: nat
  padCookie :: nat
  padTransport :: nat
  ipackets :: "obfChain option list"
  imitateMode :: imitateProto
  junkCounter :: u64
  peers :: "peerId \<Rightarrow> Peer"
  nextPeer :: peerId
  keypairs :: "kpId \<Rightarrow> Keypair"
  nextKp :: kpId
  clock :: gotime
  entropy :: tape
  netCalls :: nat
  sent :: "(bytes list \<times> Endpoint) list"
  tunOut :: "bytes list"
  usedNonces :: "(kpId \<times> u64) list"

text \<open>
  The network bind and the route listener, which reach the operating system: their answer to the \<open>n\<close>-th
  call. \<^verbatim>\<open>Send\<close> succeeds, fails, or reports that it switched segmentation offload off and whether its retry
  succeeded; \<^verbatim>\<open>Open\<close> gives the port, or nothing on an error; the others say whether they succeed.
\<close>

datatype bindResult = BindOK | BindErr | BindGSODisabled bool

record Net =
  bindSend :: "nat \<Rightarrow> bindResult"
  bindOpen :: "nat \<Rightarrow> u16 \<Rightarrow> u16 option"
  bindClose :: "nat \<Rightarrow> bool"
  bindSetMark :: "nat \<Rightarrow> u32 \<Rightarrow> bool"
  startRouteListener :: "nat \<Rightarrow> bool"

text \<open>
  \<^verbatim>\<open>NewDevice\<close>: the MTU the TUN device reports (the default when it reports an error), empty tables, the
  standard message types as headers. The clock and the entropy are what the device meets.
\<close>

definition DefaultMTU :: int where "DefaultMTU = 1420"

definition NewDevice :: "int option \<Rightarrow> gotime \<Rightarrow> tape \<Rightarrow> Device" where
  "NewDevice tunMTU now t =
     \<lparr>devState = deviceStateDown, netPort = 0, fwmark = 0, brokenRoaming = False, privateKey = zeroKey, publicKey = zeroKey,
      keyMap = [], underLoadUntil = 0, limiter = rateInit, allowedips = emptyAllowedIPs, indexTable = Map.empty,
      cookieChecker = zeroCookieChecker, handshakeQueue = [],
      mtu = (case tunMTU of None \<Rightarrow> DefaultMTU | Some m \<Rightarrow> m),
      junkMin = 0, junkMax = 0, junkCount = 0,
      hdrInit = \<lparr>mhStart = MessageInitiationType, mhEnd = MessageInitiationType\<rparr>,
      hdrResponse = \<lparr>mhStart = MessageResponseType, mhEnd = MessageResponseType\<rparr>,
      hdrCookie = \<lparr>mhStart = MessageCookieReplyType, mhEnd = MessageCookieReplyType\<rparr>,
      hdrTransport = \<lparr>mhStart = MessageTransportType, mhEnd = MessageTransportType\<rparr>,
      padInit = 0, padResponse = 0, padCookie = 0, padTransport = 0, ipackets = replicate 5 None,
      imitateMode = imitateNone, junkCounter = 0, peers = (\<lambda>_. zeroPeer), nextPeer = 0,
      keypairs = (\<lambda>_. zeroKeypair), nextKp = 0, clock = now, entropy = t, netCalls = 0, sent = [], tunOut = [],
      usedNonces = []\<rparr>"

section \<open>Access\<close>

definition upPeer :: "peerId \<Rightarrow> (Peer \<Rightarrow> Peer) \<Rightarrow> Device \<Rightarrow> Device" where
  "upPeer p f d = d\<lparr>peers := (peers d)(p := f (peers d p))\<rparr>"

definition upHandshake :: "peerId \<Rightarrow> (Handshake \<Rightarrow> Handshake) \<Rightarrow> Device \<Rightarrow> Device" where
  "upHandshake p f d = upPeer p (\<lambda>q. q\<lparr>handshake := f (handshake q)\<rparr>) d"

definition upKeypair :: "kpId \<Rightarrow> (Keypair \<Rightarrow> Keypair) \<Rightarrow> Device \<Rightarrow> Device" where
  "upKeypair k f d = d\<lparr>keypairs := (keypairs d)(k := f (keypairs d k))\<rparr>"

text \<open>\<^verbatim>\<open>time.Since\<close> and \<^verbatim>\<open>rand\<close> against the device's clock and entropy.\<close>

definition timeSince :: "Device \<Rightarrow> gotime \<Rightarrow> int" where
  "timeSince d t = timeSub (clock d) t"

definition randRead :: "nat \<Rightarrow> Device \<Rightarrow> bytes \<times> Device" where
  "randRead n d = (case drawBytes n (entropy d) of (b, t) \<Rightarrow> (b, d\<lparr>entropy := t\<rparr>))"

definition fastrandn :: "nat \<Rightarrow> Device \<Rightarrow> nat \<times> Device" where
  "fastrandn n d = (entropy d 0 mod n, d\<lparr>entropy := (\<lambda>i. entropy d (i + 1))\<rparr>)"

definition generateHeader :: "magicHeader \<Rightarrow> Device \<Rightarrow> (u32 \<times> Device) option" where
  "generateHeader h d = map_option (\<lambda>v. (v, d\<lparr>entropy := (\<lambda>i. entropy d (i + 1))\<rparr>)) (Generate (entropy d 0) h)"

definition isClosed :: "Device \<Rightarrow> bool" where "isClosed d \<longleftrightarrow> devState d = deviceStateClosed"
definition isUp :: "Device \<Rightarrow> bool" where "isUp d \<longleftrightarrow> devState d = deviceStateUp"

definition LookupPeer :: "bytes \<Rightarrow> Device \<Rightarrow> peerId option" where
  "LookupPeer pk d = map_of (keyMap d) pk"

lemmas access_defs = upPeer_def upHandshake_def upKeypair_def

end
