(* ===== verification/IndexTable.thy ===== *)
theory IndexTable
  imports DeviceState
begin

text \<open>
  The table from receiver indices to peers of \<^verbatim>\<open>device/indextable.go\<close> and the deletion of key pairs of
  \<^verbatim>\<open>device/keypair.go\<close>. \<^verbatim>\<open>NewIndexForHandshake\<close> draws indices until one is free; it may draw forever, so it is
  a partial function, and the theory says exactly when it returns and what.
\<close>

section \<open>Operations\<close>

definition randUint32 :: "tape \<Rightarrow> u32 \<times> tape" where
  "randUint32 t = (case drawBytes 4 t of (b, t') \<Rightarrow> (get_le32 b, t'))"

definition indexDelete :: "u32 \<Rightarrow> Device \<Rightarrow> Device" where
  "indexDelete index d = d\<lparr>indexTable := (indexTable d)(index := None)\<rparr>"

definition SwapIndexForKeypair :: "u32 \<Rightarrow> kpId \<Rightarrow> Device \<Rightarrow> Device" where
  "SwapIndexForKeypair index k d =
     (case indexTable d index of
        None \<Rightarrow> d
      | Some entry \<Rightarrow> d\<lparr>indexTable := (indexTable d)(index \<mapsto>
          \<lparr>entryPeer = entryPeer entry, entryHandshake = None, entryKeypair = Some k\<rparr>)\<rparr>)"

text \<open>The loop that looks for a free index.\<close>

partial_function (option) freshIndex :: "(u32 \<rightharpoonup> IndexTableEntry) \<Rightarrow> tape \<Rightarrow> (u32 \<times> tape) option" where
  "freshIndex tab t =
     (if tab (fst (randUint32 t)) \<noteq> None then freshIndex tab (snd (randUint32 t)) else Some (randUint32 t))"

declare freshIndex.simps [code]

definition NewIndexForHandshake :: "peerId \<Rightarrow> Device \<Rightarrow> (u32 \<times> Device) option" where
  "NewIndexForHandshake p d =
     map_option (\<lambda>(index, t). (index, d\<lparr>entropy := t, indexTable := (indexTable d)(index \<mapsto>
         \<lparr>entryPeer = Some p, entryHandshake = Some p, entryKeypair = None\<rparr>)\<rparr>))
       (freshIndex (indexTable d) (entropy d))"

definition indexLookup :: "u32 \<Rightarrow> Device \<Rightarrow> IndexTableEntry" where
  "indexLookup i d = (case indexTable d i of
     None \<Rightarrow> \<lparr>entryPeer = None, entryHandshake = None, entryKeypair = None\<rparr> | Some e \<Rightarrow> e)"

definition DeleteKeypair :: "kpId option \<Rightarrow> Device \<Rightarrow> Device" where
  "DeleteKeypair kp d = (case kp of None \<Rightarrow> d | Some k \<Rightarrow> indexDelete (kpLocalIndex (keypairs d k)) d)"

section \<open>When a fresh index is found\<close>

text \<open>The \<open>n\<close>-th index the entropy offers and what is left after it.\<close>

definition tapeIndex :: "tape \<Rightarrow> nat \<Rightarrow> u32" where
  "tapeIndex t n = fst (randUint32 (\<lambda>i. t (i + 4 * n)))"

definition tapeAfter :: "tape \<Rightarrow> nat \<Rightarrow> tape" where
  "tapeAfter t n = (\<lambda>i. t (i + 4 * n))"

lemma snd_randUint32: "snd (randUint32 t) = tapeAfter t (Suc 0)"
  by (simp add: randUint32_def drawBytes_def tapeAfter_def)

lemma tapeIndex_Suc: "tapeIndex (tapeAfter t (Suc 0)) n = tapeIndex t (Suc n)"
  by (simp add: tapeIndex_def tapeAfter_def algebra_simps)

lemma tapeAfter_Suc: "tapeAfter (tapeAfter t (Suc 0)) n = tapeAfter t (Suc n)"
  by (simp add: tapeAfter_def algebra_simps)

lemma freshIndex_at:
  "tab (tapeIndex t n) = None \<Longrightarrow> (\<And>m. m < n \<Longrightarrow> tab (tapeIndex t m) \<noteq> None) \<Longrightarrow>
    freshIndex tab t = Some (tapeIndex t n, tapeAfter t (Suc n))"
proof (induction n arbitrary: t)
  case 0
  then show ?case by (subst freshIndex.simps) (simp add: tapeIndex_def prod_eq_iff snd_randUint32)
next
  case (Suc n)
  have "tab (fst (randUint32 t)) \<noteq> None" using Suc.prems(2) [of 0] by (simp add: tapeIndex_def)
  then have "freshIndex tab t = freshIndex tab (tapeAfter t (Suc 0))" by (subst freshIndex.simps) (simp add: snd_randUint32)
  also have "\<dots> = Some (tapeIndex t (Suc n), tapeAfter t (Suc (Suc n)))"
    using Suc.IH [of "tapeAfter t (Suc 0)"] Suc.prems(1) Suc.prems(2) [of "Suc _"] by (simp add: tapeIndex_Suc tapeAfter_Suc)
  finally show ?case .
qed

lemma freshIndex_Some:
  assumes "freshIndex tab t = Some r"
  shows "\<exists>n. fst r = tapeIndex t n \<and> tab (fst r) = None"
proof (rule freshIndex.raw_induct [of "\<lambda>tab t r. \<exists>n. fst r = tapeIndex t n \<and> tab (fst r) = None", OF _ assms])
  fix f tab t r
  assume 1: "\<And>tab t r. f tab t = Some r \<Longrightarrow> \<exists>n. fst r = tapeIndex t n \<and> tab (fst r) = None"
    "(if tab (fst (randUint32 t)) \<noteq> None then f tab (snd (randUint32 t)) else Some (randUint32 t)) = Some r"
  show "\<exists>n. fst r = tapeIndex t n \<and> tab (fst r) = None"
  proof (cases "tab (fst (randUint32 t)) = None")
    case True
    then show ?thesis using 1(2) by (auto simp: tapeIndex_def intro: exI [of _ 0])
  next
    case False
    then show ?thesis using 1(1) [of tab "snd (randUint32 t)" r] 1(2) by (auto simp: snd_randUint32 tapeIndex_Suc)
  qed
qed

text \<open>
  C27: \<^verbatim>\<open>NewIndexForHandshake\<close> returns exactly when the entropy ever offers an index that is not in the table,
  and then it returns the first such index, maps it to the peer's handshake and leaves every other
  entry as it was; so an index in use is never given out again.
\<close>

theorem NewIndexForHandshake_fresh:
  "(NewIndexForHandshake p d \<noteq> None \<longleftrightarrow> (\<exists>n. indexTable d (tapeIndex (entropy d) n) = None)) \<and>
   (\<forall>i d'. NewIndexForHandshake p d = Some (i, d') \<longrightarrow>
      indexTable d i = None \<and> indexLookup i d' = \<lparr>entryPeer = Some p, entryHandshake = Some p, entryKeypair = None\<rparr> \<and>
      (\<forall>j. j \<noteq> i \<longrightarrow> indexLookup j d' = indexLookup j d) \<and>
      i = tapeIndex (entropy d) (LEAST n. indexTable d (tapeIndex (entropy d) n) = None))"
proof (cases "\<exists>n. indexTable d (tapeIndex (entropy d) n) = None")
  case True
  define n where "n = (LEAST n. indexTable d (tapeIndex (entropy d) n) = None)"
  have "indexTable d (tapeIndex (entropy d) n) = None" using LeastI_ex [OF True] by (simp add: n_def)
  moreover have "indexTable d (tapeIndex (entropy d) m) \<noteq> None" if "m < n" for m
    using not_less_Least that by (auto simp: n_def)
  ultimately have "freshIndex (indexTable d) (entropy d) = Some (tapeIndex (entropy d) n, tapeAfter (entropy d) (Suc n))"
    by (rule freshIndex_at)
  then show ?thesis
    using True \<open>indexTable d (tapeIndex (entropy d) n) = None\<close>
    by (auto simp: NewIndexForHandshake_def indexLookup_def n_def [symmetric])
next
  case False
  then have "freshIndex (indexTable d) (entropy d) \<noteq> Some r" for r
    using freshIndex_Some [of "indexTable d" "entropy d" r] by metis
  then have "freshIndex (indexTable d) (entropy d) = None" by blast
  then show ?thesis using False by (auto simp: NewIndexForHandshake_def)
qed

theorem NewIndexForHandshake_fresh_witness:
  "\<exists>d'. NewIndexForHandshake 7 (NewDevice None 0 (\<lambda>i. i)) = Some (0x03020100, d') \<and>
     indexLookup 0x03020100 d' = \<lparr>entryPeer = Some 7, entryHandshake = Some 7, entryKeypair = None\<rparr>"
proof -
  let ?d = "NewDevice None 0 (\<lambda>i. i)"
  have e: "indexTable ?d = Map.empty" "entropy ?d = (\<lambda>i. i)" by (simp_all add: NewDevice_def)
  obtain i d' where "NewIndexForHandshake 7 ?d = Some (i, d')"
      "i = tapeIndex (\<lambda>i. i) (LEAST n. Map.empty (tapeIndex (\<lambda>i. i) n) = None)"
      "indexLookup i d' = \<lparr>entryPeer = Some 7, entryHandshake = Some 7, entryKeypair = None\<rparr>"
    using NewIndexForHandshake_fresh [of 7 ?d] e by fastforce
  moreover have "tapeIndex (\<lambda>i. i) 0 = 0x03020100" by code_simp
  ultimately show ?thesis by auto
qed

end
