(* ===== verification/Noise.thy ===== *)
theory Noise
  imports IndexTable
begin

text \<open>
  The Noise handshake of \<^verbatim>\<open>device/noise-protocol.go\<close>: the four messages and their wire format, the
  creation and consumption of initiations and responses, the derivation of a key pair and the rotation
  of key pairs. The theory proves that two devices that run the handshake with each other agree on
  their transport keys, and that a consumed initiation is never accepted again.
\<close>

section \<open>Messages\<close>

record MessageInitiation =
  miType :: u32
  miSender :: u32
  miEphemeral :: bytes
  miStatic :: bytes
  miTimestamp :: bytes
  miMAC1 :: bytes
  miMAC2 :: bytes

record MessageResponse =
  mrType :: u32
  mrSender :: u32
  mrReceiver :: u32
  mrEphemeral :: bytes
  mrEmpty :: bytes
  mrMAC1 :: bytes
  mrMAC2 :: bytes

record MessageCookieReply =
  mcType :: u32
  mcReceiver :: u32
  mcNonce :: bytes
  mcCookie :: bytes

text \<open>\<^verbatim>\<open>binary.Write\<close> and \<^verbatim>\<open>binary.Read\<close> of the structs, little-endian, field by field.\<close>

definition marshalInitiation :: "MessageInitiation \<Rightarrow> bytes" where
  "marshalInitiation m = put_le32 (miType m) @ put_le32 (miSender m) @ miEphemeral m @ miStatic m @ miTimestamp m @ miMAC1 m @ miMAC2 m"

definition unmarshalInitiation :: "bytes \<Rightarrow> MessageInitiation option" where
  "unmarshalInitiation b =
     (if length b < MessageInitiationSize then None
      else Some \<lparr>miType = get_le32 b, miSender = get_le32 (drop 4 b), miEphemeral = subslice 8 40 b, miStatic = subslice 40 88 b,
        miTimestamp = subslice 88 116 b, miMAC1 = subslice 116 132 b, miMAC2 = subslice 132 148 b\<rparr>)"

definition marshalResponse :: "MessageResponse \<Rightarrow> bytes" where
  "marshalResponse m = put_le32 (mrType m) @ put_le32 (mrSender m) @ put_le32 (mrReceiver m) @ mrEphemeral m @ mrEmpty m @ mrMAC1 m @ mrMAC2 m"

definition unmarshalResponse :: "bytes \<Rightarrow> MessageResponse option" where
  "unmarshalResponse b =
     (if length b < MessageResponseSize then None
      else Some \<lparr>mrType = get_le32 b, mrSender = get_le32 (drop 4 b), mrReceiver = get_le32 (drop 8 b), mrEphemeral = subslice 12 44 b,
        mrEmpty = subslice 44 60 b, mrMAC1 = subslice 60 76 b, mrMAC2 = subslice 76 92 b\<rparr>)"

definition marshalCookieReply :: "MessageCookieReply \<Rightarrow> bytes" where
  "marshalCookieReply m = put_le32 (mcType m) @ put_le32 (mcReceiver m) @ mcNonce m @ mcCookie m"

definition unmarshalCookieReply :: "bytes \<Rightarrow> MessageCookieReply option" where
  "unmarshalCookieReply b =
     (if length b < MessageCookieReplySize then None
      else Some \<lparr>mcType = get_le32 b, mcReceiver = get_le32 (drop 4 b), mcNonce = subslice 8 32 b, mcCookie = subslice 32 64 b\<rparr>)"

section \<open>Handshake operations\<close>

definition handshakeClear :: "Handshake \<Rightarrow> Handshake" where
  "handshakeClear h = h\<lparr>localEphemeral := zeroKey, remoteEphemeral := zeroKey, chainKey := zeroKey, hsHash := zeroKey,
     localIndex := 0, hsState := handshakeZeroed\<rparr>"

definition hsMixHash :: "Crypto \<Rightarrow> bytes \<Rightarrow> Handshake \<Rightarrow> Handshake" where
  "hsMixHash C b h = h\<lparr>hsHash := mixHash C (hsHash h) b\<rparr>"

definition hsMixKey :: "Crypto \<Rightarrow> bytes \<Rightarrow> Handshake \<Rightarrow> Handshake" where
  "hsMixKey C b h = h\<lparr>chainKey := mixKey C (chainKey h) b\<rparr>"

datatype noiseError = errInvalidPublicKey | errInitiationNotConsumed | errInvalidState handshakeState

definition setHandshake :: "peerId \<Rightarrow> Handshake \<Rightarrow> Device \<Rightarrow> Device" where
  "setHandshake p h d = upHandshake p (\<lambda>_. h) d"

text \<open>
  \<^verbatim>\<open>CreateMessageInitiation\<close>. The outer \<^const>\<open>None\<close> is a panic of the header generator or an index draw
  that never ends; an error leaves the handshake as far as it was changed.
\<close>

definition CreateMessageInitiation ::
  "Crypto \<Rightarrow> peerId \<Rightarrow> Device \<Rightarrow> ((noiseError + MessageInitiation) \<times> Device) option"
where
  "CreateMessageInitiation C p d =
     (let (sk, t) = newPrivateKey (entropy d);
          h = (handshake (peers d p))\<lparr>hsHash := InitialHash C, chainKey := InitialChainKey C, localEphemeral := sk\<rparr>;
          h = hsMixHash C (remoteStatic h) h;
          d = d\<lparr>entropy := t\<rparr>
      in case generateHeader (hdrInit d) d of
        None \<Rightarrow> None
      | Some (msgType, d) \<Rightarrow>
        let eph = publicKeyOf C sk;
            h = hsMixHash C eph (hsMixKey C eph h)
        in case sharedSecret C sk (remoteStatic h) of
          None \<Rightarrow> Some (Inl errInvalidPublicKey, setHandshake p h d)
        | Some ss \<Rightarrow>
          let (ck, k) = KDF2 C (chainKey h) ss;
              static = aeadSeal C k ZeroNonce (publicKey d) (hsHash h);
              h = hsMixHash C static (h\<lparr>chainKey := ck\<rparr>)
          in if isZero (precomputedStaticStatic h) then Some (Inl errInvalidPublicKey, setHandshake p h d)
          else
            let (ck, k) = KDF2 C (chainKey h) (precomputedStaticStatic h);
                ts = aeadSeal C k ZeroNonce (stamp (clock d)) (hsHash h);
                h = h\<lparr>chainKey := ck\<rparr>
            in case NewIndexForHandshake p (indexDelete (localIndex h) d) of
              None \<Rightarrow> None
            | Some (sender, d) \<Rightarrow>
                let h = (hsMixHash C ts (h\<lparr>localIndex := sender\<rparr>))\<lparr>hsState := handshakeInitiationCreated\<rparr>
                in Some (Inr \<lparr>miType = msgType, miSender = sender, miEphemeral = eph, miStatic = static, miTimestamp = ts,
                     miMAC1 = replicate 16 0, miMAC2 = replicate 16 0\<rparr>, setHandshake p h d))"

text \<open>\<^verbatim>\<open>ConsumeMessageInitiation\<close>: the peer the initiation authenticates, if any.\<close>

definition ConsumeMessageInitiation :: "Crypto \<Rightarrow> MessageInitiation \<Rightarrow> Device \<Rightarrow> peerId option \<times> Device" where
  "ConsumeMessageInitiation C msg d =
     (if miType msg \<noteq> MessageInitiationType then (None, d)
      else
        let hash = mixHash C (mixHash C (InitialHash C) (publicKey d)) (miEphemeral msg);
            ck = mixKey C (InitialChainKey C) (miEphemeral msg)
        in case sharedSecret C (privateKey d) (miEphemeral msg) of
          None \<Rightarrow> (None, d)
        | Some ss \<Rightarrow>
          let (ck, k) = KDF2 C ck ss
          in case aeadOpen C k ZeroNonce (miStatic msg) hash of
            None \<Rightarrow> (None, d)
          | Some peerPK \<Rightarrow>
            let hash = mixHash C hash (miStatic msg)
            in case LookupPeer peerPK d of
              None \<Rightarrow> (None, d)
            | Some p \<Rightarrow>
              let h = handshake (peers d p)
              in if \<not> isRunning (peers d p) \<or> isZero (precomputedStaticStatic h) then (None, d)
              else
                let (ck, k) = KDF2 C ck (precomputedStaticStatic h)
                in case aeadOpen C k ZeroNonce (miTimestamp msg) hash of
                  None \<Rightarrow> (None, d)
                | Some timestamp \<Rightarrow>
                  let hash = mixHash C hash (miTimestamp msg);
                      replay = (\<not> After timestamp (lastTimestamp h));
                      flood = (timeSince d (lastInitiationConsumption h) \<le> HandshakeInitationRate)
                  in if replay \<or> flood then (None, d)
                  else
                    let h = h\<lparr>hsHash := hash, chainKey := ck, remoteIndex := miSender msg, remoteEphemeral := miEphemeral msg\<rparr>;
                        h = (if After timestamp (lastTimestamp h) then h\<lparr>lastTimestamp := timestamp\<rparr> else h);
                        h = (if clock d > lastInitiationConsumption h then h\<lparr>lastInitiationConsumption := clock d\<rparr> else h);
                        h = h\<lparr>hsState := handshakeInitiationConsumed\<rparr>
                    in (Some p, setHandshake p h d))"

definition CreateMessageResponse ::
  "Crypto \<Rightarrow> peerId \<Rightarrow> Device \<Rightarrow> ((noiseError + MessageResponse) \<times> Device) option"
where
  "CreateMessageResponse C p d =
     (let h = handshake (peers d p)
      in if hsState h \<noteq> handshakeInitiationConsumed then Some (Inl errInitiationNotConsumed, d)
      else case NewIndexForHandshake p (indexDelete (localIndex h) d) of
        None \<Rightarrow> None
      | Some (index, d) \<Rightarrow>
        let h = h\<lparr>localIndex := index\<rparr>
        in case generateHeader (hdrResponse d) d of
          None \<Rightarrow> None
        | Some (msgType, d) \<Rightarrow>
          let (sk, t) = newPrivateKey (entropy d);
              d = d\<lparr>entropy := t\<rparr>;
              eph = publicKeyOf C sk;
              h = hsMixKey C eph (hsMixHash C eph (h\<lparr>localEphemeral := sk\<rparr>))
          in case sharedSecret C sk (remoteEphemeral h) of
            None \<Rightarrow> Some (Inl errInvalidPublicKey, setHandshake p h d)
          | Some ss \<Rightarrow>
            let h = hsMixKey C ss h
            in case sharedSecret C sk (remoteStatic h) of
              None \<Rightarrow> Some (Inl errInvalidPublicKey, setHandshake p h d)
            | Some ss \<Rightarrow>
              let h = hsMixKey C ss h;
                  (ck, tau, k) = KDF3 C (chainKey h) (presharedKey h);
                  h = hsMixHash C tau (h\<lparr>chainKey := ck\<rparr>);
                  em = aeadSeal C k ZeroNonce [] (hsHash h);
                  h = (hsMixHash C em h)\<lparr>hsState := handshakeResponseCreated\<rparr>
              in Some (Inr \<lparr>mrType = msgType, mrSender = localIndex h, mrReceiver = remoteIndex h, mrEphemeral = eph, mrEmpty = em,
                   mrMAC1 = replicate 16 0, mrMAC2 = replicate 16 0\<rparr>, setHandshake p h d))"

text \<open>The transcript and chaining key a response gives, or nothing when it is not authentic.\<close>

definition responseKeys :: "Crypto \<Rightarrow> bytes \<Rightarrow> Handshake \<Rightarrow> MessageResponse \<Rightarrow> (bytes \<times> bytes) option" where
  "responseKeys C sk h msg =
     (if hsState h \<noteq> handshakeInitiationCreated then None
      else
        let hash = mixHash C (hsHash h) (mrEphemeral msg);
            ck = mixKey C (chainKey h) (mrEphemeral msg)
        in case sharedSecret C (localEphemeral h) (mrEphemeral msg) of
          None \<Rightarrow> None
        | Some ss \<Rightarrow>
          let ck = mixKey C ck ss
          in case sharedSecret C sk (mrEphemeral msg) of
            None \<Rightarrow> None
          | Some ss \<Rightarrow>
            let ck = mixKey C ck ss;
                (ck, tau, k) = KDF3 C ck (presharedKey h);
                hash = mixHash C hash tau
            in case aeadOpen C k ZeroNonce (mrEmpty msg) hash of
              None \<Rightarrow> None
            | Some _ \<Rightarrow> Some (mixHash C hash (mrEmpty msg), ck))"

definition ConsumeMessageResponse :: "Crypto \<Rightarrow> MessageResponse \<Rightarrow> Device \<Rightarrow> peerId option \<times> Device" where
  "ConsumeMessageResponse C msg d =
     (if mrType msg \<noteq> MessageResponseType then (None, d)
      else
        let lookup = indexLookup (mrReceiver msg) d
        in case entryHandshake lookup of
          None \<Rightarrow> (None, d)
        | Some q \<Rightarrow>
          (case responseKeys C (privateKey d) (handshake (peers d q)) msg of
            None \<Rightarrow> (None, d)
          | Some (hash, ck) \<Rightarrow>
            (entryPeer lookup,
             upHandshake q (\<lambda>h. h\<lparr>hsHash := hash, chainKey := ck, remoteIndex := mrSender msg,
               hsState := handshakeResponseConsumed\<rparr>) d)))"

section \<open>Key pairs\<close>

text \<open>The slots of a peer after a session is derived, and which old key pairs are deleted, in order.\<close>

definition rotateKeypairs :: "bool \<Rightarrow> kpId \<Rightarrow> Peer \<Rightarrow> Peer \<times> kpId option list" where
  "rotateKeypairs initiator k q =
     (if initiator then
        case kpNext q of
          Some n \<Rightarrow> (q\<lparr>kpNext := None, kpPrevious := Some n, kpCurrent := Some k\<rparr>, [kpCurrent q, kpPrevious q])
        | None \<Rightarrow> (q\<lparr>kpPrevious := kpCurrent q, kpCurrent := Some k\<rparr>, [kpPrevious q])
      else (q\<lparr>kpNext := Some k, kpPrevious := None\<rparr>, [kpNext q, kpPrevious q]))"

definition BeginSymmetricSession :: "Crypto \<Rightarrow> peerId \<Rightarrow> Device \<Rightarrow> noiseError option \<times> Device" where
  "BeginSymmetricSession C p d =
     (let h = handshake (peers d p);
          (t0, t1) = KDF2 C (chainKey h) []
      in if hsState h \<noteq> handshakeResponseConsumed \<and> hsState h \<noteq> handshakeResponseCreated
         then (Some (errInvalidState (hsState h)), d)
      else
        let initiator = (hsState h = handshakeResponseConsumed);
            (sendKey, recvKey) = (if initiator then (t0, t1) else (t1, t0));
            k = nextKp d;
            kp = \<lparr>sendNonce = 0, kpSend = sendKey, kpReceive = recvKey, replayFilter = Reset zeroFilter,
                  isInitiator = initiator, created = clock d, kpLocalIndex = localIndex h, kpRemoteIndex = remoteIndex h\<rparr>;
            d = d\<lparr>keypairs := (keypairs d)(k := kp), nextKp := k + 1\<rparr>;
            d = SwapIndexForKeypair (localIndex h) k d;
            d = setHandshake p (h\<lparr>chainKey := zeroKey, hsHash := zeroKey, localEphemeral := zeroKey,
                  hsState := handshakeZeroed, localIndex := 0\<rparr>) d;
            (q, old) = rotateKeypairs initiator k (peers d p)
        in (None, upPeer p (\<lambda>_. q) (fold DeleteKeypair old d)))"

definition ReceivedWithKeypair :: "peerId \<Rightarrow> kpId \<Rightarrow> Device \<Rightarrow> bool \<times> Device" where
  "ReceivedWithKeypair p k d =
     (let q = peers d p
      in if kpNext q \<noteq> Some k then (False, d)
      else (True, upPeer p (\<lambda>q. q\<lparr>kpPrevious := kpCurrent q, kpCurrent := kpNext q, kpNext := None\<rparr>)
              (DeleteKeypair (kpPrevious q) d)))"

section \<open>Wire format\<close>

lemma unmarshal_marshalInitiation:
  assumes "length (miEphemeral m) = 32" "length (miStatic m) = 48" "length (miTimestamp m) = 28"
    "length (miMAC1 m) = 16" "length (miMAC2 m) = 16"
  shows "unmarshalInitiation (marshalInitiation m) = Some m" "length (marshalInitiation m) = MessageInitiationSize"
  using assms by (simp_all add: unmarshalInitiation_def marshalInitiation_def msg_consts len_simps wire_simps subslice_def)

lemma unmarshal_marshalResponse:
  assumes "length (mrEphemeral m) = 32" "length (mrEmpty m) = 16" "length (mrMAC1 m) = 16" "length (mrMAC2 m) = 16"
  shows "unmarshalResponse (marshalResponse m) = Some m" "length (marshalResponse m) = MessageResponseSize"
  using assms by (simp_all add: unmarshalResponse_def marshalResponse_def msg_consts len_simps wire_simps subslice_def)

lemma unmarshal_marshalCookieReply:
  assumes "length (mcNonce m) = 24" "length (mcCookie m) = 32"
  shows "unmarshalCookieReply (marshalCookieReply m) = Some m" "length (marshalCookieReply m) = MessageCookieReplySize"
  using assms by (simp_all add: unmarshalCookieReply_def marshalCookieReply_def msg_consts len_simps wire_simps subslice_def)

section \<open>What the four steps do\<close>

lemma handshake_setHandshake [simp]:
  "handshake (peers (setHandshake p h d) q) = (if q = p then h else handshake (peers d q))"
  by (simp add: setHandshake_def access_defs)

lemma setHandshake_frame [simp]:
  "privateKey (setHandshake p h d) = privateKey d" "publicKey (setHandshake p h d) = publicKey d"
  "indexTable (setHandshake p h d) = indexTable d" "keypairs (setHandshake p h d) = keypairs d"
  "nextKp (setHandshake p h d) = nextKp d" "clock (setHandshake p h d) = clock d" "keyMap (setHandshake p h d) = keyMap d"
  "isRunning (peers (setHandshake p h d) q) = isRunning (peers d q)"
  by (simp_all add: setHandshake_def access_defs)

lemma generateHeader_Some:
  "generateHeader h d = Some (v, d') \<longleftrightarrow> Generate (entropy d 0) h = Some v \<and> d' = d\<lparr>entropy := (\<lambda>i. entropy d (i + 1))\<rparr>"
  by (auto simp: generateHeader_def)

lemma NewIndex_Some:
  assumes "NewIndexForHandshake p d = Some (i, d')"
  obtains t where "d' = d\<lparr>entropy := t, indexTable := (indexTable d)(i \<mapsto>
      \<lparr>entryPeer = Some p, entryHandshake = Some p, entryKeypair = None\<rparr>)\<rparr>" "indexTable d i = None"
proof -
  obtain t where r: "freshIndex (indexTable d) (entropy d) = Some (i, t)"
    using assms by (auto simp: NewIndexForHandshake_def)
  then show thesis using that [of t] assms freshIndex_Some [OF r] by (auto simp: NewIndexForHandshake_def)
qed

text \<open>The keys and hashes of an initiation, as both sides compute them.\<close>

definition initHash1 :: "Crypto \<Rightarrow> bytes \<Rightarrow> bytes \<Rightarrow> bytes" where
  "initHash1 C rs eph = mixHash C (mixHash C (InitialHash C) rs) eph"

definition initKeys1 :: "Crypto \<Rightarrow> bytes \<Rightarrow> bytes \<Rightarrow> bytes \<times> bytes" where
  "initKeys1 C eph ss = KDF2 C (mixKey C (InitialChainKey C) eph) ss"

lemma CreateMessageInitiation_Inr:
  assumes "CreateMessageInitiation C p d = Some (Inr m, d')"
  defines "h \<equiv> handshake (peers d p)"
  obtains sk ss ck1 k1 ck2 k2 t where
    "length sk = 32" "miEphemeral m = publicKeyOf C sk" "sharedSecret C sk (remoteStatic h) = Some ss"
    "initKeys1 C (miEphemeral m) ss = (ck1, k1)"
    "miStatic m = aeadSeal C k1 ZeroNonce (publicKey d) (initHash1 C (remoteStatic h) (miEphemeral m))"
    "\<not> isZero (precomputedStaticStatic h)" "KDF2 C ck1 (precomputedStaticStatic h) = (ck2, k2)"
    "miTimestamp m = aeadSeal C k2 ZeroNonce (stamp (clock d)) (mixHash C (initHash1 C (remoteStatic h) (miEphemeral m)) (miStatic m))"
    "indexTable d' = (indexTable d)(localIndex h := None, miSender m \<mapsto> \<lparr>entryPeer = Some p, entryHandshake = Some p, entryKeypair = None\<rparr>)"
    "miSender m = localIndex h \<or> indexTable d (miSender m) = None"
    "d' = setHandshake p (h\<lparr>localEphemeral := sk, chainKey := ck2, localIndex := miSender m,
       hsHash := mixHash C (mixHash C (initHash1 C (remoteStatic h) (miEphemeral m)) (miStatic m)) (miTimestamp m),
       hsState := handshakeInitiationCreated\<rparr>)
       (d\<lparr>entropy := t, indexTable := indexTable d'\<rparr>)"
    "length (miMAC1 m) = 16" "length (miMAC2 m) = 16" "\<exists>x. Generate x (hdrInit d) = Some (miType m)"
proof -
  obtain sk t where sk: "newPrivateKey (entropy d) = (sk, t)" by fastforce
  define eph where "eph = publicKeyOf C sk"
  note run = assms(1) [unfolded CreateMessageInitiation_def sk Let_def split_conv]
  obtain ty d1 where g: "generateHeader (hdrInit d) (d\<lparr>entropy := t\<rparr>) = Some (ty, d1)"
    using run by (cases "generateHeader (hdrInit d) (d\<lparr>entropy := t\<rparr>)") auto
  obtain t1 where d1: "d1 = d\<lparr>entropy := t1\<rparr>" and ty: "\<exists>x. Generate x (hdrInit d) = Some ty"
    using g by (auto simp: generateHeader_Some)
  obtain ss where ss: "sharedSecret C sk (remoteStatic h) = Some ss"
    using run g by (cases "sharedSecret C sk (remoteStatic h)") (auto simp: h_def hsMixHash_def hsMixKey_def)
  obtain ck1 k1 where k1: "initKeys1 C eph ss = (ck1, k1)" by fastforce
  define st where "st = aeadSeal C k1 ZeroNonce (publicKey d) (initHash1 C (remoteStatic h) eph)"
  obtain ck2 k2 where k2: "KDF2 C ck1 (precomputedStaticStatic h) = (ck2, k2)" by fastforce
  note keys = hsMixHash_def hsMixKey_def h_def [symmetric] eph_def [symmetric] st_def [symmetric]
    initHash1_def [symmetric] initKeys1_def [symmetric]
  have nz: "\<not> isZero (precomputedStaticStatic h)" using run g ss by (auto simp: keys split: prod.splits if_splits)
  obtain i d2 where i: "NewIndexForHandshake p (indexDelete (localIndex h) d1) = Some (i, d2)"
    using run g ss k1 k2 nz by (cases "NewIndexForHandshake p (indexDelete (localIndex h) d1)") (auto simp: keys)
  obtain t2 where t2: "d2 = (indexDelete (localIndex h) d1)\<lparr>entropy := t2, indexTable := (indexTable (indexDelete (localIndex h) d1))(i \<mapsto>
      \<lparr>entryPeer = Some p, entryHandshake = Some p, entryKeypair = None\<rparr>)\<rparr>" "indexTable (indexDelete (localIndex h) d1) i = None"
    by (rule NewIndex_Some [OF i])
  then have d2: "d2 = d\<lparr>entropy := t2, indexTable := (indexTable d)(localIndex h := None,
      i \<mapsto> \<lparr>entryPeer = Some p, entryHandshake = Some p, entryKeypair = None\<rparr>)\<rparr>" "i = localIndex h \<or> indexTable d i = None"
    by (auto simp: indexDelete_def d1 split: if_splits)
  have sk32: "length sk = 32" using length_newPrivateKey [of "entropy d"] sk by simp
  define ts where "ts = aeadSeal C k2 ZeroNonce (stamp (clock d)) (mixHash C (initHash1 C (remoteStatic h) eph) st)"
  have m: "m = \<lparr>miType = ty, miSender = i, miEphemeral = eph, miStatic = st, miTimestamp = ts, miMAC1 = replicate 16 0, miMAC2 = replicate 16 0\<rparr>"
    and d': "d' = setHandshake p (h\<lparr>localEphemeral := sk, chainKey := ck2, localIndex := i,
        hsHash := mixHash C (mixHash C (initHash1 C (remoteStatic h) eph) st) ts, hsState := handshakeInitiationCreated\<rparr>) d2"
    using run g ss k1 k2 nz i by (auto simp: keys d1 ts_def)
  show ?thesis
    by (rule that [of sk ss ck1 k1 ck2 k2 t2]) (use sk32 ss k1 k2 nz ty d2(2) in \<open>simp_all add: m d' eph_def st_def ts_def d2\<close>)
qed

definition respKeys :: "Crypto \<Rightarrow> bytes \<Rightarrow> bytes \<Rightarrow> bytes \<Rightarrow> bytes \<Rightarrow> bytes \<Rightarrow> bytes \<times> bytes \<times> bytes" where
  "respKeys C ck eph ee se psk = KDF3 C (mixKey C (mixKey C (mixKey C ck eph) ee) se) psk"

lemma CreateMessageResponse_Inr:
  assumes "CreateMessageResponse C p d = Some (Inr m, d')"
  defines "h \<equiv> handshake (peers d p)"
  obtains sk ee se ck tau k t where
    "hsState h = handshakeInitiationConsumed" "length sk = 32" "mrEphemeral m = publicKeyOf C sk"
    "sharedSecret C sk (remoteEphemeral h) = Some ee" "sharedSecret C sk (remoteStatic h) = Some se"
    "respKeys C (chainKey h) (mrEphemeral m) ee se (presharedKey h) = (ck, tau, k)"
    "mrEmpty m = aeadSeal C k ZeroNonce [] (mixHash C (mixHash C (hsHash h) (mrEphemeral m)) tau)"
    "mrReceiver m = remoteIndex h"
    "indexTable d' = (indexTable d)(localIndex h := None, mrSender m \<mapsto> \<lparr>entryPeer = Some p, entryHandshake = Some p, entryKeypair = None\<rparr>)"
    "mrSender m = localIndex h \<or> indexTable d (mrSender m) = None"
    "d' = setHandshake p (h\<lparr>localIndex := mrSender m, localEphemeral := sk, chainKey := ck,
       hsHash := mixHash C (mixHash C (mixHash C (hsHash h) (mrEphemeral m)) tau) (mrEmpty m),
       hsState := handshakeResponseCreated\<rparr>) (d\<lparr>indexTable := indexTable d', entropy := t\<rparr>)"
    "length (mrMAC1 m) = 16" "length (mrMAC2 m) = 16" "\<exists>x. Generate x (hdrResponse d) = Some (mrType m)"
proof -
  note run = assms(1) [unfolded CreateMessageResponse_def Let_def, folded h_def]
  have st: "hsState h = handshakeInitiationConsumed" using run by (auto split: if_splits)
  obtain i d1 where i: "NewIndexForHandshake p (indexDelete (localIndex h) d) = Some (i, d1)"
    using run st by (cases "NewIndexForHandshake p (indexDelete (localIndex h) d)") auto
  obtain t1 where "d1 = (indexDelete (localIndex h) d)\<lparr>entropy := t1, indexTable := (indexTable (indexDelete (localIndex h) d))(i \<mapsto>
      \<lparr>entryPeer = Some p, entryHandshake = Some p, entryKeypair = None\<rparr>)\<rparr>" "indexTable (indexDelete (localIndex h) d) i = None"
    by (rule NewIndex_Some [OF i])
  then have d1: "d1 = d\<lparr>entropy := t1, indexTable := (indexTable d)(localIndex h := None,
      i \<mapsto> \<lparr>entryPeer = Some p, entryHandshake = Some p, entryKeypair = None\<rparr>)\<rparr>" "i = localIndex h \<or> indexTable d i = None"
    by (auto simp: indexDelete_def split: if_splits)
  obtain ty d2 where g: "generateHeader (hdrResponse d1) d1 = Some (ty, d2)"
    using run st i by (cases "generateHeader (hdrResponse d1) d1") auto
  obtain t2 where d2: "d2 = d1\<lparr>entropy := t2\<rparr>" and ty: "\<exists>x. Generate x (hdrResponse d) = Some ty"
    using g d1 by (auto simp: generateHeader_Some)
  obtain sk t where sk: "newPrivateKey (entropy d2) = (sk, t)" by fastforce
  have sk32: "length sk = 32" using length_newPrivateKey [of "entropy d2"] sk by simp
  define eph where "eph = publicKeyOf C sk"
  obtain ee where ee: "sharedSecret C sk (remoteEphemeral h) = Some ee"
    using run st i g sk by (cases "sharedSecret C sk (remoteEphemeral h)") (auto simp: hsMixHash_def hsMixKey_def)
  obtain se where se: "sharedSecret C sk (remoteStatic h) = Some se"
    using run st i g sk ee by (cases "sharedSecret C sk (remoteStatic h)") (auto simp: hsMixHash_def hsMixKey_def)
  obtain ck tau k where k: "respKeys C (chainKey h) eph ee se (presharedKey h) = (ck, tau, k)" by (metis prod_cases3)
  define em where "em = aeadSeal C k ZeroNonce [] (mixHash C (mixHash C (hsHash h) eph) tau)"
  have m: "m = \<lparr>mrType = ty, mrSender = i, mrReceiver = remoteIndex h, mrEphemeral = eph, mrEmpty = em, mrMAC1 = replicate 16 0, mrMAC2 = replicate 16 0\<rparr>"
    and d': "d' = setHandshake p (h\<lparr>localIndex := i, localEphemeral := sk, chainKey := ck,
       hsHash := mixHash C (mixHash C (mixHash C (hsHash h) eph) tau) em, hsState := handshakeResponseCreated\<rparr>) (d2\<lparr>entropy := t\<rparr>)"
    using run st i g sk ee se k
    by (auto simp: hsMixHash_def hsMixKey_def eph_def [symmetric] em_def respKeys_def)
  show ?thesis
    by (rule that [of sk ee se ck tau k t]) (use st sk32 ee se k ty d1(2) in \<open>simp_all add: m d' eph_def em_def d1 d2\<close>)
qed

section \<open>Agreement\<close>

text \<open>
  Device \<open>A\<close> knows device \<open>B\<close> as its peer \<open>p\<close> and \<open>B\<close> knows \<open>A\<close> as its peer \<open>q\<close>: each holds the
  other's public key, the shared secret of their static keys and the same preshared key.
\<close>

definition knows :: "Crypto \<Rightarrow> Device \<Rightarrow> peerId \<Rightarrow> Device \<Rightarrow> bool" where
  "knows C A p B \<longleftrightarrow> length (privateKey A) = 32 \<and> publicKey A = publicKeyOf C (privateKey A) \<and>
     remoteStatic (handshake (peers A p)) = publicKey B \<and>
     sharedSecret C (privateKey A) (publicKey B) = Some (precomputedStaticStatic (handshake (peers A p)))"

definition linked :: "Crypto \<Rightarrow> Device \<Rightarrow> peerId \<Rightarrow> Device \<Rightarrow> peerId \<Rightarrow> bool" where
  "linked C A p B q \<longleftrightarrow> knows C A p B \<and> knows C B q A \<and> LookupPeer (publicKey A) B = Some q \<and>
     presharedKey (handshake (peers A p)) = presharedKey (handshake (peers B q))"

text \<open>The peer accepts an initiation stamped at \<open>now\<close>: it runs, the stamp is new and the last one not too recent.\<close>

definition acceptsAt :: "Device \<Rightarrow> peerId \<Rightarrow> gotime \<Rightarrow> bool" where
  "acceptsAt B q now \<longleftrightarrow> isRunning (peers B q) \<and> After (stamp now) (lastTimestamp (handshake (peers B q))) \<and>
     timeSince B (lastInitiationConsumption (handshake (peers B q))) > HandshakeInitationRate"

lemma linked_static:
  assumes "cryptoOK C" "linked C A p B q"
  shows "precomputedStaticStatic (handshake (peers A p)) = precomputedStaticStatic (handshake (peers B q))"
    "\<not> isZero (precomputedStaticStatic (handshake (peers B q)))"
proof -
  have l: "length (privateKey A) = 32" "length (privateKey B) = 32" "publicKey A = publicKeyOf C (privateKey A)" "publicKey B = publicKeyOf C (privateKey B)"
    "sharedSecret C (privateKey A) (publicKey B) = Some (precomputedStaticStatic (handshake (peers A p)))"
    "sharedSecret C (privateKey B) (publicKey A) = Some (precomputedStaticStatic (handshake (peers B q)))"
    using assms(2) unfolding linked_def knows_def by blast+
  show "precomputedStaticStatic (handshake (peers A p)) = precomputedStaticStatic (handshake (peers B q))"
    using sharedSecret_comm [OF assms(1) l(1,2)] l(5,6) unfolding l(3,4) by simp
  show "\<not> isZero (precomputedStaticStatic (handshake (peers B q)))"
    using assms(2) by (auto simp: linked_def knows_def sharedSecret_def Let_def split: if_splits)
qed

lemma initiation_consumed:
  assumes "cryptoOK C" "linked C A p B q" "acceptsAt B q (clock A)" "CreateMessageInitiation C p A = Some (Inr m, A1)"
  defines "h \<equiv> handshake (peers B q)"
  shows "\<exists>h'. ConsumeMessageInitiation C (m\<lparr>miType := MessageInitiationType\<rparr>) B = (Some q, setHandshake q h' B) \<and>
    hsHash h' = hsHash (handshake (peers A1 p)) \<and> chainKey h' = chainKey (handshake (peers A1 p)) \<and>
    remoteIndex h' = miSender m \<and> remoteEphemeral h' = miEphemeral m \<and> hsState h' = handshakeInitiationConsumed \<and>
    remoteStatic h' = remoteStatic h \<and> presharedKey h' = presharedKey h \<and> localIndex h' = localIndex h \<and>
    lastTimestamp h' = stamp (clock A)"
proof (rule CreateMessageInitiation_Inr [OF assms(4)])
  let ?h = "handshake (peers A p)"
  fix sk ss ck1 k1 ck2 k2 t
  assume *: "length sk = 32" "miEphemeral m = publicKeyOf C sk" "sharedSecret C sk (remoteStatic ?h) = Some ss"
    "initKeys1 C (miEphemeral m) ss = (ck1, k1)"
    "miStatic m = aeadSeal C k1 ZeroNonce (publicKey A) (initHash1 C (remoteStatic ?h) (miEphemeral m))"
    "KDF2 C ck1 (precomputedStaticStatic ?h) = (ck2, k2)"
    "miTimestamp m = aeadSeal C k2 ZeroNonce (stamp (clock A)) (mixHash C (initHash1 C (remoteStatic ?h) (miEphemeral m)) (miStatic m))"
    "A1 = setHandshake p (?h\<lparr>localEphemeral := sk, chainKey := ck2, localIndex := miSender m,
       hsHash := mixHash C (mixHash C (initHash1 C (remoteStatic ?h) (miEphemeral m)) (miStatic m)) (miTimestamp m),
       hsState := handshakeInitiationCreated\<rparr>) (A\<lparr>entropy := t, indexTable := indexTable A1\<rparr>)"
  have A1: "handshake (peers A1 p) = ?h\<lparr>localEphemeral := sk, chainKey := ck2, localIndex := miSender m,
       hsHash := mixHash C (mixHash C (initHash1 C (remoteStatic ?h) (miEphemeral m)) (miStatic m)) (miTimestamp m),
       hsState := handshakeInitiationCreated\<rparr>"
    by (subst *(8)) simp
  have rs: "remoteStatic ?h = publicKey B" "publicKey B = publicKeyOf C (privateKey B)" "length (privateKey B) = 32"
      "LookupPeer (publicKey A) B = Some q"
    using assms(2) unfolding linked_def knows_def by blast+
  have dh: "sharedSecret C (privateKey B) (miEphemeral m) = Some ss"
    using sharedSecret_comm [OF assms(1) rs(3) *(1)] *(2,3) rs(1,2) by simp
  note sta = linked_static [OF assms(1,2)]
  have "aeadOpen C k1 ZeroNonce (miStatic m) (initHash1 C (publicKey B) (miEphemeral m)) = Some (publicKey A)"
    unfolding *(5) rs(1) by (rule cryptoOK_open(1) [OF assms(1)])
  moreover have "aeadOpen C k2 ZeroNonce (miTimestamp m) (mixHash C (initHash1 C (publicKey B) (miEphemeral m)) (miStatic m)) = Some (stamp (clock A))"
    unfolding *(7) rs(1) by (rule cryptoOK_open(1) [OF assms(1)])
  moreover define h' where "h' = (let g = h\<lparr>hsHash := mixHash C (mixHash C (initHash1 C (publicKey B) (miEphemeral m)) (miStatic m)) (miTimestamp m),
      chainKey := ck2, remoteIndex := miSender m, remoteEphemeral := miEphemeral m, lastTimestamp := stamp (clock A)\<rparr>
    in (if clock B > lastInitiationConsumption h then g\<lparr>lastInitiationConsumption := clock B\<rparr> else g)\<lparr>hsState := handshakeInitiationConsumed\<rparr>)"
  ultimately have "ConsumeMessageInitiation C (m\<lparr>miType := MessageInitiationType\<rparr>) B = (Some q, setHandshake q h' B)"
    using assms(3) dh rs(4) *(4,6) sta(2)
    by (simp add: ConsumeMessageInitiation_def Let_def initHash1_def initKeys1_def sta(1) acceptsAt_def h_def)
  then show ?thesis by (intro exI [of _ h']) (simp add: h'_def Let_def A1 rs(1))
qed

lemma response_consumed:
  fixes A :: Device and p :: peerId
  assumes "cryptoOK C" "CreateMessageResponse C q B = Some (Inr m, B')"
  defines "ha \<equiv> handshake (peers A p)" and "hb \<equiv> handshake (peers B q)"
  assumes "hsState ha = handshakeInitiationCreated" "hsHash ha = hsHash hb" "chainKey ha = chainKey hb" "presharedKey ha = presharedKey hb"
    "length (localEphemeral ha) = 32" "remoteEphemeral hb = publicKeyOf C (localEphemeral ha)"
    "length (privateKey A) = 32" "remoteStatic hb = publicKeyOf C (privateKey A)"
    "indexTable A (remoteIndex hb) = Some \<lparr>entryPeer = Some p, entryHandshake = Some p, entryKeypair = None\<rparr>"
  shows "\<exists>A'. ConsumeMessageResponse C (m\<lparr>mrType := MessageResponseType\<rparr>) A = (Some p, A') \<and>
    hsState (handshake (peers A' p)) = handshakeResponseConsumed \<and> hsState (handshake (peers B' q)) = handshakeResponseCreated \<and>
    hsHash (handshake (peers A' p)) = hsHash (handshake (peers B' q)) \<and>
    chainKey (handshake (peers A' p)) = chainKey (handshake (peers B' q)) \<and>
    remoteIndex (handshake (peers A' p)) = localIndex (handshake (peers B' q)) \<and>
    localIndex (handshake (peers A' p)) = localIndex ha \<and> remoteIndex (handshake (peers B' q)) = remoteIndex hb"
proof (rule CreateMessageResponse_Inr [OF assms(2)], fold hb_def)
  fix sk ee se ck tau k t
  assume *: "length sk = 32" "mrEphemeral m = publicKeyOf C sk"
    "sharedSecret C sk (remoteEphemeral hb) = Some ee" "sharedSecret C sk (remoteStatic hb) = Some se"
    "respKeys C (chainKey hb) (mrEphemeral m) ee se (presharedKey hb) = (ck, tau, k)"
    "mrEmpty m = aeadSeal C k ZeroNonce [] (mixHash C (mixHash C (hsHash hb) (mrEphemeral m)) tau)" "mrReceiver m = remoteIndex hb"
    "B' = setHandshake q (hb\<lparr>localIndex := mrSender m, localEphemeral := sk, chainKey := ck,
       hsHash := mixHash C (mixHash C (mixHash C (hsHash hb) (mrEphemeral m)) tau) (mrEmpty m),
       hsState := handshakeResponseCreated\<rparr>) (B\<lparr>indexTable := indexTable B', entropy := t\<rparr>)"
  have B': "handshake (peers B' q) = hb\<lparr>localIndex := mrSender m, localEphemeral := sk, chainKey := ck,
       hsHash := mixHash C (mixHash C (mixHash C (hsHash hb) (mrEphemeral m)) tau) (mrEmpty m), hsState := handshakeResponseCreated\<rparr>"
    by (subst *(8)) simp
  have dh: "sharedSecret C (localEphemeral ha) (mrEphemeral m) = Some ee" "sharedSecret C (privateKey A) (mrEphemeral m) = Some se"
    using sharedSecret_comm [OF assms(1) _ *(1)] *(2-4) assms by simp_all
  have "aeadOpen C k ZeroNonce (mrEmpty m) (mixHash C (mixHash C (hsHash hb) (mrEphemeral m)) tau) = Some []"
    unfolding *(6) by (rule cryptoOK_open(1) [OF assms(1)])
  then have "responseKeys C (privateKey A) ha (m\<lparr>mrType := MessageResponseType\<rparr>) =
      Some (mixHash C (mixHash C (mixHash C (hsHash hb) (mrEphemeral m)) tau) (mrEmpty m), ck)"
    using dh assms(5-8) *(5) by (simp add: responseKeys_def respKeys_def Let_def)
  then show ?thesis
    using assms(13) by (simp add: ConsumeMessageResponse_def indexLookup_def *(7) ha_def [symmetric] upHandshake_def upPeer_def B' Let_def)
qed

lemma DeleteKeypair_frame [simp]:
  "keypairs (DeleteKeypair k d) = keypairs d" "peers (DeleteKeypair k d) = peers d" "nextKp (DeleteKeypair k d) = nextKp d"
  by (simp_all add: DeleteKeypair_def indexDelete_def split: option.splits)

lemma fold_DeleteKeypair_frame [simp]:
  "keypairs (fold DeleteKeypair ks d) = keypairs d" "peers (fold DeleteKeypair ks d) = peers d" "nextKp (fold DeleteKeypair ks d) = nextKp d"
  by (induction ks arbitrary: d) simp_all

lemma SwapIndexForKeypair_frame [simp]:
  "keypairs (SwapIndexForKeypair i k d) = keypairs d" "peers (SwapIndexForKeypair i k d) = peers d"
  "nextKp (SwapIndexForKeypair i k d) = nextKp d"
  by (simp_all add: SwapIndexForKeypair_def split: option.splits)

lemma BeginSymmetricSession_keys:
  assumes "hsState (handshake (peers d p)) = handshakeResponseConsumed \<or> hsState (handshake (peers d p)) = handshakeResponseCreated"
    "KDF2 C (chainKey (handshake (peers d p))) [] = (t0, t1)"
  defines "i \<equiv> hsState (handshake (peers d p)) = handshakeResponseConsumed"
  shows "\<exists>d'. BeginSymmetricSession C p d = (None, d') \<and> (if i then kpCurrent (peers d' p) else kpNext (peers d' p)) = Some (nextKp d) \<and>
    keypairs d' (nextKp d) = \<lparr>sendNonce = 0, kpSend = (if i then t0 else t1), kpReceive = (if i then t1 else t0),
      replayFilter = Reset zeroFilter, isInitiator = i, created = clock d,
      kpLocalIndex = localIndex (handshake (peers d p)), kpRemoteIndex = remoteIndex (handshake (peers d p))\<rparr>"
  using assms(1,2)
  by (auto simp: BeginSymmetricSession_def i_def Let_def rotateKeypairs_def upPeer_def setHandshake_def upHandshake_def split: option.splits)

text \<open>
  C2: The handshake agrees: when device \<open>A\<close> and device \<open>B\<close> hold each other's public keys and the same
  preshared key, and \<open>B\<close> runs the peer and has seen no later stamp, then an initiation \<open>A\<close> creates is consumed
  by \<open>B\<close> as coming from \<open>A\<close>; the response \<open>B\<close> creates is consumed by \<open>A\<close> as coming from \<open>B\<close>; and the key
  pairs both derive match: what one sends with the other receives with, and each one's receiver index
  is the other's sender index.
\<close>

theorem handshake_agreement:
  assumes "cryptoOK C" "linked C A p B q" "acceptsAt B q (clock A)"
    and init: "CreateMessageInitiation C p A = Some (Inr m, A1)"
    and "ConsumeMessageInitiation C (m\<lparr>miType := MessageInitiationType\<rparr>) B = (who, B1)"
    and resp: "CreateMessageResponse C q B1 = Some (Inr m', B2)"
  shows "who = Some q \<and> (\<exists>A2 A3 B3 ka kb.
    ConsumeMessageResponse C (m'\<lparr>mrType := MessageResponseType\<rparr>) A1 = (Some p, A2) \<and>
    BeginSymmetricSession C p A2 = (None, A3) \<and> BeginSymmetricSession C q B2 = (None, B3) \<and>
    kpCurrent (peers A3 p) = Some ka \<and> kpNext (peers B3 q) = Some kb \<and>
    kpSend (keypairs A3 ka) = kpReceive (keypairs B3 kb) \<and> kpReceive (keypairs A3 ka) = kpSend (keypairs B3 kb) \<and>
    kpRemoteIndex (keypairs A3 ka) = kpLocalIndex (keypairs B3 kb) \<and> kpLocalIndex (keypairs A3 ka) = kpRemoteIndex (keypairs B3 kb) \<and>
    isInitiator (keypairs A3 ka) \<and> \<not> isInitiator (keypairs B3 kb))"
proof (rule CreateMessageInitiation_Inr [OF init])
  let ?h = "handshake (peers A p)"
  fix sk ss ck1 k1 ck2 k2 t
  assume *: "length sk = 32" "miEphemeral m = publicKeyOf C sk"
    "indexTable A1 = (indexTable A)(localIndex ?h := None, miSender m \<mapsto> \<lparr>entryPeer = Some p, entryHandshake = Some p, entryKeypair = None\<rparr>)"
    "A1 = setHandshake p (?h\<lparr>localEphemeral := sk, chainKey := ck2, localIndex := miSender m,
       hsHash := mixHash C (mixHash C (initHash1 C (remoteStatic ?h) (miEphemeral m)) (miStatic m)) (miTimestamp m),
       hsState := handshakeInitiationCreated\<rparr>) (A\<lparr>entropy := t, indexTable := indexTable A1\<rparr>)"
  have ha: "localEphemeral (handshake (peers A1 p)) = sk" "presharedKey (handshake (peers A1 p)) = presharedKey ?h"
      "hsState (handshake (peers A1 p)) = handshakeInitiationCreated" "privateKey A1 = privateKey A"
      "localIndex (handshake (peers A1 p)) = miSender m"
    by (subst *(4), simp)+
  obtain h' where h': "who = Some q" "B1 = setHandshake q h' B" "hsHash h' = hsHash (handshake (peers A1 p))"
      "chainKey h' = chainKey (handshake (peers A1 p))" "remoteIndex h' = miSender m" "remoteEphemeral h' = miEphemeral m"
      "remoteStatic h' = remoteStatic (handshake (peers B q))" "presharedKey h' = presharedKey (handshake (peers B q))"
    using initiation_consumed [OF assms(1-4)] assms(5) by auto
  have l: "presharedKey ?h = presharedKey (handshake (peers B q))" "length (privateKey A) = 32"
      "remoteStatic (handshake (peers B q)) = publicKeyOf C (privateKey A)"
    using assms(2) unfolding linked_def knows_def by metis+
  obtain A2 where A2: "ConsumeMessageResponse C (m'\<lparr>mrType := MessageResponseType\<rparr>) A1 = (Some p, A2)"
      "hsState (handshake (peers A2 p)) = handshakeResponseConsumed" "hsState (handshake (peers B2 q)) = handshakeResponseCreated"
      "chainKey (handshake (peers A2 p)) = chainKey (handshake (peers B2 q))"
      "remoteIndex (handshake (peers A2 p)) = localIndex (handshake (peers B2 q))"
      "localIndex (handshake (peers A2 p)) = miSender m" "remoteIndex (handshake (peers B2 q)) = miSender m"
    using response_consumed [OF assms(1) resp, of A1 p] ha h' l * by auto
  obtain t0 t1 where "KDF2 C (chainKey (handshake (peers B2 q))) [] = (t0, t1)" by fastforce
  then show ?thesis
    using BeginSymmetricSession_keys [of A2 p C t0 t1] BeginSymmetricSession_keys [of B2 q C t0 t1] A2 h'(1) by auto
qed

text \<open>A concrete instance of the primitives and of a device that has itself as its peer, for witnesses.\<close>

definition toyCrypto :: Crypto where
  "toyCrypto = \<lparr>blake2s256 = (\<lambda>m. replicate 32 1), blake2s128 = (\<lambda>k m. replicate 16 1), scalarMult = (\<lambda>a b. replicate 32 1),
     scalarBaseMult = (\<lambda>a. replicate 32 2), aeadSeal = (\<lambda>k n p a. p @ replicate 16 0),
     aeadOpen = (\<lambda>k n c a. if length c < 16 then None else Some (take (length c - 16) c)),
     xaeadSeal = (\<lambda>k n p a. p @ replicate 16 0),
     xaeadOpen = (\<lambda>k n c a. if length c < 16 then None else Some (take (length c - 16) c)), quicCrypto = toyQuic\<rparr>"

lemma toyCrypto_OK: "cryptoOK toyCrypto"
  by (auto simp: cryptoOK_def dhCommutes_def toyCrypto_def quicCryptoOK_def toyQuic_def split: if_splits)

definition toyDevice :: Device where
  "toyDevice = upPeer 0 (\<lambda>q. q\<lparr>isRunning := True, epVal := Some \<lparr>dstAddr = [10, 0, 0, 1], dstZone = [], dstPort = 9, epSrc = None\<rparr>,
       handshake := (handshake q)\<lparr>remoteStatic := replicate 32 2, precomputedStaticStatic := replicate 32 1\<rparr>\<rparr>)
     ((NewDevice None (1700000000 * second) (\<lambda>i. i mod 7))
       \<lparr>devState := deviceStateUp, publicKey := replicate 32 2, keyMap := [(replicate 32 2, 0)], nextPeer := 1\<rparr>)"

lemma result_Inr:
  "map_option (\<lambda>r. isl (fst r)) x = Some False \<Longrightarrow> x = Some (Inr (projr (fst (the x))), snd (the x))"
  by (cases x) (auto simp: sum.expand split: prod.splits)

theorem handshake_agreement_witness:
  "\<exists>m A1 B1 m' B2 A2 A3 B3 ka kb. CreateMessageInitiation toyCrypto 0 toyDevice = Some (Inr m, A1) \<and>
    ConsumeMessageInitiation toyCrypto (m\<lparr>miType := MessageInitiationType\<rparr>) toyDevice = (Some 0, B1) \<and>
    CreateMessageResponse toyCrypto 0 B1 = Some (Inr m', B2) \<and>
    ConsumeMessageResponse toyCrypto (m'\<lparr>mrType := MessageResponseType\<rparr>) A1 = (Some 0, A2) \<and>
    BeginSymmetricSession toyCrypto 0 A2 = (None, A3) \<and> BeginSymmetricSession toyCrypto 0 B2 = (None, B3) \<and>
    kpCurrent (peers A3 0) = Some ka \<and> kpNext (peers B3 0) = Some kb \<and>
    kpSend (keypairs A3 ka) = kpReceive (keypairs B3 kb)"
proof -
  let ?c = "CreateMessageInitiation toyCrypto 0 toyDevice"
  let ?m = "projr (fst (the ?c))"
  let ?B1 = "snd (ConsumeMessageInitiation toyCrypto (?m\<lparr>miType := MessageInitiationType\<rparr>) toyDevice)"
  have "map_option (\<lambda>r. isl (fst r)) ?c = Some False"
    and "map_option (\<lambda>r. isl (fst r)) (CreateMessageResponse toyCrypto 0 ?B1) = Some False"
    by code_simp+
  note r' = this [THEN result_Inr]
  obtain m A1 who B1 m' B2 where r: "?c = Some (Inr m, A1)"
      "ConsumeMessageInitiation toyCrypto (m\<lparr>miType := MessageInitiationType\<rparr>) toyDevice = (who, B1)"
      "CreateMessageResponse toyCrypto 0 B1 = Some (Inr m', B2)"
    by (rule that [OF r'(1) surjective_pairing r'(2)])
  have l: "linked toyCrypto toyDevice 0 toyDevice 0" "acceptsAt toyDevice 0 (clock toyDevice)" by code_simp+
  show ?thesis using handshake_agreement [OF toyCrypto_OK l r] r by blast
qed

end
