(* ===== verification/Cookie.thy ===== *)
theory Cookie
  imports Noise
begin

text \<open>
  The message authentication codes and cookies of \<^verbatim>\<open>device/cookie.go\<close>. The theory proves that what a
  peer's generator puts on a message passes the device's first check, that a cookie reply made for that
  message is consumed, and that the next message then passes the second check from the same address.
\<close>

section \<open>Keys\<close>

definition checkerInit :: "Crypto \<Rightarrow> bytes \<Rightarrow> CookieChecker \<Rightarrow> CookieChecker" where
  "checkerInit C pk st = st\<lparr>ckMac1Key := blake2s256 C (str_bytes WGLabelMAC1 @ pk),
     ckEncryptionKey := blake2s256 C (str_bytes WGLabelCookie @ pk), ckSecretSet := zeroTime\<rparr>"

definition generatorInit :: "Crypto \<Rightarrow> bytes \<Rightarrow> CookieGenerator \<Rightarrow> CookieGenerator" where
  "generatorInit C pk st = st\<lparr>cgMac1Key := blake2s256 C (str_bytes WGLabelMAC1 @ pk),
     cgEncryptionKey := blake2s256 C (str_bytes WGLabelCookie @ pk), cgCookieSet := zeroTime\<rparr>"

section \<open>Checks\<close>

text \<open>A message shorter than its two codes makes the slices panic: \<^const>\<open>None\<close>.\<close>

definition CheckMAC1 :: "Crypto \<Rightarrow> CookieChecker \<Rightarrow> bytes \<Rightarrow> bool option" where
  "CheckMAC1 C st msg =
     (if length msg < 32 then None
      else let smac2 = length msg - 16; smac1 = smac2 - 16
           in Some (blake2s128 C (ckMac1Key st) (take smac1 msg) = subslice smac1 smac2 msg))"

definition CheckMAC2 :: "Crypto \<Rightarrow> gotime \<Rightarrow> CookieChecker \<Rightarrow> bytes \<Rightarrow> bytes \<Rightarrow> bool option" where
  "CheckMAC2 C now st msg src =
     (if timeSub now (ckSecretSet st) > CookieRefreshTime then Some False
      else if length msg < 16 then None
      else let cookie = blake2s128 C (ckSecret st) src; smac2 = length msg - 16
           in Some (blake2s128 C cookie (take smac2 msg) = drop smac2 msg))"

definition CreateReply ::
  "Crypto \<Rightarrow> gotime \<Rightarrow> bytes \<Rightarrow> u32 \<Rightarrow> bytes \<Rightarrow> u32 \<Rightarrow> tape \<Rightarrow> CookieChecker \<Rightarrow> (MessageCookieReply \<times> CookieChecker \<times> tape) option"
where
  "CreateReply C now msg recv src msgType t st =
     (let (st, t) = (if timeSub now (ckSecretSet st) > CookieRefreshTime
                     then let (b, t') = drawBytes 32 t in (st\<lparr>ckSecret := b, ckSecretSet := now\<rparr>, t')
                     else (st, t));
          cookie = blake2s128 C (ckSecret st) src;
          (nonce, t) = drawBytes 24 t
      in if length msg < 32 then None
         else let smac2 = length msg - 16; smac1 = smac2 - 16
              in Some (\<lparr>mcType = msgType, mcReceiver = recv, mcNonce = nonce,
                   mcCookie = xaeadSeal C (ckEncryptionKey st) nonce cookie (subslice smac1 smac2 msg)\<rparr>, st, t))"

definition ConsumeReply :: "Crypto \<Rightarrow> gotime \<Rightarrow> MessageCookieReply \<Rightarrow> CookieGenerator \<Rightarrow> bool \<times> CookieGenerator" where
  "ConsumeReply C now msg st =
     (if \<not> cgHasLastMAC1 st then (False, st)
      else case xaeadOpen C (cgEncryptionKey st) (mcNonce msg) (mcCookie msg) (cgLastMAC1 st) of
        None \<Rightarrow> (False, st)
      | Some cookie \<Rightarrow> (True, st\<lparr>cgCookieSet := now, cgCookie := cookie\<rparr>))"

text \<open>\<^verbatim>\<open>AddMacs\<close>: the message with its codes written in place.\<close>

definition AddMacs :: "Crypto \<Rightarrow> gotime \<Rightarrow> bytes \<Rightarrow> CookieGenerator \<Rightarrow> (bytes \<times> CookieGenerator) option" where
  "AddMacs C now msg st =
     (if length msg < 32 then None
      else
        let smac2 = length msg - 16; smac1 = smac2 - 16;
            mac1 = blake2s128 C (cgMac1Key st) (take smac1 msg);
            msg = take smac1 msg @ mac1 @ drop smac2 msg;
            st = st\<lparr>cgLastMAC1 := mac1, cgHasLastMAC1 := True\<rparr>
        in if timeSub now (cgCookieSet st) > CookieRefreshTime then Some (msg, st)
           else Some (take smac2 msg @ blake2s128 C (cgCookie st) (take smac2 msg), st))"

section \<open>The codes are accepted\<close>

text \<open>The generator of a peer and the checker of the device it stands for share their keys.\<close>

definition cookieLink :: "CookieGenerator \<Rightarrow> CookieChecker \<Rightarrow> bool" where
  "cookieLink g c \<longleftrightarrow> cgMac1Key g = ckMac1Key c \<and> cgEncryptionKey g = ckEncryptionKey c"

lemma cookieLink_Init: "cookieLink (generatorInit C pk g) (checkerInit C pk c)"
  by (simp add: cookieLink_def generatorInit_def checkerInit_def)

lemma AddMacs_shape:
  fixes g :: CookieGenerator
  assumes "cryptoOK C" "length msg \<ge> 32"
  defines "body \<equiv> take (length msg - 32) msg"
  defines "mac1 \<equiv> blake2s128 C (cgMac1Key g) body"
  shows "AddMacs C now msg g = Some (body @ mac1 @
      (if timeSub now (cgCookieSet g) > CookieRefreshTime then drop (length msg - 16) msg else blake2s128 C (cgCookie g) (body @ mac1)),
      g\<lparr>cgLastMAC1 := mac1, cgHasLastMAC1 := True\<rparr>)"
  using assms by (simp add: AddMacs_def Let_def cryptoOK_len(2))

lemma CheckMAC1_append:
  "length mac1 = 16 \<Longrightarrow> length mac2 = 16 \<Longrightarrow> CheckMAC1 C c (body @ mac1 @ mac2) = Some (blake2s128 C (ckMac1Key c) body = mac1)"
  by (simp add: CheckMAC1_def Let_def subslice_def)

lemma CheckMAC2_append:
  "length mac2 = 16 \<Longrightarrow> timeSub now (ckSecretSet c) \<le> CookieRefreshTime \<Longrightarrow>
    CheckMAC2 C now c (front @ mac2) src = Some (blake2s128 C (blake2s128 C (ckSecret c) src) front = mac2)"
  by (simp add: CheckMAC2_def)

lemma AddMacs_CheckMAC1:
  assumes "cryptoOK C" "cookieLink g c" "length msg \<ge> 32"
  shows "\<exists>msg' g'. AddMacs C now msg g = Some (msg', g') \<and> CheckMAC1 C c msg' = Some True \<and> length msg' = length msg \<and>
    take (length msg - 32) msg' = take (length msg - 32) msg"
  using assms unfolding AddMacs_shape [OF assms(1,3)]
  by (auto simp: CheckMAC1_append cryptoOK_len(2) cookieLink_def)

text \<open>
  C12: The cookie exchange works: let a peer's generator and the device's checker be initialised with the same
  public key. Any message of at least 32 bytes that \<^verbatim>\<open>AddMacs\<close> completes passes \<^verbatim>\<open>CheckMAC1\<close>; the reply that
  \<^verbatim>\<open>CreateReply\<close> makes for it, for whatever address it came from, is accepted by the generator; and every
  message the generator completes within the cookie's life passes both checks from that address.
\<close>

theorem cookie_exchange:
  assumes "cryptoOK C" "cookieLink g c" "length msg \<ge> 32" "length msg2 \<ge> 32"
    and "AddMacs C now msg g = Some (msg', g1)" "CreateReply C now msg' recv src ty t c = Some (reply, c1, t1)"
    and "0 \<le> later - now" "later - now \<le> CookieRefreshTime" "timeSub later (ckSecretSet c1) \<le> CookieRefreshTime"
  shows "CheckMAC1 C c msg' = Some True \<and> fst (ConsumeReply C now reply g1) \<and>
    (\<exists>msg2' g3. AddMacs C later msg2 (snd (ConsumeReply C now reply g1)) = Some (msg2', g3) \<and>
      CheckMAC1 C c1 msg2' = Some True \<and> CheckMAC2 C later c1 msg2' src = Some True)"
proof -
  let ?body = "take (length msg - 32) msg"
  define mac1 where "mac1 = blake2s128 C (cgMac1Key g) ?body"
  have l: "length mac1 = 16" by (simp add: mac1_def cryptoOK_len(2) [OF assms(1)])
  obtain mac2 where m: "msg' = ?body @ mac1 @ mac2" "length mac2 = 16" "g1 = g\<lparr>cgLastMAC1 := mac1, cgHasLastMAC1 := True\<rparr>"
    using assms(5,3) AddMacs_shape [OF assms(1,3), of now g] by (auto simp: mac1_def cryptoOK_len(2) [OF assms(1)])
  have c1: "ckMac1Key c1 = ckMac1Key c" "ckEncryptionKey c1 = ckEncryptionKey c"
      "mcCookie reply = xaeadSeal C (ckEncryptionKey c) (mcNonce reply) (blake2s128 C (ckSecret c1) src) mac1"
    using assms(6) l by (auto simp: CreateReply_def m Let_def subslice_def split: if_splits prod.splits)
  have r: "ConsumeReply C now reply g1 = (True, g1\<lparr>cgCookieSet := now, cgCookie := blake2s128 C (ckSecret c1) src\<rparr>)"
    using assms(2) by (simp add: ConsumeReply_def m(3) c1(3) cookieLink_def cryptoOK_open(2) [OF assms(1)])
  have "timeSub later now \<le> CookieRefreshTime"
    using assms(7,8) by (simp add: timeSub_def minDuration_def time_consts)
  then show ?thesis
    using assms(2,9) l m c1 r
    by (auto simp: AddMacs_shape [OF assms(1,4)] CheckMAC1_append CheckMAC2_append [of _ _ _ _ "_ @ _", simplified]
        cryptoOK_len(2) [OF assms(1)] cookieLink_def mac1_def)
qed

theorem cookie_exchange_witness:
  "let g = generatorInit toyCrypto zeroKey zeroCookieGenerator; c = checkerInit toyCrypto zeroKey zeroCookieChecker
   in \<exists>msg' g1 reply c1 t1 msg2' g3. AddMacs toyCrypto 0 (replicate 40 0) g = Some (msg', g1) \<and>
     CreateReply toyCrypto 0 msg' 5 [10, 0, 0, 1] 3 (\<lambda>_. 9) c = Some (reply, c1, t1) \<and>
     AddMacs toyCrypto second (replicate 33 0) (snd (ConsumeReply toyCrypto 0 reply g1)) = Some (msg2', g3) \<and>
     CheckMAC2 toyCrypto second c1 msg2' [10, 0, 0, 1] = Some True"
proof -
  let ?g = "generatorInit toyCrypto zeroKey zeroCookieGenerator" and ?c = "checkerInit toyCrypto zeroKey zeroCookieChecker"
  have "AddMacs toyCrypto 0 (replicate 40 0) ?g \<noteq> None" by code_simp
  then obtain msg' g1 where a: "AddMacs toyCrypto 0 (replicate 40 0) ?g = Some (msg', g1)" by auto
  have "map_option (\<lambda>(m, _). map_option (\<lambda>(_, c1, _). timeSub second (ckSecretSet c1)) (CreateReply toyCrypto 0 m 5 [10, 0, 0, 1] 3 (\<lambda>_. 9) ?c))
      (AddMacs toyCrypto 0 (replicate 40 0) ?g) = Some (Some second)" by code_simp
  then obtain reply c1 t1 where b: "CreateReply toyCrypto 0 msg' 5 [10, 0, 0, 1] 3 (\<lambda>_. 9) ?c = Some (reply, c1, t1)"
      "timeSub second (ckSecretSet c1) = second" using a by auto
  have "timeSub second (ckSecretSet c1) \<le> CookieRefreshTime" using b(2) by (simp add: time_consts)
  from cookie_exchange [OF toyCrypto_OK cookieLink_Init _ _ a b(1) _ _ this, of "replicate 33 0"]
  show ?thesis using a b(1) by (auto simp: Let_def time_consts)
qed

end
