(* ===== verification/Timers.thy ===== *)
theory Timers
  imports Cookie
begin

text \<open>
  The timers of \<^verbatim>\<open>device/timers.go\<close>: the timer object with its pending flag, and the functions the rest of
  the device calls when packets are sent or received. The functions that run when a timer expires send
  packets and are in the theory of the sending side.
\<close>

section \<open>Timer objects\<close>

datatype timerName = TRetransmitHandshake | TSendKeepalive | TNewHandshake | TZeroKeyMaterial | TPersistentKeepalive

fun getTimer :: "timerName \<Rightarrow> Peer \<Rightarrow> Timer" where
  "getTimer TRetransmitHandshake q = retransmitHandshake q"
| "getTimer TSendKeepalive q = sendKeepalive q"
| "getTimer TNewHandshake q = newHandshake q"
| "getTimer TZeroKeyMaterial q = zeroKeyMaterial q"
| "getTimer TPersistentKeepalive q = persistentKeepalive q"

fun setTimer :: "timerName \<Rightarrow> Timer \<Rightarrow> Peer \<Rightarrow> Peer" where
  "setTimer TRetransmitHandshake t q = q\<lparr>retransmitHandshake := t\<rparr>"
| "setTimer TSendKeepalive t q = q\<lparr>sendKeepalive := t\<rparr>"
| "setTimer TNewHandshake t q = q\<lparr>newHandshake := t\<rparr>"
| "setTimer TZeroKeyMaterial t q = q\<lparr>zeroKeyMaterial := t\<rparr>"
| "setTimer TPersistentKeepalive t q = q\<lparr>persistentKeepalive := t\<rparr>"

definition timerMod :: "gotime \<Rightarrow> int \<Rightarrow> Timer \<Rightarrow> Timer" where
  "timerMod now dur t = t\<lparr>isPending := True, armedFor := Some (now + dur)\<rparr>"

definition timerDel :: "Timer \<Rightarrow> Timer" where
  "timerDel t = t\<lparr>isPending := False, armedFor := None\<rparr>"

text \<open>\<^verbatim>\<open>DelSync\<close> waits for a callback that is running and deletes again.\<close>

definition timerDelSync :: "Timer \<Rightarrow> Timer" where
  "timerDelSync t = timerDel (timerDel t)"

text \<open>The runtime starts the callback when the instant has come.\<close>

definition timerFire :: "gotime \<Rightarrow> Timer \<Rightarrow> Timer" where
  "timerFire now t = (case armedFor t of
     Some w \<Rightarrow> if w \<le> now then t\<lparr>armedFor := None, fired := Suc (fired t)\<rparr> else t
   | None \<Rightarrow> t)"

text \<open>The callback takes the lock: whether it goes on to the expiration function, and the timer after.\<close>

definition timerCallback :: "Timer \<Rightarrow> bool \<times> Timer" where
  "timerCallback t =
     (let t = t\<lparr>fired := fired t - 1\<rparr>
      in if \<not> isPending t then (False, t) else (True, t\<lparr>isPending := False\<rparr>))"

definition modTimer :: "timerName \<Rightarrow> int \<Rightarrow> peerId \<Rightarrow> Device \<Rightarrow> Device" where
  "modTimer n dur p d = upPeer p (\<lambda>q. setTimer n (timerMod (clock d) dur (getTimer n q)) q) d"

definition delTimer :: "timerName \<Rightarrow> peerId \<Rightarrow> Device \<Rightarrow> Device" where
  "delTimer n p d = upPeer p (\<lambda>q. setTimer n (timerDel (getTimer n q)) q) d"

definition pending :: "timerName \<Rightarrow> peerId \<Rightarrow> Device \<Rightarrow> bool" where
  "pending n p d = isPending (getTimer n (peers d p))"

section \<open>Events\<close>

definition timersActive :: "peerId \<Rightarrow> Device \<Rightarrow> bool" where
  "timersActive p d \<longleftrightarrow> isRunning (peers d p) \<and> isUp d"

text \<open>\<^verbatim>\<open>time.Millisecond*time.Duration(fastrandn(RekeyTimeoutJitterMaxMs))\<close>\<close>

definition jitter :: "Device \<Rightarrow> int \<times> Device" where
  "jitter d = (case fastrandn RekeyTimeoutJitterMaxMs d of (n, d') \<Rightarrow> (1000000 * int n, d'))"

definition timersDataSent :: "peerId \<Rightarrow> Device \<Rightarrow> Device" where
  "timersDataSent p d =
     (if timersActive p d \<and> \<not> pending TNewHandshake p d
      then case jitter d of (j, d') \<Rightarrow> modTimer TNewHandshake (KeepaliveTimeout + RekeyTimeout + j) p d' else d)"

definition timersDataReceived :: "peerId \<Rightarrow> Device \<Rightarrow> Device" where
  "timersDataReceived p d =
     (if timersActive p d
      then if \<not> pending TSendKeepalive p d then modTimer TSendKeepalive KeepaliveTimeout p d
           else upPeer p (\<lambda>q. q\<lparr>needAnotherKeepalive := True\<rparr>) d
      else d)"

definition timersAnyAuthenticatedPacketSent :: "peerId \<Rightarrow> Device \<Rightarrow> Device" where
  "timersAnyAuthenticatedPacketSent p d = (if timersActive p d then delTimer TSendKeepalive p d else d)"

definition timersAnyAuthenticatedPacketReceived :: "peerId \<Rightarrow> Device \<Rightarrow> Device" where
  "timersAnyAuthenticatedPacketReceived p d = (if timersActive p d then delTimer TNewHandshake p d else d)"

definition timersHandshakeInitiated :: "peerId \<Rightarrow> Device \<Rightarrow> Device" where
  "timersHandshakeInitiated p d =
     (if timersActive p d then case jitter d of (j, d') \<Rightarrow> modTimer TRetransmitHandshake (RekeyTimeout + j) p d' else d)"

definition timersHandshakeComplete :: "peerId \<Rightarrow> Device \<Rightarrow> Device" where
  "timersHandshakeComplete p d =
     (let d = (if timersActive p d then delTimer TRetransmitHandshake p d else d)
      in upPeer p (\<lambda>q. q\<lparr>handshakeAttempts := 0, sentLastMinuteHandshake := False, lastHandshakeNano := clock d\<rparr>) d)"

definition timersSessionDerived :: "peerId \<Rightarrow> Device \<Rightarrow> Device" where
  "timersSessionDerived p d = (if timersActive p d then modTimer TZeroKeyMaterial (RejectAfterTime * 3) p d else d)"

definition timersAnyAuthenticatedPacketTraversal :: "peerId \<Rightarrow> Device \<Rightarrow> Device" where
  "timersAnyAuthenticatedPacketTraversal p d =
     (let keepalive = persistentKeepaliveInterval (peers d p)
      in if keepalive > 0 \<and> timersActive p d then modTimer TPersistentKeepalive (int (unat keepalive) * second) p d else d)"

definition timersStart :: "peerId \<Rightarrow> Device \<Rightarrow> Device" where
  "timersStart p d = upPeer p (\<lambda>q. q\<lparr>handshakeAttempts := 0, sentLastMinuteHandshake := False, needAnotherKeepalive := False\<rparr>) d"

definition timersStop :: "peerId \<Rightarrow> Device \<Rightarrow> Device" where
  "timersStop p d = upPeer p (\<lambda>q. q\<lparr>retransmitHandshake := timerDelSync (retransmitHandshake q),
     sendKeepalive := timerDelSync (sendKeepalive q), newHandshake := timerDelSync (newHandshake q),
     zeroKeyMaterial := timerDelSync (zeroKeyMaterial q), persistentKeepalive := timerDelSync (persistentKeepalive q)\<rparr>) d"

lemmas timers_events = timersDataSent_def timersDataReceived_def timersAnyAuthenticatedPacketSent_def
  timersAnyAuthenticatedPacketReceived_def timersHandshakeInitiated_def timersHandshakeComplete_def
  timersSessionDerived_def timersAnyAuthenticatedPacketTraversal_def timersStart_def timersStop_def

end
