(* ===== verification/Send.thy ===== *)
theory Send
  imports Timers "HOL-Library.Monad_Syntax"
begin

text \<open>
  The sending side: \<^verbatim>\<open>device/send.go\<close>, \<^verbatim>\<open>Peer.SendBuffers\<close> of \<^verbatim>\<open>device/peer.go\<close> and the expiration
  functions of \<^verbatim>\<open>device/timers.go\<close>. A handler is a function on the device; the outer \<^const>\<open>None\<close> is a panic
  or a call that does not return. A container handed to the encryption workers stays in the peer's
  outbound queue with its lock taken until a worker has encrypted it.
\<close>

unbundle bit_operations_syntax

section \<open>Putting datagrams on the network\<close>

datatype sendError = ErrNoEndpoint | ErrBind bindResult | ErrNoise noiseError

definition clearSrc :: "Endpoint \<Rightarrow> Endpoint" where
  "clearSrc e = e\<lparr>epSrc := map_option (\<lambda>_. []) (epSrc e)\<rparr>"

text \<open>\<^verbatim>\<open>Bind.Send\<close>: what it puts on the network and its error.\<close>

definition netSend :: "Net \<Rightarrow> bytes list \<Rightarrow> Endpoint \<Rightarrow> Device \<Rightarrow> bindResult \<times> Device" where
  "netSend N bufs ep d =
     (let r = bindSend N (netCalls d); d = d\<lparr>netCalls := netCalls d + 1\<rparr>
      in (r, if r = BindOK \<or> r = BindGSODisabled True then d\<lparr>sent := sent d @ [(bufs, ep)]\<rparr> else d))"

definition SendBuffers :: "Net \<Rightarrow> peerId \<Rightarrow> bytes list \<Rightarrow> Device \<Rightarrow> sendError option \<times> Device" where
  "SendBuffers N p buffers d =
     (if isClosed d then (None, d)
      else case epVal (peers d p) of
        None \<Rightarrow> (Some ErrNoEndpoint, d)
      | Some ep \<Rightarrow>
        let ep = (if clearSrcOnTx (peers d p) then clearSrc ep else ep);
            d = (if clearSrcOnTx (peers d p) then upPeer p (\<lambda>q. q\<lparr>epVal := Some ep, clearSrcOnTx := False\<rparr>) d else d);
            (r, d) = netSend N buffers ep d
        in if r = BindOK
           then (None, upPeer p (\<lambda>q. q\<lparr>txBytes := txBytes q + word_of_nat (sum_list (map length buffers))\<rparr>) d)
           else (Some (ErrBind r), d))"

definition markEndpointSrcForClearing :: "peerId \<Rightarrow> Device \<Rightarrow> Device" where
  "markEndpointSrcForClearing p d = (if epVal (peers d p) = None then d else upPeer p (\<lambda>q. q\<lparr>clearSrcOnTx := True\<rparr>) d)"

definition SetEndpointFromPacket :: "peerId \<Rightarrow> Endpoint \<Rightarrow> Device \<Rightarrow> Device" where
  "SetEndpointFromPacket p ep d =
     (if disableRoaming (peers d p) then d else upPeer p (\<lambda>q. q\<lparr>clearSrcOnTx := False, epVal := Some ep\<rparr>) d)"

section \<open>Obfuscation of a datagram\<close>

text \<open>The padding in front of a packet: \<^verbatim>\<open>fillPadding\<close> draws from the entropy only when no protocol is imitated.\<close>

definition padPacket :: "nat \<Rightarrow> bytes \<Rightarrow> Device \<Rightarrow> (bytes \<times> Device) option" where
  "padPacket padding packet d =
     (if padding > 0 then
        let (rnd, d) = (if imitateMode d = imitateNone then randRead padding d else ([], d))
        in map_option (\<lambda>b. (b, d)) (fillPadding (imitateMode d) rnd (replicate padding 0 @ packet) padding)
      else Some (packet, d))"

text \<open>The I-packets: one datagram per configured chain, whose counters advance.\<close>

fun sendIPackets :: "Crypto \<Rightarrow> obfChain option list \<Rightarrow> Device \<Rightarrow> (bytes list \<times> obfChain option list \<times> Device) option" where
  "sendIPackets C [] d = Some ([], [], d)"
| "sendIPackets C (None # cs) d = map_option (\<lambda>(bs, cs', d'). (bs, None # cs', d')) (sendIPackets C cs d)"
| "sendIPackets C (Some c # cs) d =
     do { (b, os, t) \<leftarrow> buildIPacket (quicCrypto C) (unixSec (clock d)) (obfs c) (entropy d);
          (bs, cs', d') \<leftarrow> sendIPackets C cs (d\<lparr>entropy := t\<rparr>);
          Some (b # bs, Some (c\<lparr>obfs := os\<rparr>) # cs', d') }"

text \<open>The junk datagrams: \<open>rand.Int\<close> panics on an empty range and \<open>make\<close> on a negative length.\<close>

fun sendJunk :: "nat \<Rightarrow> Device \<Rightarrow> (bytes list \<times> Device) option" where
  "sendJunk 0 d = Some ([], d)"
| "sendJunk (Suc jc) d =
     do { x \<leftarrow> randInt (entropy d 0) (wrapInt64 (junkMax d - junkMin d + 1));
          let n = int x + junkMin d;
          let d = d\<lparr>entropy := (\<lambda>i. entropy d (i + 1))\<rparr>;
          (if n < 0 then None else Some ());
          let (rnd, d) = (if imitateMode d = imitateNone then randRead (nat n) d else ([], d));
          let (b, ctr) = fillJunk (imitateMode d) (junkCounter d) rnd (replicate (nat n) 0);
          buf \<leftarrow> b;
          (bs, d) \<leftarrow> sendJunk jc (d\<lparr>junkCounter := ctr\<rparr>);
          Some (buf # bs, d) }"

section \<open>Handshake messages\<close>

definition addMacs :: "Crypto \<Rightarrow> peerId \<Rightarrow> bytes \<Rightarrow> Device \<Rightarrow> (bytes \<times> Device) option" where
  "addMacs C p msg d = map_option (\<lambda>(m, g). (m, upPeer p (\<lambda>q. q\<lparr>cookieGenerator := g\<rparr>) d))
     (AddMacs C (clock d) msg (cookieGenerator (peers d p)))"

definition SendHandshakeInitiation :: "Crypto \<Rightarrow> Net \<Rightarrow> peerId \<Rightarrow> bool \<Rightarrow> Device \<Rightarrow> (sendError option \<times> Device) option" where
  "SendHandshakeInitiation C N p isRetry d =
     (let d = (if \<not> isRetry then upPeer p (\<lambda>q. q\<lparr>handshakeAttempts := 0\<rparr>) d else d)
      in if timeSince d (lastSentHandshake (handshake (peers d p))) < RekeyTimeout then Some (None, d)
      else do {
        let d = upHandshake p (\<lambda>h. h\<lparr>lastSentHandshake := clock d\<rparr>) d;
        (r, d) \<leftarrow> CreateMessageInitiation C p d;
        (case r of
          Inl e \<Rightarrow> Some (Some (ErrNoise e), d)
        | Inr msg \<Rightarrow> do {
            (ibufs, cs, d) \<leftarrow> sendIPackets C (ipackets d) d;
            let d = d\<lparr>ipackets := cs\<rparr>;
            (jbufs, d) \<leftarrow> sendJunk (nat (junkCount d)) d;
            (packet, d) \<leftarrow> addMacs C p (marshalInitiation msg) d;
            let d = timersAnyAuthenticatedPacketSent p (timersAnyAuthenticatedPacketTraversal p d);
            (packet, d) \<leftarrow> padPacket (padInit d) packet d;
            let (err, d) = SendBuffers N p (ibufs @ jbufs @ [packet]) d;
            Some (err, timersHandshakeInitiated p d) }) })"

definition SendHandshakeResponse :: "Crypto \<Rightarrow> Net \<Rightarrow> peerId \<Rightarrow> Device \<Rightarrow> (sendError option \<times> Device) option" where
  "SendHandshakeResponse C N p d =
     do {
       let d = upHandshake p (\<lambda>h. h\<lparr>lastSentHandshake := clock d\<rparr>) d;
       (r, d) \<leftarrow> CreateMessageResponse C p d;
       (case r of
         Inl e \<Rightarrow> Some (Some (ErrNoise e), d)
       | Inr msg \<Rightarrow> do {
           (packet, d) \<leftarrow> addMacs C p (marshalResponse msg) d;
           (case BeginSymmetricSession C p d of
             (Some e, d) \<Rightarrow> Some (Some (ErrNoise e), d)
           | (None, d) \<Rightarrow> do {
               let d = timersAnyAuthenticatedPacketSent p (timersAnyAuthenticatedPacketTraversal p (timersSessionDerived p d));
               (packet, d) \<leftarrow> padPacket (padResponse d) packet d;
               Some (SendBuffers N p [packet] d) }) }) }"

text \<open>\<^verbatim>\<open>netip.AddrPort.MarshalBinary\<close>: the address, its zone and the port, little-endian.\<close>

definition DstToBytes :: "Endpoint \<Rightarrow> bytes" where
  "DstToBytes ep = dstAddr ep @ str_bytes (dstZone ep) @ rev (put_be16 (dstPort ep))"

definition SendHandshakeCookie :: "Crypto \<Rightarrow> Net \<Rightarrow> HandshakeElem \<Rightarrow> Device \<Rightarrow> Device option" where
  "SendHandshakeCookie C N elem d =
     do {
       (if length (hePacket elem) < 8 then None else Some ());
       let sender = get_le32 (drop 4 (hePacket elem));
       (msgType, d) \<leftarrow> generateHeader (hdrCookie d) d;
       (reply, ck, t) \<leftarrow> CreateReply C (clock d) (hePacket elem) sender (DstToBytes (heEndpoint elem)) msgType (entropy d) (cookieChecker d);
       (packet, d) \<leftarrow> padPacket (padCookie d) (marshalCookieReply reply) (d\<lparr>cookieChecker := ck, entropy := t\<rparr>);
       Some (snd (netSend N [packet] (heEndpoint elem) d)) }"

definition keepKeyFreshSending :: "Crypto \<Rightarrow> Net \<Rightarrow> peerId \<Rightarrow> Device \<Rightarrow> Device option" where
  "keepKeyFreshSending C N p d =
     (case kpCurrent (peers d p) of
        None \<Rightarrow> Some d
      | Some k \<Rightarrow>
        let kp = keypairs d k
        in if sendNonce kp > RekeyAfterMessages \<or> (isInitiator kp \<and> timeSince d (created kp) > RekeyAfterTime)
           then map_option snd (SendHandshakeInitiation C N p False d) else Some d)"

section \<open>Staged packets\<close>

text \<open>
  \<^verbatim>\<open>StagePackets\<close>: the channel holds \<^const>\<open>QueueStagedSize\<close> containers; while it is full the oldest is dropped.
\<close>

fun stageQueue :: "'a \<Rightarrow> 'a list \<Rightarrow> 'a list" where
  "stageQueue e [] = [e]"
| "stageQueue e (x # xs) = (if length (x # xs) < QueueStagedSize then x # xs @ [e] else stageQueue e xs)"

definition StagePackets :: "peerId \<Rightarrow> OutElem list \<Rightarrow> Device \<Rightarrow> Device" where
  "StagePackets p elems d = upPeer p (\<lambda>q. q\<lparr>staged := stageQueue elems (staged q)\<rparr>) d"

text \<open>
  The loop over one container: each element takes the next nonce of the key pair; one that is too high
  is set aside and the counter is put back to the limit. The result is the nonce counter, the elements
  that go out and those set aside.
\<close>

fun assignNonces :: "kpId \<Rightarrow> u64 \<Rightarrow> OutElem list \<Rightarrow> u64 \<times> OutElem list \<times> OutElem list" where
  "assignNonces k n [] = (n, [], [])"
| "assignNonces k n (e # es) =
     (if n \<ge> RejectAfterMessages
      then (case assignNonces k RejectAfterMessages es of (n', out, ooo) \<Rightarrow> (n', out, e\<lparr>oeNonce := n\<rparr> # ooo))
      else (case assignNonces k (n + 1) es of (n', out, ooo) \<Rightarrow> (n', e\<lparr>oeNonce := n, oeKeypair := Some k\<rparr> # out, ooo)))"

text \<open>
  \<^verbatim>\<open>SendStagedPackets\<close>: \<open>None\<close> for the key pair is the label \<^verbatim>\<open>top\<close>, \<open>Some k\<close> the inner loop with the key pair
  read there. Going back to \<^verbatim>\<open>top\<close> may repeat, so it is a partial function.
\<close>

partial_function (option) sendStaged :: "Crypto \<Rightarrow> Net \<Rightarrow> peerId \<Rightarrow> kpId option \<Rightarrow> Device \<Rightarrow> Device option" where
  "sendStaged C N p at d =
     (case at of
        None \<Rightarrow>
          (if staged (peers d p) = [] \<or> \<not> isUp d then Some d
           else case kpCurrent (peers d p) of
             None \<Rightarrow> map_option snd (SendHandshakeInitiation C N p False d)
           | Some k \<Rightarrow>
               if sendNonce (keypairs d k) \<ge> RejectAfterMessages \<or> timeSince d (created (keypairs d k)) \<ge> RejectAfterTime
               then map_option snd (SendHandshakeInitiation C N p False d)
               else sendStaged C N p (Some k) d)
      | Some k \<Rightarrow>
          (case staged (peers d p) of
             [] \<Rightarrow> Some d
           | elems # rest \<Rightarrow>
               (case assignNonces k (sendNonce (keypairs d k)) elems of (n, out, ooo) \<Rightarrow>
                  let d = upKeypair k (\<lambda>kp. kp\<lparr>sendNonce := n\<rparr>) (upPeer p (\<lambda>q. q\<lparr>staged := rest\<rparr>) d);
                      d = d\<lparr>usedNonces := usedNonces d @ map (\<lambda>e. (k, oeNonce e)) out\<rparr>;
                      d = (if ooo \<noteq> [] then StagePackets p ooo d else d)
                  in if out = [] then sendStaged C N p None d
                     else
                       let d = (if isRunning (peers d p) then upPeer p (\<lambda>q. q\<lparr>outbound := outbound q @ [(out, False)]\<rparr>) d else d)
                       in if ooo \<noteq> [] then sendStaged C N p None d else sendStaged C N p (Some k) d)))"

declare sendStaged.simps [code]

definition SendStagedPackets :: "Crypto \<Rightarrow> Net \<Rightarrow> peerId \<Rightarrow> Device \<Rightarrow> Device option" where
  "SendStagedPackets C N p d = sendStaged C N p None d"

definition FlushStagedPackets :: "peerId \<Rightarrow> Device \<Rightarrow> Device" where
  "FlushStagedPackets p d = upPeer p (\<lambda>q. q\<lparr>staged := []\<rparr>) d"

definition newOutElem :: "bytes \<Rightarrow> OutElem" where
  "newOutElem packet = \<lparr>oePacket = packet, oeNonce = 0, oeKeypair = None\<rparr>"

definition SendKeepalive :: "Crypto \<Rightarrow> Net \<Rightarrow> peerId \<Rightarrow> Device \<Rightarrow> Device option" where
  "SendKeepalive C N p d =
     SendStagedPackets C N p
       (if staged (peers d p) = [] \<and> isRunning (peers d p)
        then upPeer p (\<lambda>q. q\<lparr>staged := [[newOutElem []]]\<rparr>) d else d)"

section \<open>Encryption\<close>

text \<open>The remainder is Go's, which takes the sign of the dividend; \<open>lastUnit\<close> is never negative.\<close>

definition calculatePaddingSize :: "int \<Rightarrow> int \<Rightarrow> int" where
  "calculatePaddingSize packetSize tunMTU =
     (let lastUnit = packetSize
      in if tunMTU = 0 then ((lastUnit + int PaddingMultiple - 1) AND NOT (int PaddingMultiple - 1)) - lastUnit
      else
        let lastUnit = (if lastUnit > tunMTU then lastUnit mod \<bar>tunMTU\<bar> else lastUnit);
            paddedSize = (lastUnit + int PaddingMultiple - 1) AND NOT (int PaddingMultiple - 1);
            paddedSize = (if paddedSize > tunMTU then tunMTU else paddedSize)
        in paddedSize - lastUnit)"

definition transportNonce :: "u64 \<Rightarrow> bytes" where
  "transportNonce n = replicate 4 0 @ put_le64 n"

text \<open>One element of a container in \<^verbatim>\<open>RoutineEncryption\<close>; slicing the zeros out of range panics.\<close>

definition encryptElem :: "Crypto \<Rightarrow> OutElem \<Rightarrow> Device \<Rightarrow> (OutElem \<times> Device) option" where
  "encryptElem C e d =
     do { k \<leftarrow> oeKeypair e;
          (msgType, d) \<leftarrow> generateHeader (hdrTransport d) d;
          let header = put_le32 msgType @ put_le32 (kpRemoteIndex (keypairs d k)) @ put_le64 (oeNonce e);
          let paddingSize = calculatePaddingSize (int (length (oePacket e))) (mtu d);
          (if paddingSize < 0 \<or> paddingSize > int PaddingMultiple then None else Some ());
          let packet = oePacket e @ replicate (nat paddingSize) 0;
          Some (e\<lparr>oePacket := header @ aeadSeal C (kpSend (keypairs d k)) (transportNonce (oeNonce e)) packet []\<rparr>, d) }"

fun encryptElems :: "Crypto \<Rightarrow> OutElem list \<Rightarrow> Device \<Rightarrow> (OutElem list \<times> Device) option" where
  "encryptElems C [] d = Some ([], d)"
| "encryptElems C (e # es) d =
     do { (e', d) \<leftarrow> encryptElem C e d; (es', d) \<leftarrow> encryptElems C es d; Some (e' # es', d) }"

text \<open>A worker encrypts the \<open>i\<close>-th container of the peer's outbound queue, if it is still locked.\<close>

definition RoutineEncryption :: "Crypto \<Rightarrow> peerId \<Rightarrow> nat \<Rightarrow> Device \<Rightarrow> Device option" where
  "RoutineEncryption C p i d =
     (let q = outbound (peers d p)
      in if i < length q \<and> \<not> snd (q ! i)
         then map_option (\<lambda>(es, d). upPeer p (\<lambda>r. r\<lparr>outbound := (outbound r)[i := (es, True)]\<rparr>) d) (encryptElems C (fst (q ! i)) d)
         else Some d)"

section \<open>The sequential sender\<close>

text \<open>
  The padding of one encrypted packet. It is moved up inside its buffer of \<^const>\<open>MaxMessageSize\<close> bytes, which
  panics when it does not fit; the bytes in front are all overwritten.
\<close>

definition padTransportPacket :: "bytes \<Rightarrow> Device \<Rightarrow> (bytes \<times> Device) option" where
  "padTransportPacket packet d =
     (if padTransport d > 0 \<and> packet \<noteq> [] \<and> padTransport d + length packet > MaxMessageSize then None
      else padPacket (padTransport d) packet d)"

fun padTransportPackets :: "bytes list \<Rightarrow> Device \<Rightarrow> (bytes list \<times> Device) option" where
  "padTransportPackets [] d = Some ([], d)"
| "padTransportPackets (b # bs) d =
     do { (b', d) \<leftarrow> padTransportPacket b d; (bs', d) \<leftarrow> padTransportPackets bs d; Some (b' # bs', d) }"

text \<open>\<open>errGSO.RetryErr\<close> takes the place of the error that reports the retry.\<close>

fun retryErr :: "sendError option \<Rightarrow> sendError option" where
  "retryErr (Some (ErrBind (BindGSODisabled ok))) = (if ok then None else Some (ErrBind BindErr))"
| "retryErr e = e"

text \<open>One round of \<^verbatim>\<open>RoutineSequentialSender\<close>: the first container, once its lock is free.\<close>

definition RoutineSequentialSender :: "Crypto \<Rightarrow> Net \<Rightarrow> peerId \<Rightarrow> Device \<Rightarrow> Device option" where
  "RoutineSequentialSender C N p d =
     (case outbound (peers d p) of
        [] \<Rightarrow> Some d
      | (elems, unlocked) # rest \<Rightarrow>
        if \<not> unlocked then Some d
        else
          let d = upPeer p (\<lambda>q. q\<lparr>outbound := rest\<rparr>) d
          in if \<not> isRunning (peers d p) then Some d
          else do {
            let dataSent = (\<exists>e \<in> set elems. length (oePacket e) \<noteq> MessageKeepaliveSize);
            (bufs, d) \<leftarrow> padTransportPackets (map oePacket elems) d;
            let d = timersAnyAuthenticatedPacketSent p (timersAnyAuthenticatedPacketTraversal p d);
            let (err, d) = SendBuffers N p bufs d;
            let d = (if dataSent then timersDataSent p d else d);
            (if retryErr err \<noteq> None then Some d else keepKeyFreshSending C N p d) })"

section \<open>Packets from the TUN device\<close>

definition IPv4offsetTotalLength :: nat where "IPv4offsetTotalLength = 2"
definition IPv4offsetSrc :: nat where "IPv4offsetSrc = 12"
definition IPv4offsetDst :: nat where "IPv4offsetDst = IPv4offsetSrc + 4"
definition IPv6offsetPayloadLength :: nat where "IPv6offsetPayloadLength = 4"
definition IPv6offsetSrc :: nat where "IPv6offsetSrc = 8"
definition IPv6offsetDst :: nat where "IPv6offsetDst = IPv6offsetSrc + 16"
definition ipv4HeaderLen :: nat where "ipv4HeaderLen = 20"
definition ipv6HeaderLen :: nat where "ipv6HeaderLen = 40"

lemmas ip_consts = IPv4offsetTotalLength_def IPv4offsetSrc_def IPv4offsetDst_def IPv6offsetPayloadLength_def IPv6offsetSrc_def
  IPv6offsetDst_def ipv4HeaderLen_def ipv6HeaderLen_def

text \<open>The peer a packet is routed to; the outer \<^const>\<open>None\<close> is a panic of the lookup.\<close>

definition routePacket :: "bytes \<Rightarrow> Device \<Rightarrow> peerId option option" where
  "routePacket packet d =
     (if packet = [] then Some None
      else if drop_bit 4 (hd packet) = 4 then
        (if length packet < ipv4HeaderLen then Some None
         else Lookup (allowedips d) (subslice IPv4offsetDst (IPv4offsetDst + 4) packet))
      else if drop_bit 4 (hd packet) = 6 then
        (if length packet < ipv6HeaderLen then Some None
         else Lookup (allowedips d) (subslice IPv6offsetDst (IPv6offsetDst + 16) packet))
      else Some None)"

text \<open>\<open>elemsByPeer\<close>: the containers in the order their peers first occur; Go iterates a map in any order.\<close>

definition addElem :: "peerId \<Rightarrow> 'e \<Rightarrow> (peerId \<times> 'e list) list \<Rightarrow> (peerId \<times> 'e list) list" where
  "addElem p e m = AList.update p ((case map_of m p of None \<Rightarrow> [] | Some es \<Rightarrow> es) @ [e]) m"

fun groupByPeer :: "bytes list \<Rightarrow> Device \<Rightarrow> (peerId \<times> OutElem list) list \<Rightarrow> (peerId \<times> OutElem list) list option" where
  "groupByPeer [] d m = Some m"
| "groupByPeer (b # bs) d m =
     (case routePacket b d of
        None \<Rightarrow> None
      | Some None \<Rightarrow> groupByPeer bs d m
      | Some (Some p) \<Rightarrow> groupByPeer bs d (addElem p (newOutElem b) m))"

fun stageAndSend :: "Crypto \<Rightarrow> Net \<Rightarrow> (peerId \<times> OutElem list) list \<Rightarrow> Device \<Rightarrow> Device option" where
  "stageAndSend C N [] d = Some d"
| "stageAndSend C N ((p, es) # m) d =
     (if isRunning (peers d p)
      then do { d \<leftarrow> SendStagedPackets C N p (StagePackets p es d); stageAndSend C N m d }
      else stageAndSend C N m d)"

text \<open>One read of \<^verbatim>\<open>RoutineReadFromTUN\<close>: the packets the TUN device delivered.\<close>

definition RoutineReadFromTUN :: "Crypto \<Rightarrow> Net \<Rightarrow> bytes list \<Rightarrow> Device \<Rightarrow> Device option" where
  "RoutineReadFromTUN C N packets d = do { m \<leftarrow> groupByPeer packets d []; stageAndSend C N m d }"

section \<open>Expiration functions\<close>

text \<open>\<^verbatim>\<open>Peer.ZeroAndFlushAll\<close> of \<^verbatim>\<open>device/peer.go\<close>\<close>

definition ZeroAndFlushAll :: "peerId \<Rightarrow> Device \<Rightarrow> Device" where
  "ZeroAndFlushAll p d =
     (let q = peers d p;
          d = DeleteKeypair (kpNext q) (DeleteKeypair (kpCurrent q) (DeleteKeypair (kpPrevious q) d));
          d = upPeer p (\<lambda>q. q\<lparr>kpPrevious := None, kpCurrent := None, kpNext := None\<rparr>) d;
          d = indexDelete (localIndex (handshake (peers d p))) d;
          d = upHandshake p handshakeClear d
      in FlushStagedPackets p d)"

definition expiredRetransmitHandshake :: "Crypto \<Rightarrow> Net \<Rightarrow> peerId \<Rightarrow> Device \<Rightarrow> Device option" where
  "expiredRetransmitHandshake C N p d =
     (if handshakeAttempts (peers d p) > MaxTimerHandshakes then
        let d = (if timersActive p d then delTimer TSendKeepalive p d else d);
            d = FlushStagedPackets p d
        in Some (if timersActive p d \<and> \<not> pending TZeroKeyMaterial p d then modTimer TZeroKeyMaterial (RejectAfterTime * 3) p d else d)
      else
        let d = upPeer p (\<lambda>q. q\<lparr>handshakeAttempts := handshakeAttempts q + 1\<rparr>) d;
            d = markEndpointSrcForClearing p d
        in map_option snd (SendHandshakeInitiation C N p True d))"

definition expiredSendKeepalive :: "Crypto \<Rightarrow> Net \<Rightarrow> peerId \<Rightarrow> Device \<Rightarrow> Device option" where
  "expiredSendKeepalive C N p d =
     do { d \<leftarrow> SendKeepalive C N p d;
          (if needAnotherKeepalive (peers d p) then
             let d = upPeer p (\<lambda>q. q\<lparr>needAnotherKeepalive := False\<rparr>) d
             in Some (if timersActive p d then modTimer TSendKeepalive KeepaliveTimeout p d else d)
           else Some d) }"

definition expiredNewHandshake :: "Crypto \<Rightarrow> Net \<Rightarrow> peerId \<Rightarrow> Device \<Rightarrow> Device option" where
  "expiredNewHandshake C N p d = map_option snd (SendHandshakeInitiation C N p False (markEndpointSrcForClearing p d))"

definition expiredZeroKeyMaterial :: "peerId \<Rightarrow> Device \<Rightarrow> Device option" where
  "expiredZeroKeyMaterial p d = Some (ZeroAndFlushAll p d)"

definition expiredPersistentKeepalive :: "Crypto \<Rightarrow> Net \<Rightarrow> peerId \<Rightarrow> Device \<Rightarrow> Device option" where
  "expiredPersistentKeepalive C N p d = (if persistentKeepaliveInterval (peers d p) > 0 then SendKeepalive C N p d else Some d)"

fun expirationFunction :: "timerName \<Rightarrow> Crypto \<Rightarrow> Net \<Rightarrow> peerId \<Rightarrow> Device \<Rightarrow> Device option" where
  "expirationFunction TRetransmitHandshake C N p d = expiredRetransmitHandshake C N p d"
| "expirationFunction TSendKeepalive C N p d = expiredSendKeepalive C N p d"
| "expirationFunction TNewHandshake C N p d = expiredNewHandshake C N p d"
| "expirationFunction TZeroKeyMaterial C N p d = expiredZeroKeyMaterial p d"
| "expirationFunction TPersistentKeepalive C N p d = expiredPersistentKeepalive C N p d"

text \<open>A callback the runtime has started: it runs the expiration function only if the timer is still pending.\<close>

definition runTimer :: "Crypto \<Rightarrow> Net \<Rightarrow> timerName \<Rightarrow> peerId \<Rightarrow> Device \<Rightarrow> Device option" where
  "runTimer C N n p d =
     (if fired (getTimer n (peers d p)) = 0 then Some d
      else case timerCallback (getTimer n (peers d p)) of (go, t) \<Rightarrow>
        let d = upPeer p (setTimer n t) d in if go then expirationFunction n C N p d else Some d)"

end
