(* ===== verification/Receive.thy ===== *)
theory Receive
  imports Send
begin

text \<open>
  The receiving side of \<^verbatim>\<open>device/receive.go\<close>: datagrams are classified by size and magic header, queued for
  the handshake or decryption workers, and decrypted packets pass the replay filter and the source
  address check before they are written to the TUN device.
\<close>

section \<open>Classification\<close>

definition DeterminePacketTypeAndPadding :: "bytes \<Rightarrow> u32 \<Rightarrow> Device \<Rightarrow> u32 \<times> nat" where
  "DeterminePacketTypeAndPadding packet expected d =
     (let size = length packet
      in if (expected = MessageUnknownType \<or> expected = MessageInitiationType) \<and> size = padInit d + MessageInitiationSize \<and>
            Validate (hdrInit d) (get_le32 (drop (padInit d) packet)) then (MessageInitiationType, padInit d)
      else if (expected = MessageUnknownType \<or> expected = MessageResponseType) \<and> size = padResponse d + MessageResponseSize \<and>
            Validate (hdrResponse d) (get_le32 (drop (padResponse d) packet)) then (MessageResponseType, padResponse d)
      else if (expected = MessageUnknownType \<or> expected = MessageCookieReplyType) \<and> size = padCookie d + MessageCookieReplySize \<and>
            Validate (hdrCookie d) (get_le32 (drop (padCookie d) packet)) then (MessageCookieReplyType, padCookie d)
      else if (expected = MessageUnknownType \<or> expected = MessageTransportType) \<and> size \<ge> padTransport d + MessageTransportHeaderSize \<and>
            Validate (hdrTransport d) (get_le32 (drop (padTransport d) packet)) then (MessageTransportType, padTransport d)
      else (MessageUnknownType, 0))"

section \<open>Datagrams from the network\<close>

text \<open>
  What becomes of one datagram of a batch: it is dropped, goes to the container of a peer, or to the
  handshake queue.
\<close>

datatype incoming = Dropped | ForPeer peerId InElem | ForHandshake HandshakeElem

definition classify :: "bytes \<Rightarrow> Endpoint \<Rightarrow> Device \<Rightarrow> incoming" where
  "classify packet ep d =
     (if length packet < MinMessageSize then Dropped
      else
        let (msgType, padding) = DeterminePacketTypeAndPadding packet MessageUnknownType d;
            packet = drop padding packet
        in if msgType = MessageTransportType then
             (if length packet < MessageTransportSize then Dropped
              else
                let receiver = get_le32 (drop MessageTransportOffsetReceiver packet);
                    value = indexLookup receiver d
                in case (entryKeypair value, entryPeer value) of
                     (Some k, Some p) \<Rightarrow>
                       if created (keypairs d k) + RejectAfterTime < clock d then Dropped
                       else ForPeer p \<lparr>iePacket = Some packet, ieCounter = 0, ieKeypair = k, ieEndpoint = ep\<rparr>
                   | _ \<Rightarrow> Dropped)
           else if msgType = MessageInitiationType \<and> length packet = MessageInitiationSize \<or>
                   msgType = MessageResponseType \<and> length packet = MessageResponseSize \<or>
                   msgType = MessageCookieReplyType \<and> length packet = MessageCookieReplySize
             then ForHandshake \<lparr>heMsgType = msgType, hePacket = packet, heEndpoint = ep\<rparr>
           else Dropped)"

text \<open>The loop over a batch; a full handshake queue drops the element.\<close>

fun receiveBatch :: "(bytes \<times> Endpoint) list \<Rightarrow> (peerId \<times> InElem list) list \<Rightarrow> Device \<Rightarrow> (peerId \<times> InElem list) list \<times> Device" where
  "receiveBatch [] m d = (m, d)"
| "receiveBatch ((b, ep) # bs) m d =
     (case classify b ep d of
        Dropped \<Rightarrow> receiveBatch bs m d
      | ForPeer p e \<Rightarrow> receiveBatch bs (addElem p e m) d
      | ForHandshake e \<Rightarrow>
          receiveBatch bs m (if length (handshakeQueue d) < QueueHandshakeSize then d\<lparr>handshakeQueue := handshakeQueue d @ [e]\<rparr> else d))"

fun queueInbound :: "(peerId \<times> InElem list) list \<Rightarrow> Device \<Rightarrow> Device" where
  "queueInbound [] d = d"
| "queueInbound ((p, es) # m) d =
     queueInbound m (if isRunning (peers d p) then upPeer p (\<lambda>q. q\<lparr>inbound := inbound q @ [(es, False)]\<rparr>) d else d)"

text \<open>One batch of \<^verbatim>\<open>RoutineReceiveIncoming\<close>.\<close>

definition RoutineReceiveIncoming :: "(bytes \<times> Endpoint) list \<Rightarrow> Device \<Rightarrow> Device" where
  "RoutineReceiveIncoming batch d = (case receiveBatch batch [] d of (m, d) \<Rightarrow> queueInbound m d)"

section \<open>Decryption\<close>

definition decryptElem :: "Crypto \<Rightarrow> Device \<Rightarrow> InElem \<Rightarrow> InElem" where
  "decryptElem C d e =
     (case iePacket e of
        None \<Rightarrow> e
      | Some packet \<Rightarrow>
        let counter = get_le64 (drop MessageTransportOffsetCounter packet);
            content = drop MessageTransportOffsetContent packet
        in e\<lparr>ieCounter := counter, iePacket := aeadOpen C (kpReceive (keypairs d (ieKeypair e))) (transportNonce counter) content []\<rparr>)"

text \<open>A worker decrypts the \<open>i\<close>-th container of the peer's inbound queue, if it is still locked.\<close>

definition RoutineDecryption :: "Crypto \<Rightarrow> peerId \<Rightarrow> nat \<Rightarrow> Device \<Rightarrow> Device" where
  "RoutineDecryption C p i d =
     (let q = inbound (peers d p)
      in if i < length q \<and> \<not> snd (q ! i)
         then upPeer p (\<lambda>r. r\<lparr>inbound := (inbound r)[i := (map (decryptElem C d) (fst (q ! i)), True)]\<rparr>) d
         else d)"

section \<open>Handshake messages\<close>

definition IsUnderLoad :: "Device \<Rightarrow> bool \<times> Device" where
  "IsUnderLoad d =
     (if length (handshakeQueue d) \<ge> QueueHandshakeSize div 8
      then (True, d\<lparr>underLoadUntil := clock d + UnderLoadAfterTime\<rparr>)
      else (underLoadUntil d > clock d, d))"

definition consumeCookieReply :: "Crypto \<Rightarrow> bytes \<Rightarrow> Device \<Rightarrow> Device" where
  "consumeCookieReply C packet d =
     (case unmarshalCookieReply packet of
        None \<Rightarrow> d
      | Some reply \<Rightarrow>
        (case entryPeer (indexLookup (mcReceiver reply) d) of
           None \<Rightarrow> d
         | Some p \<Rightarrow>
             if isRunning (peers d p)
             then upPeer p (\<lambda>q. q\<lparr>cookieGenerator := snd (ConsumeReply C (clock d) reply (cookieGenerator q))\<rparr>) d
             else d))"

text \<open>
  The checks before a handshake message is handled: \<^const>\<open>True\<close> when it goes on. A message under load without a
  valid second code is answered with a cookie.
\<close>

definition checkHandshake :: "Crypto \<Rightarrow> Net \<Rightarrow> HandshakeElem \<Rightarrow> Device \<Rightarrow> (bool \<times> Device) option" where
  "checkHandshake C N elem d =
     do { mac1 \<leftarrow> CheckMAC1 C (cookieChecker d) (hePacket elem);
          (if \<not> mac1 then Some (False, d)
           else case IsUnderLoad d of
             (False, d) \<Rightarrow> Some (True, d)
           | (True, d) \<Rightarrow> do {
               mac2 \<leftarrow> CheckMAC2 C (clock d) (cookieChecker d) (hePacket elem) (DstToBytes (heEndpoint elem));
               (if \<not> mac2 then map_option (\<lambda>d. (False, d)) (SendHandshakeCookie C N elem d)
                else case Allow (clock d) (dstAddr (heEndpoint elem), dstZone (heEndpoint elem)) (limiter d) of
                  (ok, rate) \<Rightarrow> Some (ok, d\<lparr>limiter := rate\<rparr>)) }) }"

definition addRxBytes :: "nat \<Rightarrow> peerId \<Rightarrow> Device \<Rightarrow> Device" where
  "addRxBytes n p d = upPeer p (\<lambda>q. q\<lparr>rxBytes := rxBytes q + word_of_nat n\<rparr>) d"

definition handleInitiation :: "Crypto \<Rightarrow> Net \<Rightarrow> HandshakeElem \<Rightarrow> Device \<Rightarrow> Device option" where
  "handleInitiation C N elem d =
     (case unmarshalInitiation (hePacket elem) of
        None \<Rightarrow> Some d
      | Some msg \<Rightarrow>
        (case ConsumeMessageInitiation C (msg\<lparr>miType := heMsgType elem\<rparr>) d of
           (None, d) \<Rightarrow> Some d
         | (Some p, d) \<Rightarrow>
             let d = timersAnyAuthenticatedPacketReceived p (timersAnyAuthenticatedPacketTraversal p d);
                 d = SetEndpointFromPacket p (heEndpoint elem) d;
                 d = addRxBytes (length (hePacket elem)) p d
             in map_option snd (SendHandshakeResponse C N p d)))"

definition handleResponse :: "Crypto \<Rightarrow> Net \<Rightarrow> HandshakeElem \<Rightarrow> Device \<Rightarrow> Device option" where
  "handleResponse C N elem d =
     (case unmarshalResponse (hePacket elem) of
        None \<Rightarrow> Some d
      | Some msg \<Rightarrow>
        (case ConsumeMessageResponse C (msg\<lparr>mrType := heMsgType elem\<rparr>) d of
           (None, d) \<Rightarrow> Some d
         | (Some p, d) \<Rightarrow>
             let d = SetEndpointFromPacket p (heEndpoint elem) d;
                 d = addRxBytes (length (hePacket elem)) p d;
                 d = timersAnyAuthenticatedPacketReceived p (timersAnyAuthenticatedPacketTraversal p d)
             in case BeginSymmetricSession C p d of
                  (Some e, d) \<Rightarrow> Some d
                | (None, d) \<Rightarrow> SendKeepalive C N p (timersHandshakeComplete p (timersSessionDerived p d))))"

text \<open>One element of \<^verbatim>\<open>RoutineHandshake\<close>.\<close>

definition RoutineHandshake :: "Crypto \<Rightarrow> Net \<Rightarrow> Device \<Rightarrow> Device option" where
  "RoutineHandshake C N d =
     (case handshakeQueue d of
        [] \<Rightarrow> Some d
      | elem # rest \<Rightarrow>
        let d = d\<lparr>handshakeQueue := rest\<rparr>
        in if heMsgType elem = MessageCookieReplyType then Some (consumeCookieReply C (hePacket elem) d)
        else if heMsgType elem = MessageInitiationType \<or> heMsgType elem = MessageResponseType then
          do { (go, d) \<leftarrow> checkHandshake C N elem d;
               (if \<not> go then Some d
                else if heMsgType elem = MessageInitiationType then handleInitiation C N elem d
                else handleResponse C N elem d) }
        else Some d)"

section \<open>The sequential receiver\<close>

definition keepKeyFreshReceiving :: "Crypto \<Rightarrow> Net \<Rightarrow> peerId \<Rightarrow> Device \<Rightarrow> Device option" where
  "keepKeyFreshReceiving C N p d =
     (if sentLastMinuteHandshake (peers d p) then Some d
      else case kpCurrent (peers d p) of
        None \<Rightarrow> Some d
      | Some k \<Rightarrow>
        if isInitiator (keypairs d k) \<and> timeSince d (created (keypairs d k)) > RejectAfterTime - KeepaliveTimeout - RekeyTimeout
        then map_option snd (SendHandshakeInitiation C N p False (upPeer p (\<lambda>q. q\<lparr>sentLastMinuteHandshake := True\<rparr>) d))
        else Some d)"

text \<open>
  The packet a decrypted payload holds, if its header is well-formed and the routing table maps its source
  to the peer. The IPv6 length is 16-bit and wraps; the source is read from the buffer even when the
  length is shorter. The outer \<^const>\<open>None\<close> is a panic of the lookup.
\<close>

definition acceptPacket :: "peerId \<Rightarrow> bytes \<Rightarrow> Device \<Rightarrow> bytes option option" where
  "acceptPacket p packet d =
     (if drop_bit 4 (hd packet) = 4 then
        (if length packet < ipv4HeaderLen then Some None
         else
           let len = unat (get_be16 (drop IPv4offsetTotalLength packet))
           in if len > length packet \<or> len < ipv4HeaderLen then Some None
              else map_option (\<lambda>q. if q \<noteq> Some p then None else Some (take len packet))
                     (Lookup (allowedips d) (subslice IPv4offsetSrc (IPv4offsetSrc + 4) packet)))
      else if drop_bit 4 (hd packet) = 6 then
        (if length packet < ipv6HeaderLen then Some None
         else
           let len = unat (get_be16 (drop IPv6offsetPayloadLength packet) + word_of_nat ipv6HeaderLen)
           in if len > length packet then Some None
              else map_option (\<lambda>q. if q \<noteq> Some p then None else Some (take len packet))
                     (Lookup (allowedips d) (subslice IPv6offsetSrc (IPv6offsetSrc + 16) packet)))
      else Some None)"

text \<open>The variables of the loop over a container.\<close>

record RecvLoop =
  validTail :: "Endpoint option"
  dataPacketReceived :: bool
  rxBytesLen :: u64
  recvBufs :: "bytes list"

definition receiveElem :: "Crypto \<Rightarrow> Net \<Rightarrow> peerId \<Rightarrow> InElem \<Rightarrow> RecvLoop \<times> Device \<Rightarrow> (RecvLoop \<times> Device) option" where
  "receiveElem C N p e s =
     (case s of (l, d) \<Rightarrow>
      case iePacket e of
        None \<Rightarrow> Some (l, d)
      | Some packet \<Rightarrow>
        do { (f, ok) \<leftarrow> ValidateCounter (replayFilter (keypairs d (ieKeypair e))) (ieCounter e) RejectAfterMessages;
             let d = upKeypair (ieKeypair e) (\<lambda>kp. kp\<lparr>replayFilter := f\<rparr>) d;
             (if \<not> ok then Some (l, d)
              else do {
                d \<leftarrow> (case ReceivedWithKeypair p (ieKeypair e) d of
                       (False, d) \<Rightarrow> Some d
                     | (True, d) \<Rightarrow> SendStagedPackets C N p (timersHandshakeComplete p (SetEndpointFromPacket p (ieEndpoint e) d)));
                let l = l\<lparr>validTail := Some (ieEndpoint e), rxBytesLen := rxBytesLen l + word_of_nat (length packet + MinMessageSize)\<rparr>;
                (if packet = [] then Some (l, d)
                 else do {
                   r \<leftarrow> acceptPacket p packet d;
                   let l = l\<lparr>dataPacketReceived := True\<rparr>;
                   Some ((case r of None \<Rightarrow> l | Some b \<Rightarrow> l\<lparr>recvBufs := recvBufs l @ [b]\<rparr>), d) }) }) })"

fun receiveElems :: "Crypto \<Rightarrow> Net \<Rightarrow> peerId \<Rightarrow> InElem list \<Rightarrow> RecvLoop \<times> Device \<Rightarrow> (RecvLoop \<times> Device) option" where
  "receiveElems C N p [] s = Some s"
| "receiveElems C N p (e # es) s = do { s \<leftarrow> receiveElem C N p e s; receiveElems C N p es s }"

definition recvLoop0 :: RecvLoop where
  "recvLoop0 = \<lparr>validTail = None, dataPacketReceived = False, rxBytesLen = 0, recvBufs = []\<rparr>"

text \<open>The processing of one container, and one round of \<^verbatim>\<open>RoutineSequentialReceiver\<close>.\<close>

definition receiveContainer :: "Crypto \<Rightarrow> Net \<Rightarrow> peerId \<Rightarrow> InElem list \<Rightarrow> Device \<Rightarrow> Device option" where
  "receiveContainer C N p elems d =
     do { (l, d) \<leftarrow> receiveElems C N p elems (recvLoop0, d);
          let d = upPeer p (\<lambda>q. q\<lparr>rxBytes := rxBytes q + rxBytesLen l\<rparr>) d;
          d \<leftarrow> (case validTail l of
                  None \<Rightarrow> Some d
                | Some ep \<Rightarrow> do {
                    d \<leftarrow> keepKeyFreshReceiving C N p (SetEndpointFromPacket p ep d);
                    Some (timersAnyAuthenticatedPacketReceived p (timersAnyAuthenticatedPacketTraversal p d)) });
          let d = (if dataPacketReceived l then timersDataReceived p d else d);
          Some (d\<lparr>tunOut := tunOut d @ recvBufs l\<rparr>) }"

definition RoutineSequentialReceiver :: "Crypto \<Rightarrow> Net \<Rightarrow> peerId \<Rightarrow> Device \<Rightarrow> Device option" where
  "RoutineSequentialReceiver C N p d =
     (case inbound (peers d p) of
        [] \<Rightarrow> Some d
      | (elems, unlocked) # rest \<Rightarrow>
        if \<not> unlocked then Some d
        else receiveContainer C N p elems (upPeer p (\<lambda>q. q\<lparr>inbound := rest\<rparr>) d))"

end
