(* ===== verification/DeviceOps.thy ===== *)
theory DeviceOps
  imports Receive
begin

text \<open>
  The life cycle of peers and of the device: \<^verbatim>\<open>device/peer.go\<close>, \<^verbatim>\<open>device/device.go\<close>,
  \<^verbatim>\<open>device/tun.go\<close> and \<^verbatim>\<open>device/mobilequirks.go\<close>. The map of peers is an association list, iterated in
  list order where Go's order is arbitrary. Stopping a peer waits for its two routines: the receiver
  handles every container queued before it, the sender drops what it finds.
\<close>

datatype devError = ErrDeviceClosed | ErrTooManyPeers | ErrExistingPeer | ErrBindOpen | ErrBindClose | ErrBindSetMark
  | ErrRouteListener

section \<open>Peers\<close>

text \<open>A zero secret stands for an invalid public key, as in the ignored error of \<^verbatim>\<open>sharedSecret\<close>.\<close>

definition staticStatic :: "Crypto \<Rightarrow> bytes \<Rightarrow> bytes \<Rightarrow> bytes" where
  "staticStatic C sk pk = (case sharedSecret C sk pk of None \<Rightarrow> zeroKey | Some ss \<Rightarrow> ss)"

definition NewPeer :: "Crypto \<Rightarrow> bytes \<Rightarrow> Device \<Rightarrow> (devError + peerId) \<times> Device" where
  "NewPeer C pk d =
     (if isClosed d then (Inl ErrDeviceClosed, d)
      else if length (keyMap d) \<ge> MaxPeers then (Inl ErrTooManyPeers, d)
      else if map_of (keyMap d) pk \<noteq> None then (Inl ErrExistingPeer, d)
      else
        let p = nextPeer d;
            q = zeroPeer\<lparr>cookieGenerator := generatorInit C pk zeroCookieGenerator,
                  handshake := zeroHandshake\<lparr>precomputedStaticStatic := staticStatic C (privateKey d) pk, remoteStatic := pk\<rparr>\<rparr>
        in (Inr p, d\<lparr>peers := (peers d)(p := q), nextPeer := p + 1, keyMap := AList.update pk p (keyMap d)\<rparr>))"

definition peerStart :: "peerId \<Rightarrow> Device \<Rightarrow> Device" where
  "peerStart p d =
     (if isClosed d \<or> isRunning (peers d p) then d
      else
        let d = upHandshake p (\<lambda>h. h\<lparr>lastSentHandshake := clock d - (RekeyTimeout + second)\<rparr>) d;
            d = timersStart p d
        in upPeer p (\<lambda>q. q\<lparr>inbound := [], outbound := [], isRunning := True\<rparr>) d)"

text \<open>The receiver's last rounds before it meets the nil that tells it to stop.\<close>

fun drainInbound :: "Crypto \<Rightarrow> Net \<Rightarrow> peerId \<Rightarrow> (InElem list \<times> bool) list \<Rightarrow> Device \<Rightarrow> Device option" where
  "drainInbound C N p [] d = Some d"
| "drainInbound C N p ((es, unlocked) # cs) d =
     do { d \<leftarrow> receiveContainer C N p (if unlocked then es else map (decryptElem C d) es) d; drainInbound C N p cs d }"

definition peerStop :: "Crypto \<Rightarrow> Net \<Rightarrow> peerId \<Rightarrow> Device \<Rightarrow> Device option" where
  "peerStop C N p d =
     (if \<not> isRunning (peers d p) then Some d
      else do {
        let d = timersStop p (upPeer p (\<lambda>q. q\<lparr>isRunning := False\<rparr>) d);
        let cs = inbound (peers d p);
        d \<leftarrow> drainInbound C N p cs (upPeer p (\<lambda>q. q\<lparr>inbound := [], outbound := []\<rparr>) d);
        Some (ZeroAndFlushAll p d) })"

definition ExpireCurrentKeypairs :: "peerId \<Rightarrow> Device \<Rightarrow> Device" where
  "ExpireCurrentKeypairs p d =
     (let d = indexDelete (localIndex (handshake (peers d p))) d;
          d = upHandshake p (\<lambda>h. (handshakeClear h)\<lparr>lastSentHandshake := clock d - (RekeyTimeout + second)\<rparr>) d;
          expire = (\<lambda>k d. case k of None \<Rightarrow> d | Some k \<Rightarrow> upKeypair k (\<lambda>kp. kp\<lparr>sendNonce := RejectAfterMessages\<rparr>) d)
      in expire (kpNext (peers d p)) (expire (kpCurrent (peers d p)) d))"

section \<open>The map of peers\<close>

definition removePeerLocked :: "Crypto \<Rightarrow> Net \<Rightarrow> peerId \<Rightarrow> bytes \<Rightarrow> Device \<Rightarrow> Device option" where
  "removePeerLocked C N p pk d =
     do { tab \<leftarrow> RemoveByPeer (allowedips d) p;
          d \<leftarrow> peerStop C N p (d\<lparr>allowedips := tab\<rparr>);
          Some (d\<lparr>keyMap := AList.delete pk (keyMap d)\<rparr>) }"

definition RemovePeer :: "Crypto \<Rightarrow> Net \<Rightarrow> bytes \<Rightarrow> Device \<Rightarrow> Device option" where
  "RemovePeer C N pk d = (case map_of (keyMap d) pk of None \<Rightarrow> Some d | Some p \<Rightarrow> removePeerLocked C N p pk d)"

text \<open>The loops over the map: a state transformer for each entry, in order.\<close>

fun forPeers :: "(bytes \<times> peerId) list \<Rightarrow> (bytes \<Rightarrow> peerId \<Rightarrow> Device \<Rightarrow> Device option) \<Rightarrow> Device \<Rightarrow> Device option" where
  "forPeers [] f d = Some d"
| "forPeers ((pk, p) # m) f d = do { d \<leftarrow> f pk p d; forPeers m f d }"

definition RemoveAllPeers :: "Crypto \<Rightarrow> Net \<Rightarrow> Device \<Rightarrow> Device option" where
  "RemoveAllPeers C N d =
     do { d \<leftarrow> forPeers (keyMap d) (\<lambda>pk p. removePeerLocked C N p pk) d; Some (d\<lparr>keyMap := []\<rparr>) }"

definition SetPrivateKey :: "Crypto \<Rightarrow> Net \<Rightarrow> bytes \<Rightarrow> Device \<Rightarrow> Device option" where
  "SetPrivateKey C N sk d =
     (if keyEquals sk (privateKey d) then Some d
      else do {
        let pub = publicKeyOf C sk;
        d \<leftarrow> forPeers (keyMap d) (\<lambda>pk p d. if keyEquals (remoteStatic (handshake (peers d p))) pub then removePeerLocked C N p pk d else Some d) d;
        let d = d\<lparr>privateKey := sk, publicKey := pub, cookieChecker := checkerInit C pub (cookieChecker d)\<rparr>;
        d \<leftarrow> forPeers (keyMap d) (\<lambda>pk p d. Some (upHandshake p (\<lambda>h. h\<lparr>precomputedStaticStatic := staticStatic C (privateKey d) (remoteStatic h)\<rparr>) d)) d;
        forPeers (keyMap d) (\<lambda>pk p d. Some (ExpireCurrentKeypairs p d)) d })"

definition SendKeepalivesToPeersWithCurrentKeypair :: "Crypto \<Rightarrow> Net \<Rightarrow> Device \<Rightarrow> Device option" where
  "SendKeepalivesToPeersWithCurrentKeypair C N d =
     (if \<not> isUp d then Some d
      else forPeers (keyMap d) (\<lambda>pk p d. case kpCurrent (peers d p) of
          None \<Rightarrow> Some d
        | Some k \<Rightarrow> if \<not> created (keypairs d k) + RejectAfterTime < clock d then SendKeepalive C N p d else Some d) d)"

definition DisableSomeRoamingForBrokenMobileSemantics :: "Device \<Rightarrow> Device option" where
  "DisableSomeRoamingForBrokenMobileSemantics d =
     forPeers (keyMap d) (\<lambda>pk p d. Some (upPeer p (\<lambda>q. q\<lparr>disableRoaming := (epVal q \<noteq> None)\<rparr>) d)) (d\<lparr>brokenRoaming := True\<rparr>)"

section \<open>The network bind\<close>

definition netCall :: "Device \<Rightarrow> Device" where "netCall d = d\<lparr>netCalls := netCalls d + 1\<rparr>"

definition closeBindLocked :: "Net \<Rightarrow> Device \<Rightarrow> devError option \<times> Device" where
  "closeBindLocked N d = (if bindClose N (netCalls d) then None else Some ErrBindClose, netCall d)"

definition BindClose :: "Net \<Rightarrow> Device \<Rightarrow> devError option \<times> Device" where
  "BindClose N d = closeBindLocked N d"

definition markAllForClearing :: "Device \<Rightarrow> Device option" where
  "markAllForClearing d = forPeers (keyMap d) (\<lambda>pk p d. Some (markEndpointSrcForClearing p d)) d"

definition BindSetMark :: "Net \<Rightarrow> u32 \<Rightarrow> Device \<Rightarrow> (devError option \<times> Device) option" where
  "BindSetMark N fwm d =
     (if fwmark d = fwm then Some (None, d)
      else
        let d = d\<lparr>fwmark := fwm\<rparr>
        in if isUp d \<and> \<not> bindSetMark N (netCalls d) fwm then Some (Some ErrBindSetMark, netCall d)
           else map_option (\<lambda>d. (None, d)) (markAllForClearing (if isUp d then netCall d else d)))"

definition BindUpdate :: "Net \<Rightarrow> Device \<Rightarrow> (devError option \<times> Device) option" where
  "BindUpdate N d =
     (case closeBindLocked N d of
        (Some e, d) \<Rightarrow> Some (Some e, d)
      | (None, d) \<Rightarrow>
        if \<not> isUp d then Some (None, d)
        else case bindOpen N (netCalls d) (netPort d) of
          None \<Rightarrow> Some (Some ErrBindOpen, (netCall d)\<lparr>netPort := 0\<rparr>)
        | Some port \<Rightarrow>
          let d = (netCall d)\<lparr>netPort := port\<rparr>
          in if \<not> startRouteListener N (netCalls d) then Some (Some ErrRouteListener, (netCall (netCall d))\<lparr>netPort := 0\<rparr>)
          else
            let d = netCall d
            in if fwmark d \<noteq> 0 \<and> \<not> bindSetMark N (netCalls d) (fwmark d) then Some (Some ErrBindSetMark, netCall d)
               else map_option (\<lambda>d. (None, d)) (markAllForClearing (if fwmark d \<noteq> 0 then netCall d else d)))"

section \<open>The state of the device\<close>

definition upLocked :: "Crypto \<Rightarrow> Net \<Rightarrow> Device \<Rightarrow> (devError option \<times> Device) option" where
  "upLocked C N d =
     do { (err, d) \<leftarrow> BindUpdate N d;
          (case err of
             Some e \<Rightarrow> Some (Some e, d)
           | None \<Rightarrow> map_option (\<lambda>d. (None, d))
               (forPeers (keyMap d) (\<lambda>pk p d.
                  let d = peerStart p d
                  in if persistentKeepaliveInterval (peers d p) > 0 then SendKeepalive C N p d else Some d) d)) }"

definition downLocked :: "Crypto \<Rightarrow> Net \<Rightarrow> Device \<Rightarrow> (devError option \<times> Device) option" where
  "downLocked C N d =
     (case BindClose N d of (err, d) \<Rightarrow>
        map_option (\<lambda>d. (err, d)) (forPeers (keyMap d) (\<lambda>pk p. peerStop C N p) d))"

definition changeState :: "Crypto \<Rightarrow> Net \<Rightarrow> deviceState \<Rightarrow> Device \<Rightarrow> (devError option \<times> Device) option" where
  "changeState C N want d =
     (if isClosed d \<or> want = devState d then Some (None, d)
      else if want = deviceStateUp then
        do { (err, d) \<leftarrow> upLocked C N (d\<lparr>devState := deviceStateUp\<rparr>);
             (case err of
                None \<Rightarrow> Some (None, d)
              | Some e \<Rightarrow> map_option (\<lambda>(_, d). (Some e, d)) (downLocked C N (d\<lparr>devState := deviceStateDown\<rparr>))) }
      else if want = deviceStateDown then downLocked C N (d\<lparr>devState := deviceStateDown\<rparr>)
      else Some (None, d))"

definition Up :: "Crypto \<Rightarrow> Net \<Rightarrow> Device \<Rightarrow> (devError option \<times> Device) option" where
  "Up C N d = changeState C N deviceStateUp d"

definition Down :: "Crypto \<Rightarrow> Net \<Rightarrow> Device \<Rightarrow> (devError option \<times> Device) option" where
  "Down C N d = changeState C N deviceStateDown d"

definition deviceClose :: "Crypto \<Rightarrow> Net \<Rightarrow> Device \<Rightarrow> Device option" where
  "deviceClose C N d =
     (if isClosed d then Some d
      else do {
        (_, d) \<leftarrow> downLocked C N (d\<lparr>devState := deviceStateClosed\<rparr>);
        d \<leftarrow> RemoveAllPeers C N d;
        Some (d\<lparr>limiter := (limiter d)\<lparr>ticking := False\<rparr>\<rparr>) })"

definition MaxContentSize :: int where "MaxContentSize = int MaxSegmentSize - int MessageTransportSize"

text \<open>
  One event of \<^verbatim>\<open>RoutineTUNEventReader\<close>: whether it reports a new MTU (and the MTU then read, nothing on an
  error), and its up and down flags.
\<close>

record tunEvent =
  evMTU :: "int option option"
  evUp :: bool
  evDown :: bool

definition RoutineTUNEventReader :: "Crypto \<Rightarrow> Net \<Rightarrow> tunEvent \<Rightarrow> Device \<Rightarrow> Device option" where
  "RoutineTUNEventReader C N ev d =
     (case evMTU ev of
        Some None \<Rightarrow> Some d
      | m \<Rightarrow>
        let skip = (case m of Some (Some v) \<Rightarrow> v < 0 | _ \<Rightarrow> False);
            d = (case m of Some (Some v) \<Rightarrow> if v < 0 then d else d\<lparr>mtu := (if v > MaxContentSize then MaxContentSize else v)\<rparr> | _ \<Rightarrow> d)
        in if skip then Some d
           else do { d \<leftarrow> (if evUp ev then map_option snd (Up C N d) else Some d);
                     (if evDown ev then map_option snd (Down C N d) else Some d) })"

end
