(* ===== verification/Netip.thy ===== *)
theory Netip
  imports AllowedIPs
begin

text \<open>
  What the configuration interface uses of Go's \<^verbatim>\<open>net/netip\<close>: parsing and printing of addresses, prefixes
  and address-port pairs. An address is its 4 or 16 bytes with an IPv6 zone. The theory proves that
  printed prefixes and address-port pairs parse back.
\<close>

section \<open>Parsing\<close>

text \<open>\<^verbatim>\<open>LastIndexByte\<close>: the parts before and after the last separator.\<close>

definition lastCut :: "char \<Rightarrow> string \<Rightarrow> (string \<times> string) option" where
  "lastCut sep s = map_option (\<lambda>(a, b). (rev b, rev a)) (cut sep (rev s))"

text \<open>A field of an IPv4 address: digits without a leading zero, at most 255.\<close>

definition parseOctet :: "string \<Rightarrow> u8 option" where
  "parseOctet s =
     (if s = [] \<or> length s > 1 \<and> hd s = CHR ''0'' then None
      else case parseDigits 255 0 s of Inl e \<Rightarrow> None | Inr n \<Rightarrow> Some (word_of_nat n))"

fun parseOctets :: "string list \<Rightarrow> bytes option" where
  "parseOctets [] = Some []"
| "parseOctets (f # fs) = (case parseOctet f of None \<Rightarrow> None | Some b \<Rightarrow> map_option (\<lambda>bs. b # bs) (parseOctets fs))"

definition parseIPv4 :: "string \<Rightarrow> bytes option" where
  "parseIPv4 s = (let fs = splitOn CHR ''.'' s in if length fs = 4 then parseOctets fs else None)"

definition is_hex :: "char \<Rightarrow> bool" where "is_hex c \<longleftrightarrow> hexNibble c \<noteq> None"

definition hexVal :: "string \<Rightarrow> nat" where
  "hexVal s = foldl (\<lambda>acc c. acc * 16 + the (hexNibble c)) 0 s"

text \<open>
  The loop over the groups of an IPv6 address: the text left, the bytes read and the position of the
  ellipsis. The first argument is the number of groups that still fit.
\<close>

fun v6loop :: "nat \<Rightarrow> string \<Rightarrow> bytes \<Rightarrow> nat option \<Rightarrow> (string \<times> bytes \<times> nat option) option" where
  "v6loop 0 s ip ellipsis = Some (s, ip, ellipsis)"
| "v6loop (Suc n) s ip ellipsis =
     (let hex = takeWhile is_hex s; off = length hex; r = drop off s
      in if off = 0 \<or> off > 4 then None
         else if r \<noteq> [] \<and> hd r = CHR ''.'' then
           (if ellipsis = None \<and> length ip \<noteq> 12 \<or> length ip + 4 > 16 then None
            else map_option (\<lambda>v4. ([], ip @ v4, ellipsis)) (parseIPv4 s))
         else
           let ip = ip @ put_be16 (word_of_nat (hexVal hex))
           in if r = [] then Some ([], ip, ellipsis)
              else if hd r \<noteq> CHR '':'' \<or> tl r = [] then None
              else if hd (tl r) = CHR '':'' then
                (if ellipsis \<noteq> None then None
                 else if tl (tl r) = [] then Some ([], ip, Some (length ip))
                 else v6loop n (tl (tl r)) ip (Some (length ip)))
              else v6loop n (tl r) ip ellipsis)"

definition v6expand :: "string \<times> bytes \<times> nat option \<Rightarrow> bytes option" where
  "v6expand r = (case r of (s, ip, ellipsis) \<Rightarrow>
     if s \<noteq> [] then None
     else if length ip < 16 then
       map_option (\<lambda>e. take e ip @ replicate (16 - length ip) 0 @ drop e ip) ellipsis
     else if ellipsis \<noteq> None then None
     else Some ip)"

definition parseIPv6 :: "string \<Rightarrow> (bytes \<times> string) option" where
  "parseIPv6 s =
     (case (case cut CHR ''%'' s of None \<Rightarrow> Some (s, []) | Some (a, z) \<Rightarrow> if z = [] then None else Some (a, z)) of
        None \<Rightarrow> None
      | Some (s, zone) \<Rightarrow>
        if take 2 s = ''::'' then
          (if drop 2 s = [] then Some (replicate 16 0, zone)
           else map_option (\<lambda>ip. (ip, zone)) (Option.bind (v6loop 8 (drop 2 s) [] (Some 0)) v6expand))
        else map_option (\<lambda>ip. (ip, zone)) (Option.bind (v6loop 8 s [] None) v6expand))"

definition parseAddr :: "string \<Rightarrow> (bytes \<times> string) option" where
  "parseAddr s =
     (case dropWhile (\<lambda>c. c \<notin> {CHR ''.'', CHR '':'', CHR ''%''}) s of
        [] \<Rightarrow> None
      | c # _ \<Rightarrow> if c = CHR ''.'' then map_option (\<lambda>ip. (ip, [])) (parseIPv4 s)
               else if c = CHR '':'' then parseIPv6 s else None)"

definition parsePrefix :: "string \<Rightarrow> Prefix option" where
  "parsePrefix s =
     (case lastCut CHR ''/'' s of
        None \<Rightarrow> None
      | Some (a, b) \<Rightarrow>
        (case parseAddr a of
           None \<Rightarrow> None
         | Some (ip, zone) \<Rightarrow>
           if zone \<noteq> [] \<or> length b > 1 \<and> \<not> (49 \<le> ord_of (hd b) \<and> ord_of (hd b) \<le> 57) then None
           else case atoi b of
             Inl e \<Rightarrow> None
           | Inr n \<Rightarrow> if n < 0 \<or> n > (if length ip = 16 then 128 else 32) then None else Some \<lparr>Addr = ip, Bits = nat n\<rparr>))"

definition parseAddrPort :: "string \<Rightarrow> (bytes \<times> string \<times> u16) option" where
  "parseAddrPort s =
     (case lastCut CHR '':'' s of
        None \<Rightarrow> None
      | Some (a, port) \<Rightarrow>
        if a = [] \<or> port = [] then None
        else if hd a = CHR ''['' \<and> (length a < 2 \<or> last a \<noteq> CHR '']'') then None
        else
          let v6 = (hd a = CHR ''[''); ip = (if v6 then butlast (tl a) else a)
          in case parseUint 16 port of
            Inl e \<Rightarrow> None
          | Inr n \<Rightarrow>
            (case parseAddr ip of
               None \<Rightarrow> None
             | Some (b, zone) \<Rightarrow> if v6 \<longleftrightarrow> length b = 16 then Some (b, zone, word_of_nat n) else None))"

section \<open>Printing\<close>

fun joinWith :: "string \<Rightarrow> string list \<Rightarrow> string" where
  "joinWith sep [] = []"
| "joinWith sep [s] = s"
| "joinWith sep (s # t # r) = s @ sep @ joinWith sep (t # r)"

definition v4String :: "bytes \<Rightarrow> string" where
  "v4String b = joinWith ''.'' (map (showNat \<circ> unat) b)"

fun showHex :: "nat \<Rightarrow> string" where
  "showHex n = (if n < 16 then [hexDigit n] else showHex (n div 16) @ [hexDigit (n mod 16)])"

declare showHex.simps [simp del]

definition v6groups :: "bytes \<Rightarrow> nat list" where
  "v6groups b = map (\<lambda>i. unat (b ! (2 * i)) * 256 + unat (b ! (2 * i + 1))) [0..<8]"

text \<open>The first longest run of at least two zero groups: its start and end.\<close>

definition zeroRun :: "nat list \<Rightarrow> (nat \<times> nat) option" where
  "zeroRun ws = foldl (\<lambda>r i. let l = length (takeWhile (\<lambda>w. w = 0) (drop i ws))
       in if l \<ge> 2 \<and> l > (case r of None \<Rightarrow> 0 | Some (s, e) \<Rightarrow> e - s) then Some (i, i + l) else r) None [0..<8]"

definition v6String :: "bytes \<Rightarrow> string" where
  "v6String b =
     (let ws = v6groups b
      in case zeroRun ws of
           None \<Rightarrow> joinWith '':'' (map showHex ws)
         | Some (s, e) \<Rightarrow> joinWith '':'' (map showHex (take s ws)) @ ''::'' @ joinWith '':'' (map showHex (drop e ws)))"

definition is4In6 :: "bytes \<Rightarrow> bool" where
  "is4In6 b \<longleftrightarrow> take 12 b = replicate 10 0 @ [0xff, 0xff]"

definition addrString :: "bytes \<Rightarrow> string \<Rightarrow> string" where
  "addrString b zone =
     (if length b = 4 then v4String b
      else (if is4In6 b then ''::ffff:'' @ v4String (drop 12 b) else v6String b) @ (if zone = [] then [] else CHR ''%'' # zone))"

definition prefixString :: "Prefix \<Rightarrow> string" where
  "prefixString p = addrString (Addr p) [] @ ''/'' @ showNat (Bits p)"

definition addrPortString :: "bytes \<Rightarrow> string \<Rightarrow> u16 \<Rightarrow> string" where
  "addrPortString b zone port =
     (if length b = 4 then v4String b @ '':'' @ showNat (unat port)
      else ''['' @ addrString b zone @ '']:'' @ showNat (unat port))"

section \<open>Printed text parses back\<close>

lemma splitOn_joinWith:
  "fs \<noteq> [] \<Longrightarrow> (\<And>f. f \<in> set fs \<Longrightarrow> sep \<notin> set f) \<Longrightarrow> splitOn sep (joinWith [sep] fs) = fs"
  by (induction "[sep]" fs rule: joinWith.induct) (simp_all add: splitOn_none splitOn_append)

lemma set_joinWith: "set (joinWith sep fs) \<subseteq> set sep \<union> \<Union> (set ` set fs)"
  by (induction sep fs rule: joinWith.induct) auto

lemma showNat_hd: "0 < n \<Longrightarrow> hd (showNat n) \<noteq> CHR ''0''"
proof (induction n rule: showNat.induct)
  case (1 n)
  show ?case
  proof (cases "n < 10")
    case True
    then have "ord_of (char_of (48 + n)) = 48 + n" by (intro ord_of_char_of) simp
    moreover have "ord_of CHR ''0'' = 48" by (simp add: ord_of_def)
    ultimately have "char_of (48 + n) \<noteq> CHR ''0''" using 1(2) by (metis add_cancel_left_right less_numeral_extra(3))
    then show ?thesis using True by (simp add: showNat.simps [of n])
  next
    case False
    then show ?thesis using 1(1) by (simp add: showNat.simps [of n] hd_append)
  qed
qed

lemma parseOctet_show: "parseOctet (showNat (unat b)) = Some b"
proof -
  have "length (showNat 0) = 1" by (simp add: showNat.simps)
  then have "\<not> (length (showNat (unat b)) > 1 \<and> hd (showNat (unat b)) = CHR ''0'')"
    using showNat_hd [of "unat b"] by (cases "unat b = 0") auto
  moreover have "unat b \<le> 255" using unsigned_less [of b, where 'a = nat] by simp
  ultimately show ?thesis by (simp add: parseOctet_def parseDigits_show)
qed

lemma parseOctets_show: "parseOctets (map (showNat \<circ> unat) b) = Some b"
  by (induction b) (simp_all add: parseOctet_show)

lemma digit_notin: "\<not> is_digit c \<Longrightarrow> c \<notin> set (showNat n)"
  using showNat_digits by blast

lemma not_digit [simp]:
  "\<not> is_digit CHR ''.''" "\<not> is_digit CHR '':''" "\<not> is_digit CHR ''/''" "\<not> is_digit CHR ''%''" "\<not> is_digit CHR ''[''" "\<not> is_digit CHR '']''"
  by (simp_all add: is_digit_def ord_of_def)

lemma parseIPv4_show: "length b = 4 \<Longrightarrow> parseIPv4 (v4String b) = Some b"
proof -
  assume "length b = 4"
  moreover from this have "splitOn CHR ''.'' (v4String b) = map (showNat \<circ> unat) b"
    unfolding v4String_def by (intro splitOn_joinWith) (auto simp: digit_notin)
  ultimately show ?thesis by (simp add: parseIPv4_def parseOctets_show)
qed

lemma v4String_chars: "c \<in> set (v4String b) \<Longrightarrow> is_digit c \<or> c = CHR ''.''"
  using set_joinWith [of "''.''" "map (showNat \<circ> unat) b"] by (auto simp: v4String_def dest: showNat_digits)

lemma parseAddr_v4: "length b = 4 \<Longrightarrow> parseAddr (v4String b) = Some (b, [])"
proof -
  assume l: "length b = 4"
  then obtain x y r where b: "b = x # y # r" by (cases b; cases "tl b") auto
  let ?s = "showNat (unat x)"
  have v: "v4String b = ?s @ CHR ''.'' # joinWith ''.'' (map (showNat \<circ> unat) (y # r))" by (simp add: v4String_def b)
  have "\<forall>c \<in> set ?s. c \<notin> {CHR ''.'', CHR '':'', CHR ''%''}" by (auto simp: digit_notin)
  then have "dropWhile (\<lambda>c. c \<notin> {CHR ''.'', CHR '':'', CHR ''%''}) (v4String b) = CHR ''.'' # joinWith ''.'' (map (showNat \<circ> unat) (y # r))"
    unfolding v by (subst dropWhile_append2) auto
  then show ?thesis using parseIPv4_show [OF l] by (simp add: parseAddr_def)
qed

lemma is_hex_hexDigit: "n < 16 \<Longrightarrow> is_hex (hexDigit n)"
  by (simp add: is_hex_def hexNibble_hexDigit)

lemma showHex_hex: "c \<in> set (showHex n) \<Longrightarrow> is_hex c"
  by (induction n rule: showHex.induct) (subst (asm) (2) showHex.simps, auto simp: is_hex_hexDigit split: if_splits)

lemma showHex_nonempty [simp]: "showHex n \<noteq> []"
  by (simp add: showHex.simps [of n])

lemma hexVal_snoc: "hexVal (s @ [c]) = hexVal s * 16 + the (hexNibble c)"
  by (simp add: hexVal_def)

lemma hexVal_showHex: "hexVal (showHex n) = n"
proof (induction n rule: showHex.induct)
  case (1 n)
  then show ?case
    by (cases "n < 16") (simp_all add: showHex.simps [of n] hexVal_snoc hexNibble_hexDigit, simp add: hexVal_def hexNibble_hexDigit)
qed

lemma length_showHex: "n < 16 ^ k \<Longrightarrow> 0 < k \<Longrightarrow> length (showHex n) \<le> k"
proof (induction k arbitrary: n)
  case (Suc k)
  show ?case
  proof (cases "n < 16")
    case False
    then have "0 < k" "n div 16 < 16 ^ k" using Suc.prems by (auto simp: less_mult_imp_div_less mult.commute intro: gr0I)
    then show ?thesis using Suc.IH [of "n div 16"] False by (simp add: showHex.simps [of n])
  qed (simp add: showHex.simps [of n])
qed simp

lemma hex_sep [simp]: "\<not> is_hex CHR '':''" "\<not> is_hex CHR ''.''" "\<not> is_hex CHR ''%''" "\<not> is_hex CHR ''/''" "\<not> is_hex CHR ''[''" "\<not> is_hex CHR '']''"
  by (simp_all add: is_hex_def hexNibble_def ord_of_def)

lemma takeWhile_showHex:
  assumes "r = [] \<or> \<not> is_hex (hd r)"
  shows "takeWhile is_hex (showHex n @ r) = showHex n"
  using assms by (cases r) (auto simp: showHex_hex takeWhile_append)

text \<open>One group, and a run of groups joined by colons.\<close>

definition groupBytes :: "nat list \<Rightarrow> bytes" where
  "groupBytes ws = concat (map (\<lambda>w. put_be16 (word_of_nat w)) ws)"

lemma groupBytes_Cons: "groupBytes (w # ws) = put_be16 (word_of_nat w) @ groupBytes ws"
  by (simp add: groupBytes_def)

lemma length_groupBytes: "length (groupBytes ws) = 2 * length ws"
  by (induction ws) (simp_all add: groupBytes_Cons, simp add: groupBytes_def)

lemma v6loop_group:
  assumes "w < 65536" and "r = [] \<or> hd r = CHR '':''"
  shows "v6loop (Suc n) (showHex w @ r) ip ell =
     (let ip = ip @ put_be16 (word_of_nat w)
      in if r = [] then Some ([], ip, ell)
         else if tl r = [] then None
         else if hd (tl r) = CHR '':'' then
           (if ell \<noteq> None then None
            else if tl (tl r) = [] then Some ([], ip, Some (length ip))
            else v6loop n (tl (tl r)) ip (Some (length ip)))
         else v6loop n (tl r) ip ell)"
proof -
  have t: "takeWhile is_hex (showHex w @ r) = showHex w" using assms(2) by (intro takeWhile_showHex) auto
  have l: "0 < length (showHex w)" "length (showHex w) \<le> 4" using length_showHex [of w 4] assms(1) by simp_all
  show ?thesis using assms(2) l by (auto simp: t hexVal_showHex Let_def)
qed

lemma hd_joinWith: "ws \<noteq> [] \<Longrightarrow> is_hex (hd (joinWith sep (map showHex ws) @ r))"
proof -
  have h: "is_hex (hd (showHex w))" for w using showHex_hex [of "hd (showHex w)" w] by simp
  assume "ws \<noteq> []"
  then show ?thesis by (cases "(sep, map showHex ws)" rule: joinWith.cases) (auto simp: h)
qed

lemma v6loop_join:
  assumes "length ws \<le> n" and "ws \<noteq> []" and "\<forall>w \<in> set ws. w < 65536"
  shows "v6loop n (joinWith '':'' (map showHex ws)) ip ell = Some ([], ip @ groupBytes ws, ell)"
  using assms
proof (induction ws arbitrary: n ip)
  case (Cons w ws)
  then obtain m where n: "n = Suc m" by (cases n) auto
  show ?case
  proof (cases ws)
    case Nil
    then show ?thesis using Cons.prems v6loop_group [of w "[]" m ip ell] by (simp add: n groupBytes_def)
  next
    case (Cons v vs)
    have "is_hex (hd (joinWith '':'' (map showHex ws) @ []))" using Cons by (intro hd_joinWith) simp
    then have "hd (joinWith '':'' (map showHex ws)) \<noteq> CHR '':''" "joinWith '':'' (map showHex ws) \<noteq> []"
      using Cons by (auto, cases vs, auto)
    then show ?thesis
      using Cons.IH [of m "ip @ put_be16 (word_of_nat w)"] Cons.prems v6loop_group [of w "CHR '':'' # joinWith '':'' (map showHex ws)" m ip ell] Cons n
      by (simp add: groupBytes_Cons)
  qed
qed simp

lemma groupBytes_append: "groupBytes (ws @ vs) = groupBytes ws @ groupBytes vs"
  by (simp add: groupBytes_def)

lemma v6loop_ellipsis:
  assumes "length ws + length vs \<le> n" and "ws \<noteq> []" and "\<forall>w \<in> set (ws @ vs). w < 65536"
  shows "v6loop n (joinWith '':'' (map showHex ws) @ ''::'' @ joinWith '':'' (map showHex vs)) ip None =
    Some ([], ip @ groupBytes (ws @ vs), Some (length ip + 2 * length ws))"
  using assms
proof (induction ws arbitrary: n ip)
  case (Cons w ws)
  then obtain m where n: "n = Suc m" by (cases n) auto
  let ?r = "''::'' @ joinWith '':'' (map showHex vs)"
  have w: "w < 65536" using Cons.prems by simp
  show ?case
  proof (cases "ws = []")
    case True
    have "vs \<noteq> [] \<Longrightarrow> joinWith '':'' (map showHex vs) \<noteq> []" by (cases "('':'', map showHex vs)" rule: joinWith.cases) auto
    moreover have "vs \<noteq> [] \<Longrightarrow> v6loop m (joinWith '':'' (map showHex vs)) (ip @ put_be16 (word_of_nat w)) (Some (length ip + 2)) =
        Some ([], (ip @ put_be16 (word_of_nat w)) @ groupBytes vs, Some (length ip + 2))"
      using Cons.prems n by (intro v6loop_join) auto
    ultimately show ?thesis
      using True v6loop_group [OF w, of ?r m ip None] by (cases "vs = []") (simp_all add: n groupBytes_def)
  next
    case False
    let ?s = "joinWith '':'' (map showHex ws) @ ?r"
    have "is_hex (hd ?s)" using False by (rule hd_joinWith)
    then have "hd ?s \<noteq> CHR '':''" by auto
    moreover have "joinWith '':'' (map showHex (w # ws)) @ ?r = showHex w @ CHR '':'' # ?s" using False by (cases ws) simp_all
    ultimately show ?thesis
      using Cons.IH [of m "ip @ put_be16 (word_of_nat w)"] Cons.prems False v6loop_group [OF w, of "CHR '':'' # ?s" m ip None] n
      by (simp add: groupBytes_Cons)
  qed
qed simp

lemma foldl_invariant: "P a \<Longrightarrow> (\<And>r i. P r \<Longrightarrow> P (f r i)) \<Longrightarrow> P (foldl f a xs)"
  by (induction xs arbitrary: a) simp_all

lemma zeroRun_zeros:
  assumes "zeroRun ws = Some (s, e)"
  shows "s + 2 \<le> e" "e \<le> length ws" "ws = take s ws @ replicate (e - s) 0 @ drop e ws"
proof -
  define P where "P r \<longleftrightarrow> (\<forall>s e. r = Some (s, e) \<longrightarrow> s + 2 \<le> e \<and> e \<le> length ws \<and> takeWhile (\<lambda>w. w = 0) (drop s ws) = replicate (e - s) (0::nat))" for r
  have "P (zeroRun ws)" unfolding zeroRun_def
  proof (rule foldl_invariant)
    fix r i assume "P r"
    let ?t = "takeWhile (\<lambda>w. w = 0) (drop i ws)"
    have "length ?t \<le> length ws - i" using length_takeWhile_le [of "\<lambda>w. w = 0" "drop i ws"] by simp
    moreover have "?t = replicate (length ?t) 0" using set_takeWhileD [of _ "\<lambda>w. w = 0" "drop i ws"] by (auto intro: replicate_eqI)
    ultimately show "P (let l = length ?t in if l \<ge> 2 \<and> l > (case r of None \<Rightarrow> 0 | Some (s, e) \<Rightarrow> e - s) then Some (i, i + l) else r)"
      using \<open>P r\<close> by (auto simp: P_def Let_def)
  qed (simp add: P_def)
  then have se: "s + 2 \<le> e" "e \<le> length ws" "takeWhile (\<lambda>w. w = 0) (drop s ws) = replicate (e - s) 0"
    using assms by (auto simp: P_def)
  have "take (e - s) (drop s ws) = replicate (e - s) 0"
    using se(3) takeWhile_eq_take [of "\<lambda>w. w = 0" "drop s ws"] by simp
  then show "s + 2 \<le> e" "e \<le> length ws" "ws = take s ws @ replicate (e - s) 0 @ drop e ws"
    using se append_take_drop_id [of s ws] append_take_drop_id [of "e - s" "drop s ws"] by simp_all
qed

lemma put_be16_bytes: "put_be16 (word_of_nat (unat x * 256 + unat y)) = [x, y]" for x y :: u8
proof -
  have b: "unat x < 256" "unat y < 256" using unsigned_less [of x, where 'a = nat] unsigned_less [of y, where 'a = nat] by simp_all
  then have n: "unat (word_of_nat (unat x * 256 + unat y) :: u16) = unat x * 256 + unat y" by (subst unat_of_nat) simp
  have "unat (ucast (drop_bit 8 (word_of_nat (unat x * 256 + unat y) :: u16)) :: u8) = unat x"
    "unat (ucast (word_of_nat (unat x * 256 + unat y) :: u16) :: u8) = unat y"
    using b by (simp_all only: unat_ucast8 unat_drop_bit_eq n) (simp_all add: drop_bit_eq_div)
  then show ?thesis by (simp add: put_be16_def word_unat_eq_iff)
qed

lemma groupBytes_v6groups: "length b = 16 \<Longrightarrow> groupBytes (v6groups b) = b"
proof -
  assume l: "length b = 16"
  have "groupBytes (v6groups b) = concat (map (\<lambda>i. [b ! (2 * i), b ! (2 * i + 1)]) [0..<8])"
    by (simp only: groupBytes_def v6groups_def map_map comp_def put_be16_bytes)
  also have "\<dots> = map ((!) b) [0..<16]" by (simp add: upt_rec numeral_eq_Suc)
  also have "\<dots> = b" using map_nth [of b] l by simp
  finally show ?thesis .
qed

lemma v6groups_bound: "w \<in> set (v6groups b) \<Longrightarrow> w < 65536" "length (v6groups b) = 8"
proof -
  have "unat (x :: u8) * 256 + unat (y :: u8) < 65536" for x y
    using unsigned_less [of x, where 'a = nat] unsigned_less [of y, where 'a = nat] by simp
  then show "w \<in> set (v6groups b) \<Longrightarrow> w < 65536" by (auto simp: v6groups_def)
qed (simp add: v6groups_def)

lemma groupBytes_zeros: "groupBytes (replicate k 0) = replicate (2 * k) 0"
  by (induction k) (simp_all add: groupBytes_Cons put_be16_def, simp add: groupBytes_def)

lemma joinWith_hex: "c \<in> set (joinWith '':'' (map showHex ws)) \<Longrightarrow> is_hex c \<or> c = CHR '':''"
  using set_joinWith [of "'':''" "map showHex ws"] by (auto dest: showHex_hex)

lemma v6String_chars: "c \<in> set (v6String b) \<Longrightarrow> is_hex c \<or> c = CHR '':''"
  by (auto simp: v6String_def Let_def dest: joinWith_hex split: option.splits)

lemma v6loop_v6String:
  assumes "length b = 16"
  shows "(if take 2 (v6String b) = ''::'' then
      (if drop 2 (v6String b) = [] then Some (replicate 16 0) else Option.bind (v6loop 8 (drop 2 (v6String b)) [] (Some 0)) v6expand)
    else Option.bind (v6loop 8 (v6String b) [] None) v6expand) = Some b"
proof -
  define ws where "ws = v6groups b"
  have ws: "\<forall>w \<in> set ws. w < 65536" "length ws = 8" "groupBytes ws = b"
    using v6groups_bound groupBytes_v6groups [OF assms] by (auto simp: ws_def)
  have hd: "take 2 (joinWith '':'' (map showHex vs) @ r) \<noteq> ''::''" if "vs \<noteq> []" for vs r
    using hd_joinWith [OF that, of "'':''" r] by (cases "joinWith '':'' (map showHex vs) @ r") auto
  show ?thesis
  proof (cases "zeroRun ws")
    case None
    have ne: "ws \<noteq> []" using ws(2) by auto
    have v: "v6String b = joinWith '':'' (map showHex ws)" using None by (simp add: v6String_def ws_def)
    show ?thesis using hd [OF ne, of "[]"] v6loop_join [of ws 8 "[]" None] ws ne by (simp add: v v6expand_def assms)
  next
    case (Some se)
    obtain s e where se: "zeroRun ws = Some (s, e)" using Some by (cases se) simp
    note z = zeroRun_zeros [OF se]
    have v: "v6String b = joinWith '':'' (map showHex (take s ws)) @ ''::'' @ joinWith '':'' (map showHex (drop e ws))"
      using se by (simp add: v6String_def ws_def Let_def)
    have "groupBytes ws = groupBytes (take s ws) @ groupBytes (replicate (e - s) 0) @ groupBytes (drop e ws)"
      by (subst z(3)) (simp only: groupBytes_append)
    then have b: "b = groupBytes (take s ws) @ replicate (2 * (e - s)) 0 @ groupBytes (drop e ws)"
      using ws(3) by (simp add: groupBytes_zeros)
    have bound: "\<forall>w \<in> set (take s ws @ drop e ws). w < 65536" using ws(1) by (auto dest: in_set_takeD in_set_dropD)
    have len: "length (groupBytes (take s ws)) = 2 * s" "length (groupBytes (drop e ws)) = 16 - 2 * e" using z(1,2) ws(2) by (simp_all add: length_groupBytes)
    show ?thesis
    proof (cases "s = 0")
      case True
      have j: "drop e ws \<noteq> [] \<Longrightarrow> joinWith '':'' (map showHex (drop e ws)) \<noteq> []"
        by (cases "('':'', map showHex (drop e ws))" rule: joinWith.cases) auto
      show ?thesis
      proof (cases "drop e ws = []")
        case True
        then have "v6String b = ''::''" "e = 8" using \<open>s = 0\<close> z(2) ws(2) by (simp_all add: v)
        moreover from this have "b = replicate 16 0" using \<open>s = 0\<close> b ws(2) by (simp add: groupBytes_def)
        ultimately show ?thesis by simp
      next
        case False
        then have "v6loop 8 (joinWith '':'' (map showHex (drop e ws))) [] (Some 0) = Some ([], groupBytes (drop e ws), Some 0)"
          using v6loop_join [of "drop e ws" 8 "[]" "Some 0"] bound ws(2) by simp
        moreover have "v6expand ([], groupBytes (drop e ws), Some 0) = Some b"
          using len z(1,2) ws(2) True by (subst b) (simp add: v6expand_def groupBytes_def [of "[]"])
        ultimately show ?thesis using False True j by (simp add: v)
      qed
    next
      case False
      then have ne: "take s ws \<noteq> []" using ws(2) by auto
      have "v6loop 8 (v6String b) [] None = Some ([], groupBytes (take s ws @ drop e ws), Some (2 * s))"
        unfolding v using v6loop_ellipsis [of "take s ws" "drop e ws" 8 "[]"] bound ws(2) z ne by simp
      moreover have "v6expand ([], groupBytes (take s ws @ drop e ws), Some (2 * s)) = Some b"
        using len z(1,2) ws(2) by (subst b) (simp add: v6expand_def groupBytes_append, linarith)
      moreover have "take 2 (v6String b) \<noteq> ''::''" unfolding v by (rule hd [OF ne])
      ultimately show ?thesis by simp
    qed
  qed
qed

text \<open>Text whose first separator is a colon is read as an IPv6 address; the zone is what follows the percent sign.\<close>

lemma parseAddr_colon:
  assumes "\<forall>c \<in> set h. is_hex c"
  shows "parseAddr (h @ CHR '':'' # r) = parseIPv6 (h @ CHR '':'' # r)"
proof -
  have "\<forall>c \<in> set h. c \<notin> {CHR ''.'', CHR '':'', CHR ''%''}" using assms by auto
  then have "dropWhile (\<lambda>c. c \<notin> {CHR ''.'', CHR '':'', CHR ''%''}) (h @ CHR '':'' # r) = CHR '':'' # r"
    by (subst dropWhile_append2) auto
  then show ?thesis by (simp add: parseAddr_def)
qed

lemma v6String_form: "\<exists>h r. v6String b = h @ CHR '':'' # r \<and> (\<forall>c \<in> set h. is_hex c)"
proof -
  have "CHR '':'' \<in> set (joinWith '':'' fs)" if "length fs > 1" for fs
    using that by (cases "('':'', fs)" rule: joinWith.cases) auto
  then have "CHR '':'' \<in> set (v6String b)"
    using v6groups_bound(2) [of b] by (auto simp: v6String_def Let_def split: option.splits)
  then obtain h r where "v6String b = h @ CHR '':'' # r" "CHR '':'' \<notin> set h" by (meson split_list_first)
  then show ?thesis using v6String_chars [of _ b] by (metis Un_iff set_append)
qed

lemma parseIPv6_zone:
  assumes "CHR ''%'' \<notin> set s"
  shows "parseIPv6 (s @ (if zone = [] then [] else CHR ''%'' # zone)) =
    map_option (\<lambda>ip. (ip, zone)) (if take 2 s = ''::'' then
      (if drop 2 s = [] then Some (replicate 16 0) else Option.bind (v6loop 8 (drop 2 s) [] (Some 0)) v6expand)
    else Option.bind (v6loop 8 s [] None) v6expand)"
proof -
  have "cut CHR ''%'' s = None" using assms by (simp add: cut_def)
  then have e: "(case cut CHR ''%'' (s @ (if zone = [] then [] else CHR ''%'' # zone)) of
      None \<Rightarrow> Some (s @ (if zone = [] then [] else CHR ''%'' # zone), []) | Some (a, z) \<Rightarrow> if z = [] then None else Some (a, z)) = Some (s, zone)"
    using cut_append [OF assms, of zone] by simp
  show ?thesis unfolding parseIPv6_def e by simp
qed

lemma v6loop_4in6:
  assumes "length b = 16" and "is4In6 b"
  shows "Option.bind (v6loop 8 (''ffff:'' @ v4String (drop 12 b)) [] (Some 0)) v6expand = Some b"
proof -
  define v where "v = drop 12 b"
  have v: "length v = 4" "b = replicate 10 0 @ [0xff, 0xff] @ v"
    using assms append_take_drop_id [of 12 b] by (simp_all add: v_def is4In6_def)
  obtain x y r where xy: "v = x # y # r" using v(1) by (cases v; cases "tl v") auto
  define s where "s = showNat (unat x)"
  have s: "v4String v = s @ CHR ''.'' # joinWith ''.'' (map (showNat \<circ> unat) (y # r))" by (simp add: v4String_def xy s_def)
  have hex: "is_hex c" if "is_digit c" for c using that by (simp add: is_hex_def is_digit_def hexNibble_def)
  have "takeWhile is_hex (v4String v) = s"
    unfolding s using showNat_digits [of _ "unat x"] hex by (simp add: takeWhile_append s_def)
  moreover have "0 < length s" "length s \<le> 4"
    using unsigned_less [of x, where 'a = nat] by (auto simp: s_def showNat.simps [of "unat x"] showNat.simps [of "unat x div 10"] showNat.simps [of "unat x div 10 div 10"])
  moreover have "drop (length s) (v4String v) = CHR ''.'' # joinWith ''.'' (map (showNat \<circ> unat) (y # r))" by (simp add: s)
  ultimately have l: "v6loop 7 (v4String v) [0xff, 0xff] (Some 0) = Some ([], [0xff, 0xff] @ v, Some 0)"
    using parseIPv4_show [OF v(1)] v6loop.simps(2) [of 6 "v4String v"] by (simp add: Let_def)
  have "hexDigit 15 = CHR ''f''" by code_simp
  then have f: "showHex 65535 = ''ffff''" by (simp add: showHex.simps)
  have "hd (v4String v) \<noteq> CHR '':''" "v4String v \<noteq> []" using s showNat_digits [of "hd s" "unat x"] by (auto simp: s_def hd_append)
  moreover have "put_be16 (word_of_nat 65535) = [0xff, 0xff]" using put_be16_bytes [of 255 255] by simp
  ultimately have "v6loop 8 (''ffff:'' @ v4String v) [] (Some 0) = Some ([], [0xff, 0xff] @ v, Some 0)"
    using v6loop_group [of 65535 "CHR '':'' # v4String v" 7 "[]" "Some 0"] l f by simp
  then show ?thesis using v by (simp add: v6expand_def v_def [symmetric])
qed

lemma parseAddr_addrString:
  assumes "length b = 4 \<and> zone = [] \<or> length b = 16"
  shows "parseAddr (addrString b zone) = Some (b, zone)"
proof (cases "length b = 4")
  case True
  then show ?thesis using assms parseAddr_v4 by (simp add: addrString_def)
next
  case False
  then have l: "length b = 16" using assms by simp
  let ?z = "if zone = [] then [] else CHR ''%'' # zone"
  show ?thesis
  proof (cases "is4In6 b")
    case True
    let ?s = "''::ffff:'' @ v4String (drop 12 b)"
    have "CHR ''%'' \<notin> set ?s" using v4String_chars [of "CHR ''%''" "drop 12 b"] by auto
    then have "parseIPv6 (?s @ ?z) = Some (b, zone)" using parseIPv6_zone [of ?s zone] v6loop_4in6 [OF l True] by simp
    then show ?thesis using parseAddr_colon [of "[]" "'':ffff:'' @ v4String (drop 12 b) @ ?z"] True l by (simp add: addrString_def)
  next
    case False
    have p: "CHR ''%'' \<notin> set (v6String b)" using v6String_chars [of "CHR ''%''" b] by auto
    obtain h r where h: "v6String b = h @ CHR '':'' # r" "\<forall>c \<in> set h. is_hex c" using v6String_form by blast
    have "parseIPv6 (v6String b @ ?z) = Some (b, zone)" unfolding parseIPv6_zone [OF p] v6loop_v6String [OF l] by simp
    then show ?thesis using parseAddr_colon [OF h(2), of "r @ ?z"] False l by (simp add: addrString_def h(1))
  qed
qed

lemma lastCut_append: "sep \<notin> set v \<Longrightarrow> lastCut sep (k @ sep # v) = Some (k, v)"
  using cut_append [of sep "rev v" "rev k"] by (simp add: lastCut_def)

lemma parsePrefix_prefixString:
  assumes "length (Addr p) = 4 \<or> length (Addr p) = 16" and "Bits p \<le> 8 * length (Addr p)"
  shows "parsePrefix (prefixString p) = Some p"
proof -
  let ?b = "showNat (Bits p)"
  have c: "lastCut CHR ''/'' (prefixString p) = Some (addrString (Addr p) [], ?b)"
    using lastCut_append [of "CHR ''/''" ?b] by (simp add: prefixString_def digit_notin)
  have a: "parseAddr (addrString (Addr p) []) = Some (Addr p, [])" using assms(1) by (intro parseAddr_addrString) auto
  have "is_digit (hd ?b)" by (rule showNat_digits [of _ "Bits p"]) simp
  moreover have "length ?b > 1 \<Longrightarrow> hd ?b \<noteq> CHR ''0''"
    using showNat_hd [of "Bits p"] by (cases "Bits p = 0") (simp_all add: showNat.simps [of 0])
  moreover have ord0: "char_of (48 :: nat) = CHR ''0''" by code_simp
  then have "ord_of (hd ?b) = 48 \<Longrightarrow> hd ?b = CHR ''0''"
    by (metis (no_types) char_of_char ord_of_def)
  ultimately have h: "length ?b > 1 \<Longrightarrow> 49 \<le> ord_of (hd ?b) \<and> ord_of (hd ?b) \<le> 57"
    by (fastforce simp: is_digit_def)
  have n: "atoi ?b = Inr (int (Bits p))" using assms by (intro atoi_show) auto
  show ?thesis using assms h by (auto simp: parsePrefix_def c a n)
qed

lemma parseAddrPort_string:
  assumes "length b = 4 \<and> zone = [] \<or> length b = 16"
  shows "parseAddrPort (addrPortString b zone port) = Some (b, zone, port)"
proof -
  let ?p = "showNat (unat port)"
  have u: "parseUint 16 ?p = Inr (unat port)" using unsigned_less [of port, where 'a = nat] by simp
  note a = parseAddr_addrString [OF assms]
  have d: "CHR '':'' \<notin> set ?p" by (simp add: digit_notin)
  show ?thesis
  proof (cases "length b = 4")
    case True
    have s: "lastCut CHR '':'' (addrPortString b zone port) = Some (addrString b zone, ?p)"
      using lastCut_append [OF d] True by (simp add: addrPortString_def addrString_def)
    have ne: "addrString b zone \<noteq> []" using parseAddr_v4 [OF True] True by (auto simp: addrString_def parseAddr_def)
    moreover have "hd (addrString b zone) \<noteq> CHR ''[''"
      using v4String_chars [of "hd (v4String b)" b] ne True by (auto simp: addrString_def)
    ultimately show ?thesis using a u True by (simp add: parseAddrPort_def s)
  next
    case False
    have s: "lastCut CHR '':'' (addrPortString b zone port) = Some (''['' @ addrString b zone @ '']'', ?p)"
      using lastCut_append [OF d, of "''['' @ addrString b zone @ '']''"] False by (simp add: addrPortString_def)
    show ?thesis using a u False assms by (simp add: parseAddrPort_def s butlast_append)
  qed
qed

section \<open>What parses is an address\<close>

lemma length_parseOctets: "parseOctets fs = Some b \<Longrightarrow> length b = length fs"
  by (induction fs arbitrary: b) (auto split: option.splits)

lemma length_parseIPv4: "parseIPv4 s = Some b \<Longrightarrow> length b = 4"
  by (auto simp: parseIPv4_def Let_def dest: length_parseOctets split: if_splits)

lemma length_v6loop:
  "v6loop n s ip e = Some (s', ip', e') \<Longrightarrow> length ip + 2 * n \<le> 16 \<Longrightarrow> length ip' \<le> 16"
proof (induction n s ip e rule: v6loop.induct)
  case (2 n s ip e)
  define ip1 where "ip1 = ip @ put_be16 (word_of_nat (hexVal (takeWhile is_hex s)) :: u16)"
  have l: "length ip1 + 2 * n \<le> 16" using 2(4) by (simp add: ip1_def put_be16_def)
  show ?case
    using 2(3) l 2(1,2) [OF refl refl refl] unfolding v6loop.simps Let_def ip1_def [symmetric]
    by (auto dest!: length_parseIPv4 split: if_splits)
qed simp

lemma length_parseAddr:
  assumes "parseAddr s = Some (b, zone)"
  shows "length b = 4 \<or> length b = 16"
proof -
  have "length b = 16" if v: "Option.bind (v6loop 8 t [] e) v6expand = Some b" for t e
  proof -
    obtain s' ip e' where l: "v6loop 8 t [] e = Some (s', ip, e')" "v6expand (s', ip, e') = Some b"
      using v by (auto simp: bind_eq_Some_conv)
    have "length ip \<le> 16" by (rule length_v6loop [OF l(1)]) simp
    then show ?thesis using l(2) by (auto simp: v6expand_def split: if_splits)
  qed
  then have "length b = 16" if "parseIPv6 s = Some (b, zone)"
    using that by (auto simp: parseIPv6_def split: option.splits if_splits prod.splits)
  then show ?thesis using assms by (auto simp: parseAddr_def dest: length_parseIPv4 split: list.splits if_splits)
qed

lemma parsePrefix_valid: "parsePrefix s = Some p \<Longrightarrow> validPrefix p"
  by (auto simp: parsePrefix_def validPrefix_def validLen_def split: option.splits sum.splits if_splits prod.splits
      dest!: length_parseAddr)

end
