(* ===== verification/Uapi.thy ===== *)
theory Uapi
  imports DeviceOps Netip
begin

text \<open>
  The configuration protocol of \<^verbatim>\<open>device/uapi.go\<close>: the text dump of \<^verbatim>\<open>IpcGetOperation\<close>, the line handlers of
  \<^verbatim>\<open>IpcSetOperation\<close> and one request of \<^verbatim>\<open>IpcHandle\<close>. The text of an error is dropped, its code is kept.
\<close>

section \<open>Errors\<close>

datatype ipcCode = IpcErrorIO | IpcErrorProtocol | IpcErrorInvalid | IpcErrorPortInUse | IpcErrorUnknown

fun ErrorCode :: "ipcCode \<Rightarrow> int" where
  "ErrorCode IpcErrorIO = - 5"
| "ErrorCode IpcErrorProtocol = - 71"
| "ErrorCode IpcErrorInvalid = - 22"
| "ErrorCode IpcErrorPortInUse = - 98"
| "ErrorCode IpcErrorUnknown = - 55"

definition showInt :: "int \<Rightarrow> string" where
  "showInt n = (if n < 0 then CHR ''-'' # showNat (nat (- n)) else showNat (nat n))"

section \<open>Get\<close>

definition keyLine :: "string \<Rightarrow> bytes \<Rightarrow> string" where
  "keyLine name k = name @ ''='' @ hexEncode k"

definition intLine :: "string \<Rightarrow> int \<Rightarrow> string list" where
  "intLine name n = (if n \<noteq> 0 then [name @ ''='' @ showInt n] else [])"

fun ipacketLines :: "nat \<Rightarrow> obfChain option list \<Rightarrow> string list" where
  "ipacketLines i [] = []"
| "ipacketLines i (None # cs) = ipacketLines (i + 1) cs"
| "ipacketLines i (Some c # cs) = (''i'' @ showNat (i + 1) @ ''='' @ Spec c) # ipacketLines (i + 1) cs"

definition deviceLines :: "Device \<Rightarrow> string list" where
  "deviceLines d =
     (if keyIsZero (privateKey d) then [] else [keyLine ''private_key'' (privateKey d)]) @
     intLine ''listen_port'' (int (unat (netPort d))) @ intLine ''fwmark'' (int (unat (fwmark d))) @
     intLine ''jc'' (junkCount d) @ intLine ''jmin'' (junkMin d) @ intLine ''jmax'' (junkMax d) @
     intLine ''s1'' (int (padInit d)) @ intLine ''s2'' (int (padResponse d)) @
     intLine ''s3'' (int (padCookie d)) @ intLine ''s4'' (int (padTransport d)) @
     (if imitateMode d \<noteq> imitateNone then [''imitate_protocol='' @ imitateProtoName (imitateMode d)] else []) @
     [''h1='' @ GenSpec (hdrInit d), ''h2='' @ GenSpec (hdrResponse d), ''h3='' @ GenSpec (hdrCookie d), ''h4='' @ GenSpec (hdrTransport d)] @
     ipacketLines 0 (ipackets d)"

text \<open>Go's division and remainder truncate towards zero.\<close>

definition DstToString :: "Endpoint \<Rightarrow> string" where
  "DstToString ep = addrPortString (dstAddr ep) (dstZone ep) (dstPort ep)"

definition peerLines :: "peerId \<Rightarrow> Device \<Rightarrow> string list" where
  "peerLines p d =
     (let q = peers d p; nano = lastHandshakeNano q
      in [keyLine ''public_key'' (remoteStatic (handshake q)), keyLine ''preshared_key'' (presharedKey (handshake q)), ''protocol_version=1''] @
         (case epVal q of None \<Rightarrow> [] | Some ep \<Rightarrow> [''endpoint='' @ DstToString ep]) @
         [''last_handshake_time_sec='' @ showInt (sgn nano * (\<bar>nano\<bar> div second)),
          ''last_handshake_time_nsec='' @ showInt (sgn nano * (\<bar>nano\<bar> mod second)),
          ''tx_bytes='' @ showNat (unat (txBytes q)), ''rx_bytes='' @ showNat (unat (rxBytes q)),
          ''persistent_keepalive_interval='' @ showNat (unat (persistentKeepaliveInterval q))] @
         map (\<lambda>pre. ''allowed_ip='' @ prefixString pre) (EntriesForPeer (allowedips d) p (\<lambda>_. True)))"

definition newline :: string where "newline = [CHR 0x0A]"

definition dump :: "Device \<Rightarrow> string" where
  "dump d = concat (map (\<lambda>l. l @ newline) (deviceLines d @ concat (map (\<lambda>(pk, p). peerLines p d) (keyMap d))))"

text \<open>The writer's error is an argument.\<close>

definition IpcGetOperation :: "bool \<Rightarrow> Device \<Rightarrow> ipcCode + string" where
  "IpcGetOperation writeOK d = (if writeOK then Inr (dump d) else Inl IpcErrorIO)"

definition IpcGet :: "Device \<Rightarrow> ipcCode + string" where
  "IpcGet d = IpcGetOperation True d"

section \<open>Device lines\<close>

definition positiveSetting :: "string \<Rightarrow> (int \<Rightarrow> Device \<Rightarrow> Device) \<Rightarrow> Device \<Rightarrow> ipcCode option \<times> Device" where
  "positiveSetting value put d =
     (case atoi value of
        Inl e \<Rightarrow> (Some IpcErrorInvalid, d)
      | Inr n \<Rightarrow> if n \<le> 0 then (Some IpcErrorInvalid, d) else (None, put n d))"

definition paddingSetting :: "string \<Rightarrow> (nat \<Rightarrow> Device \<Rightarrow> Device) \<Rightarrow> Device \<Rightarrow> ipcCode option \<times> Device" where
  "paddingSetting value put d =
     (case atoi value of
        Inl e \<Rightarrow> (Some IpcErrorInvalid, d)
      | Inr n \<Rightarrow> if n < 0 then (Some IpcErrorInvalid, d) else (None, put (nat n) d))"

definition headerSetting :: "string \<Rightarrow> (magicHeader \<Rightarrow> Device \<Rightarrow> Device) \<Rightarrow> Device \<Rightarrow> ipcCode option \<times> Device" where
  "headerSetting value put d =
     (case newMagicHeader value of Inl e \<Rightarrow> (Some IpcErrorInvalid, d) | Inr h \<Rightarrow> (None, put h d))"

definition ipacketSetting :: "nat \<Rightarrow> string \<Rightarrow> Device \<Rightarrow> ipcCode option \<times> Device" where
  "ipacketSetting i value d =
     (case newObfChain value of Inl e \<Rightarrow> (Some IpcErrorInvalid, d) | Inr c \<Rightarrow> (None, d\<lparr>ipackets := (ipackets d)[i := Some c]\<rparr>))"

definition imitateSetting :: "string \<Rightarrow> Device \<Rightarrow> ipcCode option \<times> Device" where
  "imitateSetting value d =
     (case parseImitateProto value of None \<Rightarrow> (Some IpcErrorInvalid, d) | Some p \<Rightarrow> (None, d\<lparr>imitateMode := p\<rparr>))"

text \<open>The settings that only change fields of the device.\<close>

definition plainSetting :: "string \<Rightarrow> string \<Rightarrow> Device \<Rightarrow> ipcCode option \<times> Device" where
  "plainSetting name value d =
     (if name = ''jc'' then positiveSetting value (\<lambda>n d. d\<lparr>junkCount := n\<rparr>) d
      else if name = ''jmin'' then positiveSetting value (\<lambda>n d. d\<lparr>junkMin := n\<rparr>) d
      else if name = ''jmax'' then positiveSetting value (\<lambda>n d. d\<lparr>junkMax := n\<rparr>) d
      else if name = ''s1'' then paddingSetting value (\<lambda>n d. d\<lparr>padInit := n\<rparr>) d
      else if name = ''s2'' then paddingSetting value (\<lambda>n d. d\<lparr>padResponse := n\<rparr>) d
      else if name = ''s3'' then paddingSetting value (\<lambda>n d. d\<lparr>padCookie := n\<rparr>) d
      else if name = ''s4'' then paddingSetting value (\<lambda>n d. d\<lparr>padTransport := n\<rparr>) d
      else if name = ''imitate_protocol'' then imitateSetting value d
      else if name = ''h1'' then headerSetting value (\<lambda>h d. d\<lparr>hdrInit := h\<rparr>) d
      else if name = ''h2'' then headerSetting value (\<lambda>h d. d\<lparr>hdrResponse := h\<rparr>) d
      else if name = ''h3'' then headerSetting value (\<lambda>h d. d\<lparr>hdrCookie := h\<rparr>) d
      else if name = ''h4'' then headerSetting value (\<lambda>h d. d\<lparr>hdrTransport := h\<rparr>) d
      else if name = ''i1'' then ipacketSetting 0 value d
      else if name = ''i2'' then ipacketSetting 1 value d
      else if name = ''i3'' then ipacketSetting 2 value d
      else if name = ''i4'' then ipacketSetting 3 value d
      else if name = ''i5'' then ipacketSetting 4 value d
      else (Some IpcErrorInvalid, d))"

definition handleDeviceLine :: "Crypto \<Rightarrow> Net \<Rightarrow> string \<Rightarrow> string \<Rightarrow> Device \<Rightarrow> (ipcCode option \<times> Device) option" where
  "handleDeviceLine C N name value d =
     (if name = ''private_key'' then
        (case privateKeyFromMaybeZeroHex value of
           Inl e \<Rightarrow> Some (Some IpcErrorInvalid, d)
         | Inr sk \<Rightarrow> map_option (\<lambda>d. (None, d)) (SetPrivateKey C N sk d))
      else if name = ''listen_port'' then
        (case parseUint 16 value of
           Inl e \<Rightarrow> Some (Some IpcErrorInvalid, d)
         | Inr port \<Rightarrow> map_option (\<lambda>(err, d). (if err = None then None else Some IpcErrorPortInUse, d))
             (BindUpdate N (d\<lparr>netPort := word_of_nat port\<rparr>)))
      else if name = ''fwmark'' then
        (case parseUint 32 value of
           Inl e \<Rightarrow> Some (Some IpcErrorInvalid, d)
         | Inr fwm \<Rightarrow> map_option (\<lambda>(err, d). (if err = None then None else Some IpcErrorPortInUse, d))
             (BindSetMark N (word_of_nat fwm) d))
      else if name = ''replace_peers'' then
        (if value \<noteq> ''true'' then Some (Some IpcErrorInvalid, d) else map_option (\<lambda>d. (None, d)) (RemoveAllPeers C N d))
      else Some (plainSetting name value d))"

section \<open>Peer lines\<close>

record ipcSetPeer =
  ispPeer :: "peerId option"
  ispDummy :: bool
  ispCreated :: bool
  ispPkaOn :: bool

definition newIpcSetPeer :: ipcSetPeer where
  "newIpcSetPeer = \<lparr>ispPeer = None, ispDummy = False, ispCreated = False, ispPkaOn = False\<rparr>"

definition handlePostConfig :: "Crypto \<Rightarrow> Net \<Rightarrow> ipcSetPeer \<Rightarrow> Device \<Rightarrow> Device option" where
  "handlePostConfig C N s d =
     (case ispPeer s of
        None \<Rightarrow> Some d
      | Some p \<Rightarrow>
        if ispDummy s then Some d
        else
          let d = (if ispCreated s then upPeer p (\<lambda>q. q\<lparr>disableRoaming := brokenRoaming d \<and> epVal q \<noteq> None\<rparr>) d else d)
          in if isUp d then do {
               let d = peerStart p d;
               d \<leftarrow> (if ispPkaOn s then SendKeepalive C N p d else Some d);
               SendStagedPackets C N p d }
             else Some d)"

text \<open>\<^verbatim>\<open>&Peer{}\<close>: a peer that is not in the map.\<close>

definition dummyPeer :: "Device \<Rightarrow> peerId \<times> Device" where
  "dummyPeer d = (nextPeer d, d\<lparr>peers := (peers d)(nextPeer d := zeroPeer), nextPeer := nextPeer d + 1\<rparr>)"

definition handlePublicKeyLine :: "Crypto \<Rightarrow> string \<Rightarrow> ipcSetPeer \<Rightarrow> Device \<Rightarrow> (ipcCode + ipcSetPeer) \<times> Device" where
  "handlePublicKeyLine C value s d =
     (case publicKeyFromHex value of
        Inl e \<Rightarrow> (Inl IpcErrorInvalid, d)
      | Inr pk \<Rightarrow>
        if keyEquals (publicKey d) pk then
          (case dummyPeer d of (p, d) \<Rightarrow> (Inr (s\<lparr>ispDummy := True, ispPeer := Some p, ispCreated := False\<rparr>), d))
        else case LookupPeer pk d of
          Some p \<Rightarrow> (Inr (s\<lparr>ispDummy := False, ispPeer := Some p, ispCreated := False\<rparr>), d)
        | None \<Rightarrow>
          (case NewPeer C pk d of
             (Inl e, d) \<Rightarrow> (Inl IpcErrorInvalid, d)
           | (Inr p, d) \<Rightarrow> (Inr (s\<lparr>ispDummy := False, ispPeer := Some p, ispCreated := True\<rparr>), d)))"

text \<open>The current peer becomes a placeholder.\<close>

definition becomeDummy :: "ipcSetPeer \<Rightarrow> Device \<Rightarrow> (ipcCode + ipcSetPeer) \<times> Device" where
  "becomeDummy s d = (case dummyPeer d of (p, d) \<Rightarrow> (Inr (s\<lparr>ispPeer := Some p, ispDummy := True\<rparr>), d))"

definition handleAllowedIP :: "string \<Rightarrow> peerId \<Rightarrow> ipcSetPeer \<Rightarrow> Device \<Rightarrow> ((ipcCode + ipcSetPeer) \<times> Device) option" where
  "handleAllowedIP value p s d =
     (let add = \<not> (value \<noteq> [] \<and> hd value = CHR ''-''); value = (if add then value else tl value)
      in case parsePrefix value of
           None \<Rightarrow> Some (Inl IpcErrorInvalid, d)
         | Some pre \<Rightarrow>
           if ispDummy s then Some (Inr s, d)
           else map_option (\<lambda>tab. (Inr s, d\<lparr>allowedips := tab\<rparr>))
             (if add then Insert (allowedips d) pre p else Remove (allowedips d) pre p))"

text \<open>\<^verbatim>\<open>StdNetBind.ParseEndpoint\<close>\<close>

definition ParseEndpoint :: "string \<Rightarrow> Endpoint option" where
  "ParseEndpoint s = map_option (\<lambda>(a, zone, port). \<lparr>dstAddr = a, dstZone = zone, dstPort = port, epSrc = None\<rparr>) (parseAddrPort s)"

definition handlePeerLine ::
  "Crypto \<Rightarrow> Net \<Rightarrow> string \<Rightarrow> string \<Rightarrow> peerId \<Rightarrow> ipcSetPeer \<Rightarrow> Device \<Rightarrow> ((ipcCode + ipcSetPeer) \<times> Device) option"
where
  "handlePeerLine C N name value p s d =
     (if name = ''update_only'' then
        (if value \<noteq> ''true'' then Some (Inl IpcErrorInvalid, d)
         else if ispCreated s \<and> \<not> ispDummy s then
           map_option (becomeDummy s) (RemovePeer C N (remoteStatic (handshake (peers d p))) d)
         else Some (Inr s, d))
      else if name = ''remove'' then
        (if value \<noteq> ''true'' then Some (Inl IpcErrorInvalid, d)
         else map_option (becomeDummy s)
           (if ispDummy s then Some d else RemovePeer C N (remoteStatic (handshake (peers d p))) d))
      else if name = ''preshared_key'' then
        (case presharedKeyFromHex value of
           Inl e \<Rightarrow> Some (Inl IpcErrorInvalid, d)
         | Inr psk \<Rightarrow> Some (Inr s, upHandshake p (\<lambda>h. h\<lparr>presharedKey := psk\<rparr>) d))
      else if name = ''endpoint'' then
        (case ParseEndpoint value of
           None \<Rightarrow> Some (Inl IpcErrorInvalid, d)
         | Some ep \<Rightarrow> Some (Inr s, upPeer p (\<lambda>q. q\<lparr>epVal := Some ep\<rparr>) d))
      else if name = ''persistent_keepalive_interval'' then
        (case parseUint 16 value of
           Inl e \<Rightarrow> Some (Inl IpcErrorInvalid, d)
         | Inr secs \<Rightarrow>
           let old = persistentKeepaliveInterval (peers d p)
           in Some (Inr (s\<lparr>ispPkaOn := (old = 0 \<and> secs \<noteq> 0)\<rparr>), upPeer p (\<lambda>q. q\<lparr>persistentKeepaliveInterval := word_of_nat secs\<rparr>) d))
      else if name = ''replace_allowed_ips'' then
        (if value \<noteq> ''true'' then Some (Inl IpcErrorInvalid, d)
         else if ispDummy s then Some (Inr s, d)
         else map_option (\<lambda>tab. (Inr s, d\<lparr>allowedips := tab\<rparr>)) (RemoveByPeer (allowedips d) p))
      else if name = ''allowed_ip'' then handleAllowedIP value p s d
      else if name = ''protocol_version'' then
        Some (if value \<noteq> ''1'' then Inl IpcErrorInvalid else Inr s, d)
      else Some (Inl IpcErrorInvalid, d))"

section \<open>Set\<close>

record ipcSetDevice =
  isdInit :: "magicHeader option"
  isdResponse :: "magicHeader option"
  isdCookie :: "magicHeader option"
  isdTransport :: "magicHeader option"

definition newIpcSetDevice :: ipcSetDevice where
  "newIpcSetDevice = \<lparr>isdInit = None, isdResponse = None, isdCookie = None, isdTransport = None\<rparr>"

definition headersOverlap :: "magicHeader \<Rightarrow> magicHeader \<Rightarrow> bool" where
  "headersOverlap left right \<longleftrightarrow> mhStart left \<le> mhEnd right \<and> mhStart right \<le> mhEnd left"

fun anyOverlap :: "magicHeader list \<Rightarrow> bool" where
  "anyOverlap [] = False"
| "anyOverlap (h # hs) = (list_ex (headersOverlap h) hs \<or> anyOverlap hs)"

definition orDefault :: "'a option \<Rightarrow> 'a \<Rightarrow> 'a" where
  "orDefault x y = (case x of None \<Rightarrow> y | Some v \<Rightarrow> v)"

text \<open>The result is \<^const>\<open>True\<close> when the headers overlap; the device is then left as it is.\<close>

definition mergeWithDevice :: "ipcSetDevice \<Rightarrow> Device \<Rightarrow> bool \<times> Device" where
  "mergeWithDevice s d =
     (let i = orDefault (isdInit s) (hdrInit d); r = orDefault (isdResponse s) (hdrResponse d);
          c = orDefault (isdCookie s) (hdrCookie d); t = orDefault (isdTransport s) (hdrTransport d)
      in if anyOverlap [i, r, c, t] then (True, d)
         else (False, d\<lparr>hdrInit := i, hdrResponse := r, hdrCookie := c, hdrTransport := t\<rparr>))"

definition finishSet :: "Crypto \<Rightarrow> Net \<Rightarrow> ipcSetPeer \<Rightarrow> ipcCode option \<Rightarrow> Device \<Rightarrow> (ipcCode option \<times> Device) option" where
  "finishSet C N s err d =
     (case mergeWithDevice newIpcSetDevice d of
        (True, d) \<Rightarrow> Some (Some IpcErrorInvalid, d)
      | (False, d) \<Rightarrow> map_option (\<lambda>d. (err, d)) (handlePostConfig C N s d))"

text \<open>The loop over the lines; \<open>err\<close> is the error the scanner ends with.\<close>

fun ipcSetLoop ::
  "Crypto \<Rightarrow> Net \<Rightarrow> ipcCode option \<Rightarrow> string list \<Rightarrow> bool \<Rightarrow> ipcSetPeer \<Rightarrow> Device \<Rightarrow> (ipcCode option \<times> Device) option"
where
  "ipcSetLoop C N err [] deviceConfig s d = finishSet C N s err d"
| "ipcSetLoop C N err (line # ls) deviceConfig s d =
     (if line = [] then finishSet C N s None d
      else case cut CHR ''='' line of
        None \<Rightarrow> Some (Some IpcErrorProtocol, d)
      | Some (name, value) \<Rightarrow>
        if name = ''public_key'' then
          do { d \<leftarrow> handlePostConfig C N s d;
               (case handlePublicKeyLine C value s d of
                  (Inl e, d) \<Rightarrow> Some (Some e, d)
                | (Inr s, d) \<Rightarrow> ipcSetLoop C N err ls False s d) }
        else if deviceConfig then
          do { (e, d) \<leftarrow> handleDeviceLine C N name value d;
               (if e \<noteq> None then Some (e, d) else ipcSetLoop C N err ls deviceConfig s d) }
        else
          do { p \<leftarrow> ispPeer s;
               (r, d) \<leftarrow> handlePeerLine C N name value p s d;
               (case r of
                  Inl e \<Rightarrow> Some (Some e, d)
                | Inr s \<Rightarrow> ipcSetLoop C N err ls deviceConfig s d) })"

text \<open>
  \<^verbatim>\<open>bufio.Scanner\<close>: lines without their end, a trailing empty one left out, until one does not fit into the
  buffer of 65536 bytes.
\<close>

definition dropCR :: "string \<Rightarrow> string" where
  "dropCR l = (if l \<noteq> [] \<and> List.last l = CHR 0x0D then butlast l else l)"

definition scanLines :: "string \<Rightarrow> string list \<times> ipcCode option" where
  "scanLines text =
     (let ls = splitOn (CHR 0x0A) text; ls = (if List.last ls = [] then butlast ls else ls);
          ok = takeWhile (\<lambda>l. length l < 65536) ls
      in (map dropCR ok, if length ok < length ls then Some IpcErrorIO else None))"

definition IpcSetOperation :: "Crypto \<Rightarrow> Net \<Rightarrow> string \<Rightarrow> Device \<Rightarrow> (ipcCode option \<times> Device) option" where
  "IpcSetOperation C N text d = (case scanLines text of (ls, err) \<Rightarrow> ipcSetLoop C N err ls True newIpcSetPeer d)"

definition IpcSet :: "Crypto \<Rightarrow> Net \<Rightarrow> string \<Rightarrow> Device \<Rightarrow> (ipcCode option \<times> Device) option" where
  "IpcSet C N uapiConf d = IpcSetOperation C N uapiConf d"

text \<open>
  One round of \<^verbatim>\<open>IpcHandle\<close>: the operation line, what follows it for a set, the byte that follows it for a get
  (nothing at the end of the stream). The result is the reply, or nothing when the connection is closed.
\<close>

definition ipcReply :: "ipcCode option \<Rightarrow> string" where
  "ipcReply status = ''errno='' @ (case status of None \<Rightarrow> ''0'' | Some c \<Rightarrow> showInt (ErrorCode c)) @ newline @ newline"

definition IpcHandle :: "Crypto \<Rightarrow> Net \<Rightarrow> string \<Rightarrow> string \<Rightarrow> Device \<Rightarrow> (string option \<times> Device) option" where
  "IpcHandle C N op body d =
     (if op = ''set=1'' @ newline then map_option (\<lambda>(err, d). (Some (ipcReply err), d)) (IpcSetOperation C N body d)
      else if op = ''get=1'' @ newline then
        Some (case body of
           [] \<Rightarrow> None
         | c # _ \<Rightarrow> if [c] \<noteq> newline then Some (ipcReply (Some IpcErrorInvalid)) else Some (dump d @ ipcReply None), d)
      else Some (None, d))"

end
