(* ===== verification/Frames.thy ===== *)
theory Frames
  imports Uapi
begin

text \<open>
  What the operations leave alone. Two devices agree on their core when they differ at most in entropy,
  statistics, endpoints, timers, cookies, the index table and the volatile part of the handshakes;
  \<open>calm\<close> says in addition that no timer of a stopped peer was started. Every operation that builds,
  sends or checks a message is calm. \<open>still\<close> is the weaker relation that every packet-processing step satisfies.
\<close>

named_theorems calm_intros \<open>operations that leave the core of a device alone\<close>

section \<open>The core of a device\<close>

definition hcore :: "Handshake \<Rightarrow> Handshake" where
  "hcore h = h\<lparr>hsState := handshakeZeroed, hsHash := [], chainKey := [], localEphemeral := [], localIndex := 0,
     remoteIndex := 0, remoteEphemeral := [], lastInitiationConsumption := 0, lastSentHandshake := 0\<rparr>"

definition pcore :: "Peer \<Rightarrow> Peer" where
  "pcore q = q\<lparr>handshake := hcore (handshake q), txBytes := 0, rxBytes := 0, lastHandshakeNano := 0, epVal := None,
     clearSrcOnTx := False, retransmitHandshake := stoppedTimer, sendKeepalive := stoppedTimer, newHandshake := stoppedTimer,
     zeroKeyMaterial := stoppedTimer, persistentKeepalive := stoppedTimer, handshakeAttempts := 0, needAnotherKeepalive := False,
     sentLastMinuteHandshake := False, cookieGenerator := zeroCookieGenerator\<rparr>"

definition dcore :: "Device \<Rightarrow> Device" where
  "dcore d = d\<lparr>peers := (\<lambda>p. pcore (peers d p)), indexTable := Map.empty, entropy := (\<lambda>_. 0), ipackets := [], junkCounter := 0,
     netCalls := 0, sent := [], underLoadUntil := 0, limiter := rateInit, cookieChecker := zeroCookieChecker\<rparr>"

definition idle :: "Peer \<Rightarrow> bool" where
  "idle q \<longleftrightarrow> (\<forall>n. \<not> isPending (getTimer n q) \<and> armedFor (getTimer n q) = None)"

definition calm :: "Device \<Rightarrow> Device \<Rightarrow> bool" where
  "calm d d' \<longleftrightarrow> dcore d' = dcore d \<and> (\<forall>p. \<not> isRunning (peers d p) \<longrightarrow> idle (peers d p) \<longrightarrow> idle (peers d' p))"

lemma dcore_fields:
  assumes "dcore d' = dcore d"
  shows "devState d' = devState d" "keyMap d' = keyMap d" "privateKey d' = privateKey d" "publicKey d' = publicKey d"
    "allowedips d' = allowedips d" "handshakeQueue d' = handshakeQueue d" "mtu d' = mtu d" "keypairs d' = keypairs d"
    "nextKp d' = nextKp d" "nextPeer d' = nextPeer d" "clock d' = clock d" "tunOut d' = tunOut d" "usedNonces d' = usedNonces d"
    "hdrInit d' = hdrInit d" "hdrResponse d' = hdrResponse d" "hdrCookie d' = hdrCookie d" "hdrTransport d' = hdrTransport d"
    "padInit d' = padInit d" "padResponse d' = padResponse d" "padCookie d' = padCookie d" "padTransport d' = padTransport d"
    "imitateMode d' = imitateMode d" "junkCount d' = junkCount d" "pcore (peers d' p) = pcore (peers d p)"
  using assms [THEN arg_cong, where f = devState] assms [THEN arg_cong, where f = keyMap]
    assms [THEN arg_cong, where f = privateKey] assms [THEN arg_cong, where f = publicKey]
    assms [THEN arg_cong, where f = allowedips] assms [THEN arg_cong, where f = handshakeQueue]
    assms [THEN arg_cong, where f = mtu] assms [THEN arg_cong, where f = keypairs]
    assms [THEN arg_cong, where f = nextKp] assms [THEN arg_cong, where f = nextPeer]
    assms [THEN arg_cong, where f = clock] assms [THEN arg_cong, where f = tunOut] assms [THEN arg_cong, where f = usedNonces]
    assms [THEN arg_cong, where f = hdrInit] assms [THEN arg_cong, where f = hdrResponse]
    assms [THEN arg_cong, where f = hdrCookie] assms [THEN arg_cong, where f = hdrTransport]
    assms [THEN arg_cong, where f = padInit] assms [THEN arg_cong, where f = padResponse]
    assms [THEN arg_cong, where f = padCookie] assms [THEN arg_cong, where f = padTransport]
    assms [THEN arg_cong, where f = imitateMode] assms [THEN arg_cong, where f = junkCount]
    assms [THEN arg_cong, where f = "\<lambda>d. peers d p"]
  by (simp_all add: dcore_def)

lemma pcore_fields:
  assumes "pcore q' = pcore q"
  shows "isRunning q' = isRunning q" "kpCurrent q' = kpCurrent q" "kpPrevious q' = kpPrevious q" "kpNext q' = kpNext q"
    "staged q' = staged q" "outbound q' = outbound q" "inbound q' = inbound q"
    "persistentKeepaliveInterval q' = persistentKeepaliveInterval q"
    "remoteStatic (handshake q') = remoteStatic (handshake q)" "presharedKey (handshake q') = presharedKey (handshake q)"
    "precomputedStaticStatic (handshake q') = precomputedStaticStatic (handshake q)"
    "lastTimestamp (handshake q') = lastTimestamp (handshake q)"
  using assms [THEN arg_cong, where f = isRunning] assms [THEN arg_cong, where f = kpCurrent]
    assms [THEN arg_cong, where f = kpPrevious] assms [THEN arg_cong, where f = kpNext]
    assms [THEN arg_cong, where f = staged] assms [THEN arg_cong, where f = outbound] assms [THEN arg_cong, where f = inbound]
    assms [THEN arg_cong, where f = persistentKeepaliveInterval]
    assms [THEN arg_cong, where f = "\<lambda>q. remoteStatic (handshake q)"] assms [THEN arg_cong, where f = "\<lambda>q. presharedKey (handshake q)"]
    assms [THEN arg_cong, where f = "\<lambda>q. precomputedStaticStatic (handshake q)"] assms [THEN arg_cong, where f = "\<lambda>q. lastTimestamp (handshake q)"]
  by (simp_all add: pcore_def hcore_def)

lemmas calmD = dcore_fields [OF conjunct1 [OF iffD1 [OF calm_def]]]
lemmas calm_peerD = pcore_fields [OF calmD(24)]

lemma calm_refl [calm_intros, simp]: "calm d d"
  by (simp add: calm_def)

lemma calm_trans [trans]: "calm d d' \<Longrightarrow> calm d' d'' \<Longrightarrow> calm d d''"
  using calm_peerD(1) [of d d'] by (auto simp: calm_def)

text \<open>The fields outside the core, and an update of one peer.\<close>

lemma calm_fields [calm_intros]:
  "calm d (d\<lparr>entropy := t\<rparr>)" "calm d (d\<lparr>indexTable := it\<rparr>)" "calm d (d\<lparr>ipackets := ip\<rparr>)" "calm d (d\<lparr>junkCounter := jc\<rparr>)"
  "calm d (d\<lparr>netCalls := n\<rparr>)" "calm d (d\<lparr>sent := se\<rparr>)" "calm d (d\<lparr>underLoadUntil := u\<rparr>)" "calm d (d\<lparr>limiter := l\<rparr>)"
  "calm d (d\<lparr>cookieChecker := ck\<rparr>)" "calm d (d\<lparr>cookieChecker := ck, entropy := t\<rparr>)" "calm d (d\<lparr>entropy := t, indexTable := it\<rparr>)"
  by (simp_all add: calm_def dcore_def)

lemma calm_upPeer:
  assumes "pcore (f (peers d p)) = pcore (peers d p)" and "\<not> isRunning (peers d p) \<Longrightarrow> idle (peers d p) \<Longrightarrow> idle (f (peers d p))"
  shows "calm d (upPeer p f d)"
proof -
  have "(\<lambda>r. pcore (((peers d)(p := f (peers d p))) r)) = (\<lambda>r. pcore (peers d r))" using assms(1) by auto
  then have "dcore (upPeer p f d) = dcore d" unfolding dcore_def upPeer_def by simp
  moreover have "\<forall>r. \<not> isRunning (peers d r) \<longrightarrow> idle (peers d r) \<longrightarrow> idle (peers (upPeer p f d) r)"
    using assms(2) by (simp add: upPeer_def)
  ultimately show ?thesis by (simp add: calm_def)
qed

lemma idle_timers: "idle q \<longleftrightarrow> (\<forall>t \<in> {retransmitHandshake q, sendKeepalive q, newHandshake q, zeroKeyMaterial q, persistentKeepalive q}.
    \<not> isPending t \<and> armedFor t = None)"
proof -
  have "(\<forall>n. P n) \<longleftrightarrow> P TRetransmitHandshake \<and> P TSendKeepalive \<and> P TNewHandshake \<and> P TZeroKeyMaterial \<and> P TPersistentKeepalive" for P
    by (metis timerName.exhaust)
  then show ?thesis by (simp add: idle_def)
qed

lemma calm_peer_fields [calm_intros]:
  "calm d (upPeer p (\<lambda>q. q\<lparr>cookieGenerator := g q\<rparr>) d)" "calm d (upPeer p (\<lambda>q. q\<lparr>handshakeAttempts := a q\<rparr>) d)"
  "calm d (upPeer p (\<lambda>q. q\<lparr>txBytes := b q\<rparr>) d)" "calm d (upPeer p (\<lambda>q. q\<lparr>rxBytes := b q\<rparr>) d)"
  "calm d (upPeer p (\<lambda>q. q\<lparr>epVal := e q\<rparr>) d)" "calm d (upPeer p (\<lambda>q. q\<lparr>clearSrcOnTx := c q\<rparr>) d)"
  "calm d (upPeer p (\<lambda>q. q\<lparr>epVal := e q, clearSrcOnTx := c q\<rparr>) d)" "calm d (upPeer p (\<lambda>q. q\<lparr>clearSrcOnTx := c q, epVal := e q\<rparr>) d)"
  "calm d (upPeer p (\<lambda>q. q\<lparr>needAnotherKeepalive := n q\<rparr>) d)" "calm d (upPeer p (\<lambda>q. q\<lparr>sentLastMinuteHandshake := s q\<rparr>) d)"
  "calm d (upPeer p (\<lambda>q. q\<lparr>handshakeAttempts := a q, sentLastMinuteHandshake := s q, lastHandshakeNano := l q\<rparr>) d)"
  "calm d (upPeer p (\<lambda>q. q\<lparr>handshakeAttempts := a q, sentLastMinuteHandshake := s q, needAnotherKeepalive := n q\<rparr>) d)"
  by (rule calm_upPeer; simp add: pcore_def idle_timers)+

lemma calm_upHandshake:
  "hcore (f (handshake (peers d p))) = hcore (handshake (peers d p)) \<Longrightarrow> calm d (upHandshake p f d)"
  unfolding upHandshake_def by (rule calm_upPeer; simp add: pcore_def idle_timers)

lemma calm_setHandshake:
  "hcore h = hcore (handshake (peers d p)) \<Longrightarrow> calm d (setHandshake p h d)"
  unfolding setHandshake_def by (rule calm_upHandshake)

section \<open>Timers\<close>

lemma calm_modTimer: "isRunning (peers d p) \<Longrightarrow> calm d (modTimer n dur p d)"
  unfolding modTimer_def by (rule calm_upPeer) (cases n; simp add: pcore_def)+

lemma calm_delTimer [calm_intros]: "calm d (delTimer n p d)"
  unfolding delTimer_def by (rule calm_upPeer) (cases n; simp add: pcore_def idle_timers timerDel_def)+

lemma jitter_calm: "jitter d = (j, d') \<Longrightarrow> calm d d' \<and> peers d' = peers d"
  by (auto simp: jitter_def fastrandn_def calm_fields)

lemma calm_timers [calm_intros]:
  "calm d (timersDataSent p d)" "calm d (timersDataReceived p d)" "calm d (timersAnyAuthenticatedPacketSent p d)"
  "calm d (timersAnyAuthenticatedPacketReceived p d)" "calm d (timersHandshakeInitiated p d)" "calm d (timersHandshakeComplete p d)"
  "calm d (timersSessionDerived p d)" "calm d (timersAnyAuthenticatedPacketTraversal p d)" "calm d (timersStart p d)"
proof -
  obtain j d' where j: "jitter d = (j, d')" by fastforce
  note j' = jitter_calm [OF j]
  show "calm d (timersDataSent p d)" "calm d (timersHandshakeInitiated p d)"
    using calm_trans [OF conjunct1 [OF j'] calm_modTimer] j' by (auto simp: timersDataSent_def timersHandshakeInitiated_def timersActive_def j)
  show "calm d (timersDataReceived p d)" "calm d (timersAnyAuthenticatedPacketSent p d)" "calm d (timersAnyAuthenticatedPacketReceived p d)"
    "calm d (timersSessionDerived p d)" "calm d (timersAnyAuthenticatedPacketTraversal p d)" "calm d (timersStart p d)"
    by (auto simp: timers_events timersActive_def Let_def intro: calm_modTimer calm_delTimer calm_peer_fields)
  show "calm d (timersHandshakeComplete p d)"
    unfolding timersHandshakeComplete_def Let_def by (rule calm_trans [OF _ calm_peer_fields(11)]) (simp add: calm_delTimer)
qed

lemma timersStop_calm [calm_intros]: "calm d (timersStop p d)"
  unfolding timersStop_def by (rule calm_upPeer) (simp_all add: pcore_def idle_timers timerDelSync_def timerDel_def)

section \<open>Building and sending messages\<close>

lemma netSend_calm: "netSend N bufs ep d = (r, d') \<Longrightarrow> calm d d'"
  using calm_trans [OF calm_fields(5) calm_fields(6)] by (auto simp: netSend_def Let_def calm_fields)

lemma SendBuffers_calm: "SendBuffers N p bufs d = (e, d') \<Longrightarrow> calm d d'"
proof (cases "isClosed d \<or> epVal (peers d p) = None")
  case False
  assume run: "SendBuffers N p bufs d = (e, d')"
  obtain ep where ep: "epVal (peers d p) = Some ep" using False by auto
  define ep' where "ep' = (if clearSrcOnTx (peers d p) then clearSrc ep else ep)"
  define d1 where "d1 = (if clearSrcOnTx (peers d p) then upPeer p (\<lambda>q. q\<lparr>epVal := Some ep', clearSrcOnTx := False\<rparr>) d else d)"
  obtain r d2 where n: "netSend N bufs ep' d1 = (r, d2)" by fastforce
  have "calm d d1" by (simp add: d1_def calm_peer_fields)
  then have "calm d d2" using netSend_calm [OF n] calm_trans by blast
  moreover have "calm d2 d'"
    using run False ep n by (auto simp: SendBuffers_def Let_def ep'_def d1_def calm_peer_fields split: if_splits)
  ultimately show ?thesis by (rule calm_trans)
qed (auto simp: SendBuffers_def split: if_splits)

lemma randRead_calm: "randRead n d = (b, d') \<Longrightarrow> calm d d'"
  by (auto simp: randRead_def calm_fields split: prod.splits)

lemma generateHeader_calm: "generateHeader h d = Some (v, d') \<Longrightarrow> calm d d'"
  by (auto simp: generateHeader_def calm_fields)

lemma padPacket_calm: "padPacket padding packet d = Some (b, d') \<Longrightarrow> calm d d'"
  by (auto simp: padPacket_def randRead_calm split: if_splits prod.splits)

lemma padTransportPacket_calm: "padTransportPacket b d = Some (b', d') \<Longrightarrow> calm d d'"
  by (auto simp: padTransportPacket_def dest: padPacket_calm split: if_splits)

lemma padTransportPackets_calm: "padTransportPackets bs d = Some (bs', d') \<Longrightarrow> calm d d'"
  by (induction bs arbitrary: bs' d) (auto dest!: padTransportPacket_calm split: bind_splits, blast intro: calm_trans)

lemma sendIPackets_calm: "sendIPackets C cs d = Some (bs, cs', d') \<Longrightarrow> calm d d'"
  by (induction C cs d arbitrary: bs cs' d' rule: sendIPackets.induct)
    (auto split: bind_splits, blast intro: calm_trans calm_fields(1))

lemma sendJunk_calm: "sendJunk n d = Some (bs, d') \<Longrightarrow> calm d d'"
proof (induction n arbitrary: d bs)
  case (Suc n)
  then obtain x where x: "randInt (entropy d 0) (wrapInt64 (junkMax d - junkMin d + 1)) = Some x"
    by (auto split: bind_splits)
  define d1 where "d1 = d\<lparr>entropy := (\<lambda>i. entropy d (i + 1))\<rparr>"
  obtain rnd d2 where r: "(if imitateMode d1 = imitateNone then randRead (nat (int x + junkMin d)) d1 else ([], d1)) = (rnd, d2)" by fastforce
  obtain b ctr where j: "fillJunk (imitateMode d2) (junkCounter d2) rnd (replicate (nat (int x + junkMin d)) 0) = (b, ctr)" by fastforce
  have "calm d1 d2" using r randRead_calm by (auto split: if_splits)
  moreover obtain bs' where "sendJunk n (d2\<lparr>junkCounter := ctr\<rparr>) = Some (bs', d')"
    using Suc.prems x r j by (auto simp: Let_def d1_def split: bind_splits if_splits)
  ultimately show ?case using Suc.IH calm_fields(1,4) calm_trans unfolding d1_def by metis
qed simp

lemma addMacs_calm: "addMacs C p msg d = Some (m, d') \<Longrightarrow> calm d d'"
  by (auto simp: addMacs_def calm_peer_fields)

lemma NewIndex_calm: "NewIndexForHandshake p d = Some (i, d') \<Longrightarrow> calm d d' \<and> peers d' = peers d"
  by (auto simp: NewIndexForHandshake_def calm_fields)

lemma indexDelete_calm [calm_intros]: "calm d (indexDelete i d)"
  by (simp add: indexDelete_def calm_fields)

lemma DeleteKeypair_calm [calm_intros]: "calm d (DeleteKeypair k d)"
  by (simp add: DeleteKeypair_def indexDelete_calm split: option.splits)

lemma hcore_updates [simp]:
  "hcore (hsMixHash C b h) = hcore h" "hcore (hsMixKey C b h) = hcore h" "hcore (h\<lparr>chainKey := x\<rparr>) = hcore h"
  "hcore (h\<lparr>localIndex := i\<rparr>) = hcore h" "hcore (h\<lparr>hsState := st\<rparr>) = hcore h" "hcore (h\<lparr>localEphemeral := e\<rparr>) = hcore h"
  "hcore (h\<lparr>hsHash := y\<rparr>) = hcore h" "hcore (h\<lparr>lastSentHandshake := t\<rparr>) = hcore h" "hcore (h\<lparr>remoteIndex := i\<rparr>) = hcore h"
  "hcore (handshakeClear h) = hcore h"
  by (simp_all add: hcore_def hsMixHash_def hsMixKey_def handshakeClear_def)

lemma setHandshake_calm:
  "calm d d1 \<Longrightarrow> peers d1 = peers d \<Longrightarrow> hcore h = hcore (handshake (peers d p)) \<Longrightarrow> calm d (setHandshake p h d1)"
  using calm_trans [OF _ calm_setHandshake] by simp

lemma CreateMessageInitiation_calm:
  assumes "CreateMessageInitiation C p d = Some (r, d')"
  shows "calm d d'"
proof -
  obtain sk t where sk: "newPrivateKey (entropy d) = (sk, t)" by fastforce
  note run = assms [unfolded CreateMessageInitiation_def sk Let_def split_conv]
  obtain ty d1 where g: "generateHeader (hdrInit (d\<lparr>entropy := t\<rparr>)) (d\<lparr>entropy := t\<rparr>) = Some (ty, d1)"
    using run by (cases "generateHeader (hdrInit (d\<lparr>entropy := t\<rparr>)) (d\<lparr>entropy := t\<rparr>)") auto
  have d1: "calm d d1" "peers d1 = peers d"
    using generateHeader_calm [OF g] g calm_trans [OF calm_fields(1)] by (auto simp: generateHeader_def)
  have i: "calm d d2 \<and> peers d2 = peers d" if "NewIndexForHandshake p (indexDelete j d1) = Some (i, d2)" for i j d2
    using NewIndex_calm [OF that] d1 calm_trans [OF calm_trans [OF d1(1) indexDelete_calm]] by (auto simp: indexDelete_def)
  show ?thesis
    using run unfolding g
    by (auto split: option.splits prod.splits if_splits dest!: i intro!: setHandshake_calm d1)
qed

lemma CreateMessageResponse_calm:
  assumes "CreateMessageResponse C p d = Some (r, d')"
  shows "calm d d'"
proof (cases "hsState (handshake (peers d p)) = handshakeInitiationConsumed")
  case True
  note run = assms [unfolded CreateMessageResponse_def Let_def]
  obtain i d1 where i: "NewIndexForHandshake p (indexDelete (localIndex (handshake (peers d p))) d) = Some (i, d1)"
    using run True by (cases "NewIndexForHandshake p (indexDelete (localIndex (handshake (peers d p))) d)") auto
  have d1: "calm d d1" "peers d1 = peers d"
    using calm_trans [OF indexDelete_calm conjunct1 [OF NewIndex_calm [OF i]]] NewIndex_calm [OF i] by (simp_all add: indexDelete_def)
  obtain ty d2 where g: "generateHeader (hdrResponse d1) d1 = Some (ty, d2)"
    using run True i by (cases "generateHeader (hdrResponse d1) d1") auto
  have d2: "calm d d2" "peers d2 = peers d"
    using calm_trans [OF d1(1) generateHeader_calm [OF g]] g d1(2) by (auto simp: generateHeader_def)
  have e: "calm d (d2\<lparr>entropy := t\<rparr>)" "peers (d2\<lparr>entropy := t\<rparr>) = peers d" for t
    using d2 calm_trans [OF d2(1) calm_fields(1)] by auto
  show ?thesis
    using run True unfolding i
    by (auto simp: g split: option.splits prod.splits if_splits intro!: setHandshake_calm e)
qed (use assms in \<open>simp add: CreateMessageResponse_def\<close>)

lemma ConsumeMessageResponse_calm: "ConsumeMessageResponse C msg d = (p, d') \<Longrightarrow> calm d d'"
  by (auto simp: ConsumeMessageResponse_def Let_def split: if_splits option.splits intro!: calm_upHandshake)

lemma lastSent_calm [calm_intros]: "calm d (upHandshake p (\<lambda>h. h\<lparr>lastSentHandshake := t\<rparr>) d)"
  by (rule calm_upHandshake) simp

lemma bind_SomeE:
  assumes "Option.bind x f = Some y"
  obtains z where "x = Some z" "f z = Some y"
  using assms by (cases x) auto

lemma SendHandshakeInitiation_calm:
  assumes "SendHandshakeInitiation C N p isRetry d = Some (e, d')"
  shows "calm d d'"
proof -
  define d0 where "d0 = (if \<not> isRetry then upPeer p (\<lambda>q. q\<lparr>handshakeAttempts := 0\<rparr>) d else d)"
  have d0: "calm d d0" by (simp add: d0_def calm_peer_fields)
  note run = assms [unfolded SendHandshakeInitiation_def Let_def, folded d0_def]
  show ?thesis
  proof (cases "timeSince d0 (lastSentHandshake (handshake (peers d0 p))) < RekeyTimeout")
    case False
    obtain r d1 where c: "CreateMessageInitiation C p (upHandshake p (\<lambda>h. h\<lparr>lastSentHandshake := clock d0\<rparr>) d0) = Some (r, d1)"
      using run False by (auto elim: bind_SomeE)
    have d1: "calm d d1" using CreateMessageInitiation_calm [OF c] calm_trans [OF calm_trans [OF d0 lastSent_calm]] by blast
    show ?thesis
    proof (cases r)
      case (Inr msg)
      obtain ib cs d2 where i: "sendIPackets C (ipackets d1) d1 = Some (ib, cs, d2)" using run False c Inr by (auto elim!: bind_SomeE)
      obtain jb d3 where j: "sendJunk (nat (junkCount d2)) (d2\<lparr>ipackets := cs\<rparr>) = Some (jb, d3)" using run False c Inr i by (auto elim!: bind_SomeE)
      obtain b d4 where m: "addMacs C p (marshalInitiation msg) d3 = Some (b, d4)" using run False c Inr i j by (auto elim!: bind_SomeE)
      let ?d5 = "timersAnyAuthenticatedPacketSent p (timersAnyAuthenticatedPacketTraversal p d4)"
      obtain b' d6 where q: "padPacket (padInit ?d5) b ?d5 = Some (b', d6)" using run False c Inr i j m by (auto elim!: bind_SomeE)
      obtain e' d7 where s: "SendBuffers N p (ib @ jb @ [b']) d6 = (e', d7)" by fastforce
      have "d' = timersHandshakeInitiated p d7" using run False c Inr i j m q s by auto
      then show ?thesis
        using d1 sendIPackets_calm [OF i] calm_fields(3) [of d2 cs] sendJunk_calm [OF j] addMacs_calm [OF m] padPacket_calm [OF q]
          SendBuffers_calm [OF s] calm_timers by (metis calm_trans)
    qed (use run False c d1 in auto)
  qed (use run d0 in auto)
qed

lemma SetEndpoint_calm [calm_intros]: "calm d (SetEndpointFromPacket p ep d)" "calm d (markEndpointSrcForClearing p d)" "calm d (addRxBytes n p d)"
  by (simp_all add: SetEndpointFromPacket_def markEndpointSrcForClearing_def addRxBytes_def calm_peer_fields)

lemma SendHandshakeCookie_calm:
  assumes "SendHandshakeCookie C N elem d = Some d'"
  shows "calm d d'"
proof -
  note run = assms [unfolded SendHandshakeCookie_def Let_def]
  obtain ty d1 where g: "generateHeader (hdrCookie d) d = Some (ty, d1)" using run by (auto elim!: bind_SomeE split: if_splits)
  obtain b d2 ck t m where q: "padPacket (padCookie d1) m (d1\<lparr>cookieChecker := ck, entropy := t\<rparr>) = Some (b, d2)"
      and d': "d' = snd (netSend N [b] (heEndpoint elem) d2)"
    using run g by (auto elim!: bind_SomeE split: if_splits)
  have "calm d2 d'" using netSend_calm [of N "[b]" "heEndpoint elem" d2] by (simp add: d' prod_eq_iff)
  then show ?thesis using generateHeader_calm [OF g] calm_fields(10) padPacket_calm [OF q] by (metis calm_trans)
qed

lemma keepKeyFresh_calm:
  "keepKeyFreshSending C N p d = Some d' \<Longrightarrow> calm d d'" "keepKeyFreshReceiving C N p d = Some d' \<Longrightarrow> calm d d'"
proof -
  show "keepKeyFreshSending C N p d = Some d' \<Longrightarrow> calm d d'"
    by (auto simp: keepKeyFreshSending_def Let_def dest: SendHandshakeInitiation_calm split: option.splits if_splits)
  show "keepKeyFreshReceiving C N p d = Some d' \<Longrightarrow> calm d d'"
    using calm_trans [OF calm_peer_fields(10) SendHandshakeInitiation_calm]
    by (auto simp: keepKeyFreshReceiving_def split: option.splits if_splits)
qed

lemma encryptElem_calm: "encryptElem C e d = Some (e', d') \<Longrightarrow> calm d d'"
  by (auto simp: encryptElem_def Let_def dest: generateHeader_calm split: if_splits elim!: bind_SomeE)

lemma encryptElems_calm: "encryptElems C es d = Some (es', d') \<Longrightarrow> calm d d'"
  by (induction es arbitrary: es' d) (auto dest!: encryptElem_calm split: bind_splits, blast intro: calm_trans)

lemma consumeCookieReply_calm [calm_intros]: "calm d (consumeCookieReply C packet d)"
  by (auto simp: consumeCookieReply_def calm_peer_fields split: option.splits)

lemma checkHandshake_calm:
  assumes "checkHandshake C N elem d = Some (go, d')"
  shows "calm d d'"
proof -
  obtain u d1 where u: "IsUnderLoad d = (u, d1)" by fastforce
  have d1: "calm d d1" using u by (auto simp: IsUnderLoad_def calm_fields split: if_splits)
  have "d' = d \<or> calm d1 d'"
    using assms by (auto simp: checkHandshake_def u calm_fields dest!: SendHandshakeCookie_calm split: bool.splits if_splits prod.splits elim!: bind_SomeE)
  then show ?thesis using calm_trans [OF d1] by auto
qed

section \<open>Invariants and the relation of packet steps\<close>

definition slots :: "Peer \<Rightarrow> kpId set" where
  "slots q = set_option (kpCurrent q) \<union> set_option (kpPrevious q) \<union> set_option (kpNext q)"

text \<open>
  No nonce was used twice with a key pair, all used nonces are below the counter, no counter is past the
  limit, and the key pairs in the slots of peers have been allocated.
\<close>

definition nonceInv :: "Device \<Rightarrow> bool" where
  "nonceInv d \<longleftrightarrow> distinct (usedNonces d) \<and> (\<forall>(k, n) \<in> set (usedNonces d). k < nextKp d \<and> n < sendNonce (keypairs d k)) \<and>
     (\<forall>k. sendNonce (keypairs d k) \<le> RejectAfterMessages) \<and> (\<forall>p. slots (peers d p) \<subseteq> {..<nextKp d})"

definition queueInv :: "Device \<Rightarrow> bool" where
  "queueInv d \<longleftrightarrow> (\<forall>p. length (staged (peers d p)) \<le> QueueStagedSize) \<and> length (handshakeQueue d) \<le> QueueHandshakeSize"

text \<open>What no packet changes: the configuration, the table of peers and which of them run.\<close>

definition pskel :: "Peer \<Rightarrow> bool \<times> bytes \<times> bytes \<times> bytes \<times> u32" where
  "pskel q = (isRunning q, remoteStatic (handshake q), presharedKey (handshake q), precomputedStaticStatic (handshake q), persistentKeepaliveInterval q)"

definition skel :: "Device \<Rightarrow> _" where
  "skel d = (devState d, keyMap d, nextPeer d, privateKey d, publicKey d, allowedips d, clock d,
     (hdrInit d, hdrResponse d, hdrCookie d, hdrTransport d), (\<lambda>p. pskel (peers d p)))"

definition stampLe :: "bytes \<Rightarrow> bytes \<Rightarrow> bool" where
  "stampLe s t \<longleftrightarrow> s = t \<or> After t s"

abbreviation (input) lastStamp :: "Device \<Rightarrow> peerId \<Rightarrow> bytes" where
  "lastStamp d p \<equiv> lastTimestamp (handshake (peers d p))"

definition still :: "Device \<Rightarrow> Device \<Rightarrow> bool" where
  "still d d' \<longleftrightarrow> skel d' = skel d \<and> (\<forall>p. \<not> isRunning (peers d p) \<longrightarrow> idle (peers d p) \<longrightarrow> idle (peers d' p)) \<and>
     (queueInv d \<longrightarrow> queueInv d') \<and> nextKp d \<le> nextKp d' \<and> (\<forall>p. stampLe (lastStamp d p) (lastStamp d' p))"

definition sane :: "Device \<Rightarrow> Device \<Rightarrow> bool" where
  "sane d d' \<longleftrightarrow> still d d' \<and> (nonceInv d \<longrightarrow> nonceInv d')"

lemma After_trans: "After a b \<Longrightarrow> After b c \<Longrightarrow> After a c"
proof -
  have "bytesGreater a b \<Longrightarrow> bytesGreater b c \<Longrightarrow> bytesGreater a c" for a b c
    by (induction a b arbitrary: c rule: bytesGreater.induct) (case_tac c; auto)+
  then show "After a b \<Longrightarrow> After b c \<Longrightarrow> After a c" by (simp add: After_def)
qed

lemma skel_running: "skel d' = skel d \<Longrightarrow> isRunning (peers d' p) = isRunning (peers d p)"
  by (auto simp: skel_def pskel_def fun_eq_iff)

lemma still_trans [trans]: "still d d' \<Longrightarrow> still d' d'' \<Longrightarrow> still d d''"
proof -
  have "stampLe a b \<Longrightarrow> stampLe b c \<Longrightarrow> stampLe a c" for a b c using After_trans by (auto simp: stampLe_def)
  then show "still d d' \<Longrightarrow> still d' d'' \<Longrightarrow> still d d''"
    using skel_running [of d' d] unfolding still_def by (metis order_trans)
qed

lemma sane_refl [simp]: "still d d" "sane d d"
  by (simp_all add: sane_def still_def stampLe_def)

lemma sane_trans [trans]: "sane d d' \<Longrightarrow> sane d' d'' \<Longrightarrow> sane d d''"
  using still_trans by (auto simp: sane_def)

lemma calm_sane: "calm d d' \<Longrightarrow> sane d d'"
proof -
  assume c: "calm d d'"
  have p: "pskel (peers d' p) = pskel (peers d p)" "slots (peers d' p) = slots (peers d p)" for p
    using calm_peerD [OF c] by (simp_all add: pskel_def slots_def)
  have "skel d' = skel d" using calmD [OF c] p by (simp add: skel_def)
  moreover have "nonceInv d' = nonceInv d" "queueInv d' = queueInv d"
    using calmD [OF c] calm_peerD [OF c] p by (simp_all add: nonceInv_def queueInv_def)
  ultimately show ?thesis using c calmD(9) [OF c] calm_peerD(12) [OF c] by (simp add: sane_def still_def calm_def stampLe_def)
qed

section \<open>Steps on peers and key pairs\<close>

lemma sane_upPeer:
  fixes d :: Device and p :: peerId
  defines "q \<equiv> peers d p"
  assumes "pskel (f q) = pskel q" and "idle q \<Longrightarrow> idle (f q)"
    and "slots q \<subseteq> {..<nextKp d} \<Longrightarrow> slots (f q) \<subseteq> {..<nextKp d}"
    and "length (staged q) \<le> QueueStagedSize \<Longrightarrow> length (staged (f q)) \<le> QueueStagedSize"
    and "stampLe (lastTimestamp (handshake q)) (lastTimestamp (handshake (f q)))"
  shows "sane d (upPeer p f d)"
proof -
  have pe: "peers (upPeer p f d) r = (if r = p then f q else peers d r)" for r by (simp add: upPeer_def q_def)
  have "skel (upPeer p f d) = skel d"
    using assms(2) by (auto simp: skel_def upPeer_def q_def fun_eq_iff)
  moreover have "nonceInv d \<Longrightarrow> nonceInv (upPeer p f d)"
  proof -
    assume n: "nonceInv d"
    then have "slots (peers (upPeer p f d) r) \<subseteq> {..<nextKp d}" for r using assms(4) by (simp add: pe nonceInv_def q_def)
    then show ?thesis using n by (simp add: nonceInv_def upPeer_def)
  qed
  moreover have "queueInv d \<Longrightarrow> queueInv (upPeer p f d)"
    using assms(5) by (simp add: queueInv_def upPeer_def q_def)
  moreover have "idle (peers d r) \<Longrightarrow> idle (peers (upPeer p f d) r)" for r using assms(3) by (auto simp: pe q_def)
  moreover have "stampLe (lastStamp d r) (lastStamp (upPeer p f d) r)" for r using assms(6) by (simp add: pe q_def stampLe_def)
  ultimately show ?thesis by (simp add: sane_def still_def upPeer_def)
qed

lemma sane_newKeypair:
  assumes "sendNonce kp = 0"
  shows "sane d (d\<lparr>keypairs := (keypairs d)(nextKp d := kp), nextKp := nextKp d + 1\<rparr>)"
proof -
  have "nonceInv d \<Longrightarrow> nonceInv (d\<lparr>keypairs := (keypairs d)(nextKp d := kp), nextKp := nextKp d + 1\<rparr>)"
    using assms by (fastforce simp: nonceInv_def)
  then show ?thesis by (simp add: sane_def still_def skel_def queueInv_def stampLe_def)
qed

lemma sane_upKeypair:
  assumes "sendNonce (keypairs d k) \<le> sendNonce (f (keypairs d k))" and "sendNonce (f (keypairs d k)) \<le> RejectAfterMessages \<or> sendNonce (f (keypairs d k)) = sendNonce (keypairs d k)"
  shows "sane d (upKeypair k f d)"
proof -
  have "nonceInv d \<Longrightarrow> nonceInv (upKeypair k f d)"
    using assms by (fastforce simp: nonceInv_def upKeypair_def)
  then show ?thesis by (simp add: sane_def still_def skel_def queueInv_def stampLe_def upKeypair_def)
qed

lemma fold_DeleteKeypair_calm: "calm d (fold DeleteKeypair ks d)"
  by (induction ks arbitrary: d) (auto intro: calm_trans [OF DeleteKeypair_calm])

lemma BeginSymmetricSession_sane:
  assumes "BeginSymmetricSession C p d = (e, d')"
  shows "sane d d'"
proof (cases e)
  case (Some x)
  then show ?thesis using assms by (auto simp: BeginSymmetricSession_def Let_def split: prod.splits if_splits)
next
  case None
  let ?h = "handshake (peers d p)"
  define i where "i = (hsState ?h = handshakeResponseConsumed)"
  obtain t0 t1 where t: "KDF2 C (chainKey ?h) [] = (t0, t1)" by fastforce
  define kp where "kp = \<lparr>sendNonce = 0, kpSend = (if i then t0 else t1), kpReceive = (if i then t1 else t0), replayFilter = Reset zeroFilter,
    isInitiator = i, created = clock d, kpLocalIndex = localIndex ?h, kpRemoteIndex = remoteIndex ?h\<rparr>"
  define d1 where "d1 = SwapIndexForKeypair (localIndex ?h) (nextKp d) (d\<lparr>keypairs := (keypairs d)(nextKp d := kp), nextKp := nextKp d + 1\<rparr>)"
  define h where "h = ?h\<lparr>chainKey := zeroKey, hsHash := zeroKey, localEphemeral := zeroKey, hsState := handshakeZeroed, localIndex := 0\<rparr>"
  define d2 where "d2 = setHandshake p h d1"
  obtain q old where r: "rotateKeypairs i (nextKp d) (peers d2 p) = (q, old)" by fastforce
  have d': "d' = upPeer p (\<lambda>_. q) (fold DeleteKeypair old d2)"
    using assms None r by (auto simp: BeginSymmetricSession_def t kp_def d1_def h_def d2_def i_def Let_def split: if_splits)
  have s: "sendNonce kp = 0" "hcore h = hcore ?h" by (simp_all add: kp_def h_def)
  have "calm (d\<lparr>keypairs := (keypairs d)(nextKp d := kp), nextKp := nextKp d + 1\<rparr>) d1"
    by (simp add: d1_def SwapIndexForKeypair_def calm_fields split: option.splits)
  moreover have p1: "peers d1 = peers d" "nextKp d1 = nextKp d + 1" by (simp_all add: d1_def)
  then have "calm d1 d2" by (simp add: s(2) d2_def calm_setHandshake)
  ultimately have "calm (d\<lparr>keypairs := (keypairs d)(nextKp d := kp), nextKp := nextKp d + 1\<rparr>) (fold DeleteKeypair old d2)"
    by (meson calm_trans fold_DeleteKeypair_calm)
  then have "sane d (fold DeleteKeypair old d2)" by (rule sane_trans [OF sane_newKeypair [OF s(1)] calm_sane])
  moreover have "sane (fold DeleteKeypair old d2) d'"
    unfolding d' by (rule sane_upPeer)
      (use r p1 d2_def in \<open>auto simp: rotateKeypairs_def slots_def setHandshake_def upHandshake_def upPeer_def idle_timers pskel_def stampLe_def split: if_splits option.splits\<close>)
  ultimately show ?thesis by (rule sane_trans)
qed

lemma ReceivedWithKeypair_sane: "ReceivedWithKeypair p k d = (b, d') \<Longrightarrow> sane d d'"
proof (cases "kpNext (peers d p) = Some k")
  case True
  assume "ReceivedWithKeypair p k d = (b, d')"
  then have d': "d' = upPeer p (\<lambda>q. q\<lparr>kpPrevious := kpCurrent q, kpCurrent := kpNext q, kpNext := None\<rparr>) (DeleteKeypair (kpPrevious (peers d p)) d)"
    using True by (simp add: ReceivedWithKeypair_def Let_def)
  have "sane (DeleteKeypair (kpPrevious (peers d p)) d) d'"
    unfolding d' by (rule sane_upPeer) (auto simp: slots_def idle_timers pskel_def stampLe_def)
  then show ?thesis by (rule sane_trans [OF calm_sane [OF DeleteKeypair_calm]])
qed (simp add: ReceivedWithKeypair_def)

section \<open>Staged packets\<close>

lemma nonce_inc: "n < m \<Longrightarrow> n < n + 1 \<and> n + 1 \<le> m" for n m :: u64
  by unat_arith

lemma assignNonces_spec:
  assumes "assignNonces k n es = (n', out, ooo)" and "n \<le> RejectAfterMessages"
  shows "n \<le> n' \<and> n' \<le> RejectAfterMessages \<and> distinct (map oeNonce out) \<and> (\<forall>e \<in> set out. n \<le> oeNonce e \<and> oeNonce e < n' \<and> oeKeypair e = Some k)"
  using assms
proof (induction es arbitrary: n n' out ooo)
  case (Cons e es)
  show ?case
  proof (cases "n < RejectAfterMessages")
    case True
    obtain m o1 o2 where a: "assignNonces k (n + 1) es = (m, o1, o2)" by (metis prod_cases3)
    have r: "n < n + 1" "n + 1 \<le> RejectAfterMessages" using nonce_inc [OF True] by auto
    have eq: "n' = m" "out = e\<lparr>oeNonce := n, oeKeypair := Some k\<rparr> # o1"
      using Cons.prems(1) a leD [OF r(2)] True by (auto simp: not_le [symmetric])
    then show ?thesis using Cons.IH [OF a r(2)] r(1) by fastforce
  next
    case False
    obtain m o1 o2 where a: "assignNonces k RejectAfterMessages es = (m, o1, o2)" by (metis prod_cases3)
    have "n' = m" "out = o1" "n = RejectAfterMessages" using Cons.prems a False by auto
    then show ?thesis using Cons.IH [OF a] by simp
  qed
qed simp

lemma length_stageQueue: "length (stageQueue e xs) \<le> QueueStagedSize"
  by (induction e xs rule: stageQueue.induct) (auto simp: QueueStagedSize_def)

lemma StagePackets_sane: "sane d (StagePackets p es d)"
  unfolding StagePackets_def
  by (rule sane_upPeer) (auto simp: pskel_def idle_timers slots_def stampLe_def length_stageQueue)

lemma nonces_used:
  assumes "assignNonces k (sendNonce (keypairs d k)) es = (n, out, ooo)"
  defines "d' \<equiv> (upKeypair k (\<lambda>kp. kp\<lparr>sendNonce := n\<rparr>) d)\<lparr>usedNonces := usedNonces d @ map (\<lambda>e. (k, oeNonce e)) out\<rparr>"
  shows "still d d'" and "nonceInv d \<Longrightarrow> k < nextKp d \<Longrightarrow> nonceInv d'"
proof -
  show "still d d'" by (simp add: still_def skel_def queueInv_def stampLe_def d'_def upKeypair_def)
  assume i: "nonceInv d" "k < nextKp d"
  have r: "sendNonce (keypairs d k) \<le> RejectAfterMessages" using i(1) by (simp add: nonceInv_def)
  note a = assignNonces_spec [OF assms(1) r]
  have "distinct (map (\<lambda>e. (k, oeNonce e)) out)" using a by (simp add: distinct_map inj_on_def)
  moreover have "set (usedNonces d) \<inter> set (map (\<lambda>e. (k, oeNonce e)) out) = {}"
    using a i(1) by (fastforce simp: nonceInv_def)
  ultimately have "distinct (usedNonces d')" using i(1) by (simp add: nonceInv_def d'_def)
  moreover have "\<forall>(j, m) \<in> set (usedNonces d'). j < nextKp d' \<and> m < sendNonce (keypairs d' j)"
    using a i by (fastforce simp: nonceInv_def d'_def upKeypair_def)
  ultimately show "nonceInv d'" using i(1) a by (simp add: nonceInv_def d'_def upKeypair_def)
qed

text \<open>The loop of \<^const>\<open>SendStagedPackets\<close>: the key pair it holds was a slot of the peer.\<close>

lemma sendStaged_aux:
  assumes "sendStaged C N p at d = Some d'"
  shows "still d d' \<and> (nonceInv d \<longrightarrow> (\<forall>k. at = Some k \<longrightarrow> k < nextKp d) \<longrightarrow> nonceInv d')"
proof (rule sendStaged.raw_induct [OF _ assms, where P = "\<lambda>C N p at d d'. still d d' \<and> (nonceInv d \<longrightarrow> (\<forall>k. at = Some k \<longrightarrow> k < nextKp d) \<longrightarrow> nonceInv d')"],
    goal_cases)
  case (1 f C N p at d d')
  note IH = 1(1) and run = 1(2)
  have hs: "map_option snd (SendHandshakeInitiation C N p False d) = Some d' \<Longrightarrow> sane d d'"
    using SendHandshakeInitiation_calm calm_sane by force
  show ?case
  proof (cases at)
    case None
    have "sane d d'" if k: "kpCurrent (peers d p) = Some k" and r: "f C N p (Some k) d = Some d'" for k
      using IH [OF r] k by (fastforce simp: sane_def nonceInv_def slots_def)
    then show ?thesis using run None hs
      by (auto simp: sane_def split: if_splits option.splits)
  next
    case (Some k)
    show ?thesis
    proof (cases "staged (peers d p)")
      case Nil
      then show ?thesis using run Some by simp
    next
      case (Cons elems rest)
      define e1 where "e1 = upPeer p (\<lambda>q. q\<lparr>staged := rest\<rparr>) d"
      have kp: "keypairs e1 = keypairs d" "nextKp e1 = nextKp d" by (simp_all add: e1_def upPeer_def)
      obtain n out ooo where a: "assignNonces k (sendNonce (keypairs e1 k)) elems = (n, out, ooo)" by (metis prod_cases3)
      define e2 where "e2 = (upKeypair k (\<lambda>kp. kp\<lparr>sendNonce := n\<rparr>) e1)\<lparr>usedNonces := usedNonces e1 @ map (\<lambda>e. (k, oeNonce e)) out\<rparr>"
      define e3 where "e3 = (if ooo \<noteq> [] then StagePackets p ooo e2 else e2)"
      define e4 where "e4 = (if out \<noteq> [] \<and> isRunning (peers e3 p) then upPeer p (\<lambda>q. q\<lparr>outbound := outbound q @ [(out, False)]\<rparr>) e3 else e3)"
      have s1: "sane d e1" unfolding e1_def
        by (rule sane_upPeer) (auto simp: pskel_def idle_timers slots_def stampLe_def Cons)
      have s3: "sane e2 e3" using StagePackets_sane by (simp add: e3_def)
      have s4: "sane e3 e4" unfolding e4_def
        by (auto intro!: sane_upPeer simp: pskel_def idle_timers slots_def stampLe_def)
      have nk: "nextKp e4 = nextKp d" by (simp add: e4_def e3_def e2_def StagePackets_def upPeer_def upKeypair_def kp)
      have st: "still d e4"
        using s1 nonces_used(1) [OF a, folded e2_def] s3 s4 by (meson sane_def still_trans)
      have ni: "nonceInv d \<Longrightarrow> k < nextKp d \<Longrightarrow> nonceInv e4"
        using s1 nonces_used(2) [OF a, folded e2_def] s3 s4 by (simp add: sane_def kp)
      have "f C N p None e4 = Some d' \<or> f C N p (Some k) e4 = Some d'"
        using run a [unfolded kp]
        by (auto simp: Some Cons e1_def e2_def e3_def e4_def upPeer_def upKeypair_def StagePackets_def Let_def split: if_splits)
      then show ?thesis
        using IH [of C N p None e4 d'] IH [of C N p "Some k" e4 d'] still_trans [OF st] ni nk Some by auto
    qed
  qed
qed

lemma SendStagedPackets_sane: "SendStagedPackets C N p d = Some d' \<Longrightarrow> sane d d'"
  using sendStaged_aux [of C N p None d d'] by (simp add: SendStagedPackets_def sane_def)

end
