(* ===== verification/Steps.thy ===== *)
theory Steps
  imports Frames
begin

text \<open>
  The steps of the goroutines: each keeps the configuration, the table of peers and the bounds of the queues,
  uses no nonce twice, starts no timer of a stopped peer and never moves the last timestamp of a peer back.
\<close>

named_theorems sane_intros \<open>steps that keep the skeleton and the invariants\<close>

lemmas sane_frame = pskel_def idle_timers slots_def stampLe_def

section \<open>Sending\<close>

lemma SendKeepalive_sane:
  assumes "SendKeepalive C N p d = Some d'"
  shows "sane d d'"
proof -
  have "sane d (if staged (peers d p) = [] \<and> isRunning (peers d p) then upPeer p (\<lambda>q. q\<lparr>staged := [[newOutElem []]]\<rparr>) d else d)"
    by (auto intro!: sane_upPeer simp: sane_frame QueueStagedSize_def)
  from sane_trans [OF this SendStagedPackets_sane] show ?thesis using assms by (simp add: SendKeepalive_def)
qed

lemma FlushStagedPackets_sane: "sane d (FlushStagedPackets p d)"
  unfolding FlushStagedPackets_def by (rule sane_upPeer) (simp_all add: sane_frame)

lemma stageAndSend_sane: "stageAndSend C N m d = Some d' \<Longrightarrow> sane d d'"
proof (induction m arbitrary: d)
  case (Cons x m)
  obtain p es where x: "x = (p, es)" by fastforce
  show ?case
  proof (cases "isRunning (peers d p)")
    case True
    then obtain d1 where "SendStagedPackets C N p (StagePackets p es d) = Some d1" "stageAndSend C N m d1 = Some d'"
      using Cons.prems x by (auto elim!: bind_SomeE)
    then show ?thesis using StagePackets_sane SendStagedPackets_sane Cons.IH sane_trans by meson
  qed (use Cons x in simp)
qed simp

lemma RoutineReadFromTUN_sane: "RoutineReadFromTUN C N packets d = Some d' \<Longrightarrow> sane d d'"
  by (auto simp: RoutineReadFromTUN_def dest: stageAndSend_sane elim!: bind_SomeE)

lemma RoutineEncryption_sane:
  assumes "RoutineEncryption C p i d = Some d'"
  shows "sane d d'"
proof -
  have u: "sane d1 (upPeer p (\<lambda>r. r\<lparr>outbound := (outbound r)[i := x]\<rparr>) d1)" for d1 x
    by (rule sane_upPeer) (simp_all add: sane_frame)
  show ?thesis using assms
    by (auto simp: RoutineEncryption_def Let_def dest!: encryptElems_calm calm_sane split: if_splits intro: sane_trans [OF _ u])
qed

lemma RoutineSequentialSender_sane:
  assumes "RoutineSequentialSender C N p d = Some d'"
  shows "sane d d'"
proof (cases "outbound (peers d p)")
  case (Cons x rest)
  obtain elems unlocked where x: "x = (elems, unlocked)" by fastforce
  define e where "e = upPeer p (\<lambda>q. q\<lparr>outbound := rest\<rparr>) d"
  have e: "sane d e" unfolding e_def by (rule sane_upPeer) (simp_all add: sane_frame)
  have "calm e d'" if go: "unlocked" "isRunning (peers e p)"
  proof -
    obtain bufs d1 where pad: "padTransportPackets (map oePacket elems) e = Some (bufs, d1)"
      using assms go unfolding RoutineSequentialSender_def Cons x by (auto simp: e_def [symmetric] Let_def elim!: bind_SomeE)
    define d2 where "d2 = timersAnyAuthenticatedPacketSent p (timersAnyAuthenticatedPacketTraversal p d1)"
    obtain err d3 where send: "SendBuffers N p bufs d2 = (err, d3)" by fastforce
    define d4 where "d4 = (if \<exists>e \<in> set elems. length (oePacket e) \<noteq> MessageKeepaliveSize then timersDataSent p d3 else d3)"
    have fin: "d' = d4 \<or> keepKeyFreshSending C N p d4 = Some d'"
      using assms go unfolding RoutineSequentialSender_def Cons x
      by (auto simp: e_def [symmetric] Let_def pad d2_def [symmetric] send d4_def split: if_splits)
    have "calm e d1" using pad by (rule padTransportPackets_calm)
    also have "calm d1 d2" unfolding d2_def by (meson calm_trans calm_timers)
    also have "calm d2 d3" by (rule SendBuffers_calm [OF send])
    also have "calm d3 d4" unfolding d4_def by (simp add: calm_timers)
    also have "calm d4 d'" using fin keepKeyFresh_calm(1) by auto
    finally show ?thesis .
  qed
  then show ?thesis using assms e sane_trans [OF e calm_sane]
    by (auto simp: RoutineSequentialSender_def Cons x e_def [symmetric] split: if_splits)
qed (use assms in \<open>simp add: RoutineSequentialSender_def\<close>)

section \<open>Receiving\<close>

lemma sane_handshakeQueue: "length q \<le> QueueHandshakeSize \<or> length q \<le> length (handshakeQueue d) \<Longrightarrow> sane d (d\<lparr>handshakeQueue := q\<rparr>)"
  by (auto simp: sane_def still_def skel_def nonceInv_def queueInv_def stampLe_def)

lemma sane_tunOut: "sane d (d\<lparr>tunOut := b\<rparr>)"
  by (simp add: sane_def still_def skel_def nonceInv_def queueInv_def stampLe_def)

lemma receiveBatch_sane: "receiveBatch bs m d = (m', d') \<Longrightarrow> sane d d'"
proof (induction bs arbitrary: m d)
  case (Cons x bs)
  obtain b ep where x: "x = (b, ep)" by fastforce
  have q: "sane d (if length (handshakeQueue d) < QueueHandshakeSize then d\<lparr>handshakeQueue := handshakeQueue d @ [e]\<rparr> else d)" for e
    by (auto intro: sane_handshakeQueue)
  show ?case
    using Cons.prems sane_trans [OF q Cons.IH] by (auto simp: x dest: Cons.IH split: incoming.splits)
qed simp

lemma queueInbound_sane: "sane d (queueInbound m d)"
proof (induction m d rule: queueInbound.induct)
  case (2 p es m d)
  have "sane d (if isRunning (peers d p) then upPeer p (\<lambda>q. q\<lparr>inbound := inbound q @ [(es, False)]\<rparr>) d else d)"
    by (auto intro!: sane_upPeer simp: sane_frame)
  from sane_trans [OF this 2] show ?case by simp
qed simp

lemma RoutineReceiveIncoming_sane: "sane d (RoutineReceiveIncoming batch d)"
proof -
  obtain m d1 where "receiveBatch batch [] d = (m, d1)" by fastforce
  then show ?thesis using sane_trans [OF receiveBatch_sane queueInbound_sane] by (simp add: RoutineReceiveIncoming_def)
qed

lemma RoutineDecryption_sane: "sane d (RoutineDecryption C p i d)"
  by (auto simp: RoutineDecryption_def Let_def sane_frame intro!: sane_upPeer)

lemma ConsumeMessageInitiation_sane: "ConsumeMessageInitiation C msg d = (r, d') \<Longrightarrow> sane d d'"
proof -
  have "sane d (setHandshake p h d)"
    if "remoteStatic h = remoteStatic (handshake (peers d p))" "presharedKey h = presharedKey (handshake (peers d p))"
      "precomputedStaticStatic h = precomputedStaticStatic (handshake (peers d p))" "After (lastTimestamp h) (lastStamp d p)" for p h
    unfolding setHandshake_def upHandshake_def by (rule sane_upPeer) (simp_all add: sane_frame that)
  then show "ConsumeMessageInitiation C msg d = (r, d') \<Longrightarrow> sane d d'"
    by (auto simp: ConsumeMessageInitiation_def Let_def split: if_splits option.splits prod.splits)
qed

lemma SendHandshakeResponse_sane:
  assumes "SendHandshakeResponse C N p d = Some (r, d')"
  shows "sane d d'"
proof -
  define d0 where "d0 = upHandshake p (\<lambda>h. h\<lparr>lastSentHandshake := clock d\<rparr>) d"
  obtain r1 d1 where c: "CreateMessageResponse C p d0 = Some (r1, d1)"
    using assms by (auto simp: SendHandshakeResponse_def d0_def Let_def elim!: bind_SomeE)
  have d1: "calm d d1" unfolding d0_def by (rule calm_trans [OF lastSent_calm CreateMessageResponse_calm [OF c [unfolded d0_def]]])
  show ?thesis
  proof (cases r1)
    case (Inl e)
    then show ?thesis using assms c d1 by (simp add: SendHandshakeResponse_def d0_def calm_sane)
  next
    case (Inr msg)
    obtain b d2 where m: "addMacs C p (marshalResponse msg) d1 = Some (b, d2)"
      using assms c Inr by (auto simp: SendHandshakeResponse_def d0_def Let_def elim!: bind_SomeE)
    obtain e d3 where s: "BeginSymmetricSession C p d2 = (e, d3)" by fastforce
    define d4 where "d4 = timersAnyAuthenticatedPacketSent p (timersAnyAuthenticatedPacketTraversal p (timersSessionDerived p d3))"
    have d4: "calm d3 d4" unfolding d4_def by (meson calm_trans calm_timers)
    have d3: "sane d d3" by (rule sane_trans [OF calm_sane [OF calm_trans [OF d1 addMacs_calm [OF m]]] BeginSymmetricSession_sane [OF s]])
    have "d' = d3 \<or> (\<exists>b' d5. padPacket (padResponse d4) b d4 = Some (b', d5) \<and> SendBuffers N p [b'] d5 = (r, d'))"
      using assms c Inr m s by (auto simp: SendHandshakeResponse_def d0_def d4_def Let_def split: option.splits elim!: bind_SomeE)
    moreover have "calm d3 d'" if "padPacket (padResponse d4) b d4 = Some (b', d5)" "SendBuffers N p [b'] d5 = (r, d')" for b' d5
      by (rule calm_trans [OF calm_trans [OF d4 padPacket_calm [OF that(1)]] SendBuffers_calm [OF that(2)]])
    ultimately show ?thesis using d3 sane_trans [OF d3 calm_sane] by blast
  qed
qed

lemma handleInitiation_sane:
  assumes "handleInitiation C N elem d = Some d'"
  shows "sane d d'"
proof (cases "unmarshalInitiation (hePacket elem)")
  case (Some msg)
  obtain r d1 where c: "ConsumeMessageInitiation C (msg\<lparr>miType := heMsgType elem\<rparr>) d = (r, d1)" by fastforce
  note d1 = ConsumeMessageInitiation_sane [OF c]
  show ?thesis
  proof (cases r)
    case None
    then show ?thesis using assms d1 c Some by (simp add: handleInitiation_def)
  next
    case p: (Some p)
    define d2 where "d2 = addRxBytes (length (hePacket elem)) p (SetEndpointFromPacket p (heEndpoint elem)
      (timersAnyAuthenticatedPacketReceived p (timersAnyAuthenticatedPacketTraversal p d1)))"
    have "calm d1 d2" unfolding d2_def by (meson calm_trans calm_timers SetEndpoint_calm)
    moreover have "sane d2 d'"
      using assms c p Some by (auto simp: handleInitiation_def d2_def Let_def dest: SendHandshakeResponse_sane)
    ultimately show ?thesis using d1 by (meson sane_trans calm_sane)
  qed
qed (use assms in \<open>simp add: handleInitiation_def\<close>)

lemma handleResponse_sane:
  assumes "handleResponse C N elem d = Some d'"
  shows "sane d d'"
proof (cases "unmarshalResponse (hePacket elem)")
  case (Some msg)
  obtain r d1 where c: "ConsumeMessageResponse C (msg\<lparr>mrType := heMsgType elem\<rparr>) d = (r, d1)" by fastforce
  note d1 = calm_sane [OF ConsumeMessageResponse_calm [OF c]]
  show ?thesis
  proof (cases r)
    case None
    then show ?thesis using assms d1 c Some by (simp add: handleResponse_def)
  next
    case p: (Some p)
    define d2 where "d2 = timersAnyAuthenticatedPacketReceived p (timersAnyAuthenticatedPacketTraversal p
      (addRxBytes (length (hePacket elem)) p (SetEndpointFromPacket p (heEndpoint elem) d1)))"
    obtain e d3 where b: "BeginSymmetricSession C p d2 = (e, d3)" by fastforce
    define d4 where "d4 = timersHandshakeComplete p (timersSessionDerived p d3)"
    have fin: "d' = d3 \<or> SendKeepalive C N p d4 = Some d'"
      using assms c p Some b by (auto simp: handleResponse_def d2_def [symmetric] d4_def Let_def split: option.splits)
    have "calm d1 d2" "calm d3 d4" unfolding d2_def d4_def by (meson calm_trans calm_timers SetEndpoint_calm)+
    then have "sane d d3" "sane d3 d4" using d1 BeginSymmetricSession_sane [OF b] by (meson sane_trans calm_sane)+
    then show ?thesis using fin SendKeepalive_sane by (meson sane_trans)
  qed
qed (use assms in \<open>simp add: handleResponse_def\<close>)

lemma RoutineHandshake_sane:
  assumes "RoutineHandshake C N d = Some d'"
  shows "sane d d'"
proof (cases "handshakeQueue d")
  case (Cons elem rest)
  define e where "e = d\<lparr>handshakeQueue := rest\<rparr>"
  have e: "sane d e" unfolding e_def by (rule sane_handshakeQueue) (simp add: Cons)
  have "sane e d'" if "checkHandshake C N elem e = Some (go, d1)"
    "d' = d1 \<or> handleInitiation C N elem d1 = Some d' \<or> handleResponse C N elem d1 = Some d'" for go d1
    using that handleInitiation_sane handleResponse_sane by (meson sane_trans calm_sane checkHandshake_calm)
  moreover have "sane e (consumeCookieReply C (hePacket elem) e)" by (rule calm_sane [OF consumeCookieReply_calm])
  ultimately have "sane e d'" using assms
    by (auto simp: RoutineHandshake_def Cons e_def [symmetric] Let_def split: if_splits elim!: bind_SomeE)
  then show ?thesis by (rule sane_trans [OF e])
qed (use assms in \<open>simp add: RoutineHandshake_def\<close>)

lemma receiveElem_sane:
  assumes "receiveElem C N p e (l, d) = Some (l', d')"
  shows "sane d d'"
proof (cases "iePacket e")
  case (Some packet)
  let ?k = "ieKeypair e"
  obtain f ok where v: "ValidateCounter (replayFilter (keypairs d ?k)) (ieCounter e) RejectAfterMessages = Some (f, ok)"
    using assms by (auto simp: receiveElem_def Some elim!: bind_SomeE)
  define d1 where "d1 = upKeypair ?k (\<lambda>kp. kp\<lparr>replayFilter := f\<rparr>) d"
  obtain b d2 where r: "ReceivedWithKeypair p ?k d1 = (b, d2)" by fastforce
  define d3 where "d3 = timersHandshakeComplete p (SetEndpointFromPacket p (ieEndpoint e) d2)"
  have fin: "d' = d1 \<or> d' = d2 \<or> SendStagedPackets C N p d3 = Some d'"
    using assms by (auto simp: receiveElem_def Some v d1_def [symmetric] r d3_def Let_def split: if_splits bool.splits elim!: bind_SomeE)
  have d1: "sane d d1" unfolding d1_def by (rule sane_upKeypair) simp_all
  have d2: "sane d d2" by (rule sane_trans [OF d1 ReceivedWithKeypair_sane [OF r]])
  have "calm d2 d3" unfolding d3_def by (meson calm_trans calm_timers SetEndpoint_calm)
  then have "sane d d3" by (rule sane_trans [OF d2 calm_sane])
  then show ?thesis using fin d1 d2 sane_trans [OF _ SendStagedPackets_sane] by auto
qed (use assms in \<open>simp add: receiveElem_def\<close>)

lemma receiveElems_sane: "receiveElems C N p es (l, d) = Some (l', d') \<Longrightarrow> sane d d'"
proof (induction es arbitrary: l d)
  case (Cons e es)
  obtain l1 d1 where s: "receiveElem C N p e (l, d) = Some (l1, d1)" "receiveElems C N p es (l1, d1) = Some (l', d')"
    using Cons.prems by (auto elim!: bind_SomeE)
  show ?case by (rule sane_trans [OF receiveElem_sane [OF s(1)] Cons.IH [OF s(2)]])
qed simp

lemma receiveContainer_sane:
  assumes "receiveContainer C N p elems d = Some d'"
  shows "sane d d'"
proof -
  obtain l d1 where l: "receiveElems C N p elems (recvLoop0, d) = Some (l, d1)"
    using assms by (auto simp: receiveContainer_def elim!: bind_SomeE)
  define d2 where "d2 = upPeer p (\<lambda>q. q\<lparr>rxBytes := rxBytes q + rxBytesLen l\<rparr>) d1"
  obtain d3 where c: "calm d2 d3" and fin: "d' = (if dataPacketReceived l then timersDataReceived p d3 else d3)\<lparr>tunOut :=
      tunOut (if dataPacketReceived l then timersDataReceived p d3 else d3) @ recvBufs l\<rparr>"
  proof (cases "validTail l")
    case None
    then show thesis using assms l that [of d2] by (auto simp: receiveContainer_def d2_def [symmetric] Let_def)
  next
    case (Some ep)
    then obtain d4 where k: "keepKeyFreshReceiving C N p (SetEndpointFromPacket p ep d2) = Some d4"
      and d': "d' = (let d = timersAnyAuthenticatedPacketReceived p (timersAnyAuthenticatedPacketTraversal p d4);
        d = (if dataPacketReceived l then timersDataReceived p d else d) in d\<lparr>tunOut := tunOut d @ recvBufs l\<rparr>)"
      using assms l by (auto simp: receiveContainer_def d2_def [symmetric] Let_def elim!: bind_SomeE)
    have "calm d2 (timersAnyAuthenticatedPacketReceived p (timersAnyAuthenticatedPacketTraversal p d4))"
      using keepKeyFresh_calm(2) [OF k] by (meson calm_trans calm_timers SetEndpoint_calm)
    then show thesis using that d' by (simp add: Let_def)
  qed
  have "sane d d1" by (rule receiveElems_sane [OF l])
  also have "sane d1 d2" unfolding d2_def by (rule calm_sane [OF calm_peer_fields(4)])
  also have "sane d2 d3" by (rule calm_sane [OF c])
  also have "sane d3 (if dataPacketReceived l then timersDataReceived p d3 else d3)" by (simp add: calm_sane calm_timers)
  also have "sane (if dataPacketReceived l then timersDataReceived p d3 else d3) d'" unfolding fin by (rule sane_tunOut)
  finally show ?thesis .
qed

lemma RoutineSequentialReceiver_sane:
  assumes "RoutineSequentialReceiver C N p d = Some d'"
  shows "sane d d'"
proof -
  have u: "sane d (upPeer p (\<lambda>q. q\<lparr>inbound := rest\<rparr>) d)" for rest by (rule sane_upPeer) (simp_all add: sane_frame)
  then show ?thesis using assms sane_trans [OF u receiveContainer_sane]
    by (auto simp: RoutineSequentialReceiver_def split: list.splits if_splits)
qed

lemma drainInbound_sane: "drainInbound C N p cs d = Some d' \<Longrightarrow> sane d d'"
proof (induction cs arbitrary: d)
  case (Cons c cs)
  obtain es unlocked where c: "c = (es, unlocked)" by fastforce
  obtain d1 where s: "receiveContainer C N p (if unlocked then es else map (decryptElem C d) es) d = Some d1" "drainInbound C N p cs d1 = Some d'"
    using Cons.prems c by (auto elim!: bind_SomeE)
  show ?case by (rule sane_trans [OF receiveContainer_sane [OF s(1)] Cons.IH [OF s(2)]])
qed simp

section \<open>Timers\<close>

lemma ZeroAndFlushAll_sane: "sane d (ZeroAndFlushAll p d)"
proof -
  let ?q = "peers d p"
  define d1 where "d1 = DeleteKeypair (kpNext ?q) (DeleteKeypair (kpCurrent ?q) (DeleteKeypair (kpPrevious ?q) d))"
  define d2 where "d2 = upPeer p (\<lambda>q. q\<lparr>kpPrevious := None, kpCurrent := None, kpNext := None\<rparr>) d1"
  define d3 where "d3 = indexDelete (localIndex (handshake (peers d2 p))) d2"
  have "calm d d1" unfolding d1_def by (meson calm_trans DeleteKeypair_calm)
  moreover have "sane d1 d2" unfolding d2_def by (rule sane_upPeer) (simp_all add: sane_frame)
  moreover have "calm d2 d3" unfolding d3_def by (rule indexDelete_calm)
  moreover have "calm d3 (upHandshake p handshakeClear d3)" by (rule calm_upHandshake) (simp add: handshakeClear_def hcore_def)
  ultimately have "sane d (upHandshake p handshakeClear d3)" by (meson sane_trans calm_sane)
  moreover have "ZeroAndFlushAll p d = FlushStagedPackets p (upHandshake p handshakeClear d3)"
    by (simp add: ZeroAndFlushAll_def Let_def d3_def d2_def d1_def)
  ultimately show ?thesis using sane_trans [OF _ FlushStagedPackets_sane] by simp
qed

lemma sane_expire: "sane d (case k of None \<Rightarrow> d | Some k \<Rightarrow> upKeypair k (\<lambda>kp. kp\<lparr>sendNonce := RejectAfterMessages\<rparr>) d)"
proof (cases k)
  case (Some i)
  have "nonceInv (upKeypair i (\<lambda>kp. kp\<lparr>sendNonce := RejectAfterMessages\<rparr>) d)" if n: "nonceInv d"
  proof -
    have "m < RejectAfterMessages" if "(j, m) \<in> set (usedNonces d)" for j m
      using n that less_le_trans [of m "sendNonce (keypairs d j)"] by (auto simp: nonceInv_def)
    then show ?thesis using n by (auto simp: nonceInv_def upKeypair_def)
  qed
  then show ?thesis
    by (simp add: Some sane_def still_def skel_def queueInv_def stampLe_def upKeypair_def)
qed simp

lemma ExpireCurrentKeypairs_sane: "sane d (ExpireCurrentKeypairs p d)"
proof -
  have "calm d (upHandshake p (\<lambda>h. (handshakeClear h)\<lparr>lastSentHandshake := t\<rparr>) (indexDelete i d))" for t i
    by (rule calm_trans [OF indexDelete_calm calm_upHandshake]) (simp add: handshakeClear_def hcore_def)
  note c = this [THEN calm_sane]
  show ?thesis unfolding ExpireCurrentKeypairs_def Let_def
    by (rule sane_trans [OF sane_trans [OF c sane_expire] sane_expire])
qed

lemma expired_sane:
  "expiredRetransmitHandshake C N p d = Some d' \<Longrightarrow> sane d d'" "expiredSendKeepalive C N p d = Some d' \<Longrightarrow> sane d d'"
  "expiredNewHandshake C N p d = Some d' \<Longrightarrow> sane d d'" "expiredZeroKeyMaterial p d = Some d' \<Longrightarrow> sane d d'"
  "expiredPersistentKeepalive C N p d = Some d' \<Longrightarrow> sane d d'"
proof -
  show "sane d d'" if run: "expiredRetransmitHandshake C N p d = Some d'"
  proof (cases "handshakeAttempts (peers d p) > MaxTimerHandshakes")
    case True
    define d1 where "d1 = (if timersActive p d then delTimer TSendKeepalive p d else d)"
    define d2 where "d2 = FlushStagedPackets p d1"
    have s1: "sane d d1" by (simp add: d1_def calm_sane calm_delTimer)
    have s2: "sane d1 d2" unfolding d2_def by (rule FlushStagedPackets_sane)
    have "d' = (if timersActive p d2 \<and> \<not> pending TZeroKeyMaterial p d2 then modTimer TZeroKeyMaterial (RejectAfterTime * 3) p d2 else d2)"
      using run True unfolding expiredRetransmitHandshake_def Let_def d1_def d2_def by simp
    then have "sane d2 d'" using calm_modTimer [THEN calm_sane] by (simp add: timersActive_def)
    then show ?thesis by (rule sane_trans [OF sane_trans [OF s1 s2]])
  next
    case False
    note c = calm_trans [OF calm_trans [OF calm_peer_fields(2) SetEndpoint_calm(2)] SendHandshakeInitiation_calm]
    obtain e where "SendHandshakeInitiation C N p True (markEndpointSrcForClearing p (upPeer p (\<lambda>q. q\<lparr>handshakeAttempts := handshakeAttempts q + 1\<rparr>) d)) = Some (e, d')"
      using run False by (auto simp: expiredRetransmitHandshake_def Let_def)
    then show ?thesis by (rule calm_sane [OF c])
  qed
  show "sane d d'" if run: "expiredSendKeepalive C N p d = Some d'"
  proof -
    obtain d1 where k: "SendKeepalive C N p d = Some d1" using run by (auto simp: expiredSendKeepalive_def elim!: bind_SomeE)
    have "calm d1 d'" using run k calm_trans [OF calm_peer_fields(9) calm_modTimer]
      by (auto simp: expiredSendKeepalive_def Let_def timersActive_def calm_peer_fields split: if_splits)
    then show ?thesis by (rule sane_trans [OF SendKeepalive_sane [OF k] calm_sane])
  qed
  show "sane d d'" if "expiredNewHandshake C N p d = Some d'"
    using that by (auto simp: expiredNewHandshake_def dest!: SendHandshakeInitiation_calm intro!: calm_sane [OF calm_trans [OF SetEndpoint_calm(2)]])
  show "sane d d'" if "expiredZeroKeyMaterial p d = Some d'"
    using that ZeroAndFlushAll_sane by (auto simp: expiredZeroKeyMaterial_def)
  show "sane d d'" if "expiredPersistentKeepalive C N p d = Some d'"
    using that SendKeepalive_sane by (auto simp: expiredPersistentKeepalive_def split: if_splits)
qed

lemma setTimer_sane:
  assumes "isPending t \<Longrightarrow> isPending (getTimer n (peers d p))" and "armedFor (getTimer n (peers d p)) = None \<Longrightarrow> armedFor t = None"
  shows "sane d (upPeer p (setTimer n t) d)"
  by (rule sane_upPeer; cases n) (use assms in \<open>auto simp: sane_frame\<close>)

lemma expirationFunction_sane: "expirationFunction n C N p d = Some d' \<Longrightarrow> sane d d'"
  by (cases n) (simp_all add: expired_sane)

lemma runTimer_sane:
  assumes "runTimer C N n p d = Some d'"
  shows "sane d d'"
proof -
  obtain go t where t: "timerCallback (getTimer n (peers d p)) = (go, t)" by fastforce
  have s: "sane d (upPeer p (setTimer n t) d)"
    by (rule setTimer_sane) (use t in \<open>auto simp: timerCallback_def Let_def split: if_splits\<close>)
  show ?thesis using assms s sane_trans [OF s expirationFunction_sane]
    by (simp add: runTimer_def t Let_def split: if_splits)
qed

end
