(* ===== verification/Lifecycle.thy ===== *)
theory Lifecycle
  imports Steps
begin

text \<open>
  The invariant of the device and the operations that start, stop, add and remove peers: the public API of
  \<^verbatim>\<open>device/device.go\<close> and the configuration protocol of \<^verbatim>\<open>device/uapi.go\<close>. \<open>base\<close> holds at every
  point between two locked sections; \<open>deviceInv\<close> adds what holds once an operation is complete.
\<close>

section \<open>The invariant\<close>

definition running :: "Device \<Rightarrow> peerId set" where
  "running d = {p. isRunning (peers d p)}"

text \<open>
  The table of peers: no key and no peer occurs twice, the device's own key is not in it, and a peer is
  listed under its static key with the shared secret of that key and the device's private key.
\<close>

definition mapInv :: "Crypto \<Rightarrow> Device \<Rightarrow> bool" where
  "mapInv C d \<longleftrightarrow> distinct (map fst (keyMap d)) \<and> distinct (map snd (keyMap d)) \<and> length (keyMap d) \<le> MaxPeers \<and>
     publicKey d \<notin> fst ` set (keyMap d) \<and>
     (\<forall>(pk, p) \<in> set (keyMap d). p < nextPeer d \<and> remoteStatic (handshake (peers d p)) = pk \<and>
        precomputedStaticStatic (handshake (peers d p)) = staticStatic C (privateKey d) pk)"

definition quietInv :: "Device \<Rightarrow> bool" where
  "quietInv d \<longleftrightarrow> (\<forall>p. \<not> isRunning (peers d p) \<longrightarrow> idle (peers d p))"

text \<open>Every route leads to a peer of the table.\<close>

definition routeInv :: "Device \<Rightarrow> bool" where
  "routeInv d \<longleftrightarrow> tableInv (allowedips d) \<and> ran (absTable (allowedips d)) \<subseteq> snd ` set (keyMap d)"

definition base :: "Crypto \<Rightarrow> Device \<Rightarrow> bool" where
  "base C d \<longleftrightarrow> nonceInv d \<and> queueInv d \<and> quietInv d \<and> mapInv C d \<and> routeInv d \<and> running d \<subseteq> snd ` set (keyMap d)"

definition deviceInv :: "Crypto \<Rightarrow> Device \<Rightarrow> bool" where
  "deviceInv C d \<longleftrightarrow> base C d \<and> (running d \<noteq> {} \<longrightarrow> isUp d) \<and> (isClosed d \<longrightarrow> keyMap d = [])"

lemma sane_running: "sane d d' \<Longrightarrow> running d' = running d"
  using skel_running [of d' d] by (simp add: sane_def still_def running_def)

lemma sane_skel:
  assumes "sane d d'"
  shows "keyMap d' = keyMap d" "devState d' = devState d" "isUp d' = isUp d" "isClosed d' = isClosed d"
    "privateKey d' = privateKey d" "publicKey d' = publicKey d" "allowedips d' = allowedips d" "nextPeer d' = nextPeer d"
    "pskel (peers d' p) = pskel (peers d p)"
  using assms by (auto simp: sane_def still_def skel_def isUp_def isClosed_def fun_eq_iff)

lemma sane_mapInv: "sane d d' \<Longrightarrow> mapInv C d' = mapInv C d"
proof -
  assume s: "sane d d'"
  have "remoteStatic (handshake (peers d' p)) = remoteStatic (handshake (peers d p)) \<and>
    precomputedStaticStatic (handshake (peers d' p)) = precomputedStaticStatic (handshake (peers d p))" for p
    using sane_skel(9) [OF s, of p] by (simp add: pskel_def)
  then show ?thesis using sane_skel [OF s] by (simp add: mapInv_def)
qed

lemma sane_base: "sane d d' \<Longrightarrow> base C d \<Longrightarrow> base C d'"
  using sane_mapInv [of d d' C] sane_running [of d d'] sane_skel [of d d'] skel_running [of d' d]
  by (auto simp: base_def routeInv_def quietInv_def sane_def still_def)

lemma sane_deviceInv: "sane d d' \<Longrightarrow> deviceInv C d \<Longrightarrow> deviceInv C d'"
  using sane_base [of d d' C] sane_running [of d d'] sane_skel [of d d'] by (simp add: deviceInv_def)

section \<open>Starting and stopping peers\<close>

lemma peerStart_base:
  assumes "base C d" and "p \<in> snd ` set (keyMap d)"
  defines "d' \<equiv> peerStart p d"
  shows "base C d'" "keyMap d' = keyMap d" "devState d' = devState d" "running d' \<subseteq> insert p (running d)"
proof -
  define d1 where "d1 = timersStart p (upHandshake p (\<lambda>h. h\<lparr>lastSentHandshake := clock d - (RekeyTimeout + second)\<rparr>) d)"
  define d2 where "d2 = upPeer p (\<lambda>q. q\<lparr>inbound := [], outbound := []\<rparr>) d1"
  have s1: "calm d d1" unfolding d1_def by (rule calm_trans [OF lastSent_calm calm_timers(9)])
  have "sane d1 d2" unfolding d2_def by (rule sane_upPeer) (simp_all add: sane_frame)
  then have s: "sane d d2" by (rule sane_trans [OF calm_sane [OF s1]])
  have b: "base C d2" by (rule sane_base [OF s assms(1)])
  have d': "d' = (if isClosed d \<or> isRunning (peers d p) then d else upPeer p (\<lambda>q. q\<lparr>isRunning := True\<rparr>) d2)"
    by (simp add: d'_def peerStart_def Let_def d1_def d2_def upPeer_def)
  have "base C (upPeer p (\<lambda>q. q\<lparr>isRunning := True\<rparr>) d2)"
    using b assms(2) sane_skel(1) [OF s]
    by (auto simp: base_def nonceInv_def queueInv_def quietInv_def mapInv_def routeInv_def running_def upPeer_def slots_def)
  then show "base C d'" using d' assms(1) by simp
  show "keyMap d' = keyMap d" "devState d' = devState d" using d' sane_skel [OF s] by (simp_all add: upPeer_def)
  show "running d' \<subseteq> insert p (running d)" using d' sane_running [OF s] by (auto simp: running_def upPeer_def)
qed

lemma peerStop_base:
  assumes "base C d" and "peerStop C N p d = Some d'"
  shows "base C d'" "keyMap d' = keyMap d" "devState d' = devState d" "running d' = running d - {p}" "allowedips d' = allowedips d"
    "publicKey d' = publicKey d" "nextPeer d' = nextPeer d"
proof -
  define d1 where "d1 = timersStop p (upPeer p (\<lambda>q. q\<lparr>isRunning := False\<rparr>) d)"
  define d2 where "d2 = upPeer p (\<lambda>q. q\<lparr>inbound := [], outbound := []\<rparr>) d1"
  have x: "d' = d \<and> \<not> isRunning (peers d p) \<or> sane d2 d'"
  proof (cases "isRunning (peers d p)")
    case True
    obtain d3 where d3: "drainInbound C N p (inbound (peers d1 p)) d2 = Some d3" "d' = ZeroAndFlushAll p d3"
      using assms(2) True by (auto simp: peerStop_def Let_def d1_def d2_def elim!: bind_SomeE)
    show ?thesis using sane_trans [OF drainInbound_sane [OF d3(1)] ZeroAndFlushAll_sane] d3(2) by simp
  qed (use assms(2) in \<open>simp add: peerStop_def\<close>)
  have i: "idle (peers d1 p)"
    by (simp add: d1_def timersStop_def upPeer_def idle_timers timerDelSync_def timerDel_def)
  have b1: "base C d1"
    using assms(1) i
    by (auto simp: base_def nonceInv_def queueInv_def quietInv_def mapInv_def routeInv_def running_def d1_def timersStop_def upPeer_def slots_def)
  have r: "running d1 = running d - {p}" by (auto simp: running_def d1_def timersStop_def upPeer_def)
  have k: "keyMap d1 = keyMap d" "devState d1 = devState d" "allowedips d1 = allowedips d" "publicKey d1 = publicKey d" "nextPeer d1 = nextPeer d"
    by (simp_all add: d1_def timersStop_def upPeer_def)
  have s2: "sane d1 d2" unfolding d2_def by (rule sane_upPeer) (simp_all add: sane_frame)
  have s: "d' = d \<and> p \<notin> running d \<or> sane d1 d'" using x sane_trans [OF s2] by (auto simp: running_def)
  show "base C d'" using s b1 assms(1) sane_base by blast
  show "keyMap d' = keyMap d" "devState d' = devState d" "allowedips d' = allowedips d" "publicKey d' = publicKey d" "nextPeer d' = nextPeer d"
    using s k sane_skel [of d1 d'] by auto
  show "running d' = running d - {p}" using s r sane_running [of d1 d'] by auto
qed

section \<open>Loops over the table of peers\<close>

lemma forPeers_induct:
  assumes "forPeers m f d = Some d'" and "I m d"
    and "\<And>pk p m d d'. I ((pk, p) # m) d \<Longrightarrow> f pk p d = Some d' \<Longrightarrow> I m d'"
  shows "I [] d'"
  using assms(1,2)
proof (induction m arbitrary: d)
  case (Cons x m)
  obtain pk p where x: "x = (pk, p)" by fastforce
  obtain d1 where "f pk p d = Some d1" "forPeers m f d1 = Some d'" using Cons.prems x by (auto elim!: bind_SomeE)
  then show ?case using Cons x assms(3) by blast
qed simp

lemma forPeers_sane:
  assumes "forPeers m f d = Some d'" and "\<And>pk p d d'. f pk p d = Some d' \<Longrightarrow> sane d d'"
  shows "sane d d'"
  by (rule forPeers_induct [OF assms(1), where I = "\<lambda>_. sane d"]) (auto intro: sane_trans assms(2))

section \<open>Adding and removing peers\<close>

lemma base_allowedips:
  assumes "base C d" and "tableInv tab" and "ran (absTable tab) \<subseteq> snd ` set (keyMap d)"
  shows "base C (d\<lparr>allowedips := tab\<rparr>)"
  using assms by (simp add: base_def nonceInv_def queueInv_def quietInv_def mapInv_def routeInv_def running_def)

lemma keyMap_delete:
  assumes "mapInv C d" and "(pk, p) \<in> set (keyMap d)"
  shows "snd ` set (AList.delete pk (keyMap d)) = snd ` set (keyMap d) - {p}"
proof -
  have k: "q = p" if "(pk, q) \<in> set (keyMap d)" for q
    using assms that by (auto simp: mapInv_def dest: eq_key_imp_eq_value)
  have v: "pk' = pk" if "(pk', p) \<in> set (keyMap d)" for pk'
  proof -
    have st: "remoteStatic (handshake (peers d r)) = k" if "(k, r) \<in> set (keyMap d)" for k r
      using assms(1) that by (auto simp: mapInv_def)
    show ?thesis using st [OF that] st [OF assms(2)] by simp
  qed
  have sn: "q \<in> snd ` set xs \<longleftrightarrow> (\<exists>k. (k, q) \<in> set xs)" for q and xs :: "(bytes \<times> peerId) list"
    by (auto intro: rev_image_eqI)
  have "q \<in> snd ` set (AList.delete pk (keyMap d)) \<longleftrightarrow> q \<in> snd ` set (keyMap d) \<and> q \<noteq> p" for q
  proof -
    have "q \<in> snd ` set (AList.delete pk (keyMap d)) \<longleftrightarrow> (\<exists>pk'. (pk', q) \<in> set (keyMap d) \<and> pk' \<noteq> pk)"
      unfolding sn by (auto simp: AList.delete_eq)
    also have "\<dots> \<longleftrightarrow> (\<exists>pk'. (pk', q) \<in> set (keyMap d)) \<and> q \<noteq> p" using k v by metis
    finally show ?thesis by (simp add: sn)
  qed
  then show ?thesis by (simp add: set_eq_iff)
qed

lemma removePeerLocked_base:
  assumes "base C d" and "(pk, p) \<in> set (keyMap d)" and "removePeerLocked C N p pk d = Some d'"
  shows "base C d'" "keyMap d' = AList.delete pk (keyMap d)" "devState d' = devState d" "running d' = running d - {p}"
    "publicKey d' = publicKey d"
proof -
  have t: "tableInv (allowedips d)" and r: "ran (absTable (allowedips d)) \<subseteq> snd ` set (keyMap d)" and m: "mapInv C d"
    using assms(1) by (simp_all add: base_def routeInv_def)
  obtain tab where tab: "RemoveByPeer (allowedips d) p = Some tab" "tableInv tab"
      "absTable tab = (\<lambda>k. if absTable (allowedips d) k = Some p then None else absTable (allowedips d) k)"
    using RemoveByPeer_refines [OF t] by blast
  have ran: "ran (absTable tab) \<subseteq> snd ` set (keyMap d) - {p}" using r unfolding tab(3) by (auto simp: ran_def split: if_splits)
  obtain d1 where d1: "peerStop C N p (d\<lparr>allowedips := tab\<rparr>) = Some d1" and d': "d' = d1\<lparr>keyMap := AList.delete pk (keyMap d1)\<rparr>"
    using assms(3) tab(1) by (auto simp: removePeerLocked_def elim!: bind_SomeE)
  have b: "base C (d\<lparr>allowedips := tab\<rparr>)" using base_allowedips [OF assms(1) tab(2)] ran by blast
  note s = peerStop_base [OF b d1]
  have i: "(pk, p) \<in> set (keyMap d1)" using s(2) assms(2) by simp
  have m1: "mapInv C d1" using s(1) by (simp add: base_def)
  have del: "snd ` set (AList.delete pk (keyMap d1)) = snd ` set (keyMap d) - {p}" using keyMap_delete [OF m1 i] s(2) by simp
  have sub: "set (AList.delete pk (keyMap d1)) \<subseteq> set (keyMap d1)" by (auto simp: AList.delete_eq)
  have "distinct (map fst (AList.delete pk (keyMap d1)))" "distinct (map snd (AList.delete pk (keyMap d1)))"
    using m1 by (simp_all add: mapInv_def AList.delete_eq distinct_map_filter)
  moreover have "length (AList.delete pk (keyMap d1)) \<le> length (keyMap d1)" by (simp add: AList.delete_eq)
  ultimately have "mapInv C d'" using m1 sub unfolding mapInv_def d' by (auto 0 3)
  moreover have "running d1 \<subseteq> snd ` set (keyMap d) - {p}" using s(4) assms(1) by (auto simp: base_def running_def)
  ultimately show "base C d'" using s(1,5) del ran tab(2)
    by (auto simp: base_def d' nonceInv_def queueInv_def quietInv_def routeInv_def running_def)
  show "keyMap d' = AList.delete pk (keyMap d)" "devState d' = devState d" "running d' = running d - {p}" "publicKey d' = publicKey d"
    using s by (simp_all add: d' running_def)
qed

lemma RemovePeer_base:
  assumes "base C d" and "RemovePeer C N pk d = Some d'"
  shows "base C d'" "set (keyMap d') \<subseteq> set (keyMap d)" "devState d' = devState d" "running d' \<subseteq> running d"
proof -
  have "base C d' \<and> set (keyMap d') \<subseteq> set (keyMap d) \<and> devState d' = devState d \<and> running d' \<subseteq> running d"
  proof (cases "map_of (keyMap d) pk")
    case (Some p)
    then have "removePeerLocked C N p pk d = Some d'" using assms(2) by (simp add: RemovePeer_def)
    from removePeerLocked_base [OF assms(1) map_of_SomeD [OF Some] this] show ?thesis by (auto simp: AList.delete_eq)
  qed (use assms in \<open>simp add: RemovePeer_def\<close>)
  then show "base C d'" "set (keyMap d') \<subseteq> set (keyMap d)" "devState d' = devState d" "running d' \<subseteq> running d" by simp_all
qed

lemma RemoveAllPeers_base:
  assumes "base C d" and "RemoveAllPeers C N d = Some d'"
  shows "base C d'" "keyMap d' = []" "devState d' = devState d" "running d' = {}"
proof -
  obtain d1 where d1: "forPeers (keyMap d) (\<lambda>pk p. removePeerLocked C N p pk) d = Some d1" and d': "d' = d1\<lparr>keyMap := []\<rparr>"
    using assms(2) by (auto simp: RemoveAllPeers_def elim!: bind_SomeE)
  have i: "base C d1 \<and> keyMap d1 = [] \<and> devState d1 = devState d"
  proof (rule forPeers_induct [OF d1, where I = "\<lambda>m e. base C e \<and> keyMap e = m \<and> devState e = devState d"])
    fix pk p m e e'
    assume i: "base C e \<and> keyMap e = (pk, p) # m \<and> devState e = devState d" and f: "removePeerLocked C N p pk e = Some e'"
    have "distinct (map fst (keyMap e))" "keyMap e = (pk, p) # m" using i unfolding base_def mapInv_def by blast+
    then have "pk \<notin> fst ` set m" by simp
    then have "AList.delete pk (keyMap e) = m" using i by simp
    then show "base C e' \<and> keyMap e' = m \<and> devState e' = devState d"
      using removePeerLocked_base [OF _ _ f] i by simp
  qed (use assms(1) in simp)
  then have "d' = d1" unfolding d' by (cases d1) simp
  then show "base C d'" "keyMap d' = []" "devState d' = devState d" "running d' = {}" using i by (auto simp: base_def)
qed

lemma update_fresh: "k \<notin> fst ` set m \<Longrightarrow> AList.update k v m = m @ [(k, v)]"
  by (induction m) auto

lemma base_freshPeer:
  assumes "base C d" and "\<not> isRunning q" "idle q" "slots q = {}" "staged q = []"
  shows "base C (d\<lparr>peers := (peers d)(nextPeer d := q), nextPeer := nextPeer d + 1\<rparr>)"
proof -
  let ?d' = "d\<lparr>peers := (peers d)(nextPeer d := q), nextPeer := nextPeer d + 1\<rparr>"
  have "\<forall>x \<in> set (keyMap d). snd x < nextPeer d" using assms(1) by (auto simp: base_def mapInv_def)
  then have "mapInv C ?d'" using assms(1) by (auto simp: base_def mapInv_def case_prod_unfold)
  moreover have "nonceInv ?d'" "queueInv ?d'" "quietInv ?d'" "routeInv ?d'"
    using assms by (simp_all add: base_def nonceInv_def queueInv_def quietInv_def routeInv_def)
  moreover have "running ?d' \<subseteq> running d" using assms(2) by (auto simp: running_def)
  ultimately show ?thesis using assms(1) by (auto simp: base_def)
qed

lemma NewPeer_base:
  assumes "base C d" and "pk \<noteq> publicKey d" and "NewPeer C pk d = (r, d')"
  shows "base C d'" "devState d' = devState d" "running d' \<subseteq> running d" "isClosed d \<Longrightarrow> d' = d"
    "r = Inr p \<Longrightarrow> (pk, p) \<in> set (keyMap d')"
proof -
  define q where "q = zeroPeer\<lparr>cookieGenerator := generatorInit C pk zeroCookieGenerator,
    handshake := zeroHandshake\<lparr>precomputedStaticStatic := staticStatic C (privateKey d) pk, remoteStatic := pk\<rparr>\<rparr>"
  define d1 where "d1 = d\<lparr>peers := (peers d)(nextPeer d := q), nextPeer := nextPeer d + 1, keyMap := AList.update pk (nextPeer d) (keyMap d)\<rparr>"
  define fail where "fail \<longleftrightarrow> isClosed d \<or> length (keyMap d) \<ge> MaxPeers \<or> map_of (keyMap d) pk \<noteq> None"
  have x: "d' = (if fail then d else d1)" "r = Inr p \<Longrightarrow> \<not> fail \<and> p = nextPeer d"
    using assms(3) by (auto simp: NewPeer_def fail_def d1_def q_def Let_def split: if_splits)
  have q: "\<not> isRunning q" "idle q" "slots q = {}" "staged q = []" "remoteStatic (handshake q) = pk"
    "precomputedStaticStatic (handshake q) = staticStatic C (privateKey d) pk"
    by (simp_all add: q_def zeroPeer_def idle_timers stoppedTimer_def slots_def)
  have b: "base C d1" if nf: "\<not> fail"
  proof -
    have fresh: "pk \<notin> fst ` set (keyMap d)" using nf by (auto simp: fail_def map_of_eq_None_iff)
    have b1: "base C (d\<lparr>peers := (peers d)(nextPeer d := q), nextPeer := nextPeer d + 1\<rparr>)"
      by (rule base_freshPeer [OF assms(1) q(1-4)])
    have "mapInv C d1"
      using b1 assms(2) q(5,6) nf fresh by (auto simp: base_def mapInv_def d1_def update_fresh [OF fresh] fail_def split: if_splits)
    then show ?thesis using b1
      by (auto simp: base_def nonceInv_def queueInv_def quietInv_def routeInv_def running_def d1_def update_fresh [OF fresh])
  qed
  show "base C d'" using x b assms(1) by auto
  show "devState d' = devState d" "running d' \<subseteq> running d" using x q(1) by (auto simp: d1_def running_def)
  show "isClosed d \<Longrightarrow> d' = d" using x by (simp add: fail_def)
  show "r = Inr p \<Longrightarrow> (pk, p) \<in> set (keyMap d')" using x by (simp add: d1_def update_conv' map_of_SomeD)
qed

section \<open>The private key\<close>

text \<open>The state while the shared secrets are recomputed: the peers in \<open>X\<close> still have the old one.\<close>

definition rekeying :: "Crypto \<Rightarrow> peerId set \<Rightarrow> Device \<Rightarrow> bool" where
  "rekeying C X d \<longleftrightarrow> nonceInv d \<and> queueInv d \<and> quietInv d \<and> routeInv d \<and> running d \<subseteq> snd ` set (keyMap d) \<and>
     distinct (map fst (keyMap d)) \<and> distinct (map snd (keyMap d)) \<and> length (keyMap d) \<le> MaxPeers \<and> publicKey d \<notin> fst ` set (keyMap d) \<and>
     (\<forall>x \<in> set (keyMap d). snd x < nextPeer d \<and> remoteStatic (handshake (peers d (snd x))) = fst x \<and>
        (snd x \<in> X \<or> precomputedStaticStatic (handshake (peers d (snd x))) = staticStatic C (privateKey d) (fst x)))"

lemma rekeying_base: "rekeying C {} d \<longleftrightarrow> base C d"
  by (auto simp: rekeying_def base_def mapInv_def case_prod_unfold)

lemma rekey_start:
  assumes "base C d" and "pub \<notin> fst ` set (keyMap d)"
  shows "rekeying C (snd ` set (keyMap d)) (d\<lparr>privateKey := sk, publicKey := pub, cookieChecker := ck\<rparr>)"
  using assms by (auto simp: rekeying_def base_def mapInv_def nonceInv_def queueInv_def quietInv_def routeInv_def running_def)

lemma upHandshake_frame [simp]:
  "running (upHandshake p f d) = running d" "devState (upHandshake p f d) = devState d" "keyMap (upHandshake p f d) = keyMap d"
  by (auto simp: running_def upHandshake_def upPeer_def)

lemma rekey_peer:
  assumes "rekeying C (insert p X) d"
  shows "rekeying C X (upHandshake p (\<lambda>h. h\<lparr>precomputedStaticStatic := staticStatic C (privateKey d) (remoteStatic h)\<rparr>) d)"
proof -
  let ?d' = "upHandshake p (\<lambda>h. h\<lparr>precomputedStaticStatic := staticStatic C (privateKey d) (remoteStatic h)\<rparr>) d"
  have "running ?d' = running d" by simp
  moreover have "nonceInv ?d' = nonceInv d" "queueInv ?d' = queueInv d" "quietInv ?d' = quietInv d" "routeInv ?d' = routeInv d"
    by (auto simp: nonceInv_def queueInv_def quietInv_def routeInv_def upHandshake_def upPeer_def slots_def idle_timers)
  ultimately show ?thesis using assms by (auto simp: rekeying_def upHandshake_def upPeer_def)
qed

lemma rekey_all:
  assumes "forPeers m (\<lambda>pk p d. Some (upHandshake p (\<lambda>h. h\<lparr>precomputedStaticStatic := staticStatic C (privateKey d) (remoteStatic h)\<rparr>) d)) d = Some d'"
    and "rekeying C (snd ` set m) d"
  shows "rekeying C {} d' \<and> devState d' = devState d \<and> keyMap d' = keyMap d \<and> running d' = running d"
proof -
  have "rekeying C (snd ` set ([] :: (bytes \<times> peerId) list)) d' \<and> devState d' = devState d \<and> keyMap d' = keyMap d \<and> running d' = running d"
    by (rule forPeers_induct [OF assms(1), where I = "\<lambda>m e. rekeying C (snd ` set m) e \<and> devState e = devState d \<and> keyMap e = keyMap d \<and> running e = running d"])
      (use assms(2) rekey_peer in auto)
  then show ?thesis by simp
qed

text \<open>The loop that removes the peer that has the new public key.\<close>

definition dropping :: "Crypto \<Rightarrow> Device \<Rightarrow> bytes \<Rightarrow> (bytes \<times> peerId) list \<Rightarrow> Device \<Rightarrow> bool" where
  "dropping C d0 pub m d \<longleftrightarrow> base C d \<and> distinct (map fst m) \<and> set m \<subseteq> set (keyMap d) \<and>
     (\<forall>p. (pub, p) \<in> set (keyMap d) \<longrightarrow> (pub, p) \<in> set m) \<and>
     devState d = devState d0 \<and> set (keyMap d) \<subseteq> set (keyMap d0) \<and> running d \<subseteq> running d0"

lemma dropping_step:
  assumes "dropping C d0 pub ((pk, p) # m) d"
    and "(if keyEquals (remoteStatic (handshake (peers d p))) pub then removePeerLocked C N p pk d else Some d) = Some d'"
  shows "dropping C d0 pub m d'"
proof -
  have b: "base C d" and i: "(pk, p) \<in> set (keyMap d)" using assms(1) by (auto simp: dropping_def)
  then have r: "remoteStatic (handshake (peers d p)) = pk" by (auto simp: base_def mapInv_def)
  show ?thesis
  proof (cases "pk = pub")
    case True
    then have "removePeerLocked C N p pk d = Some d'" using assms(2) r by (simp add: keyEquals_def)
    note s = removePeerLocked_base [OF b i this]
    have "x \<in> set (keyMap d')" if x: "x \<in> set m" for x
    proof -
      have "fst x \<noteq> pk" "x \<in> set (keyMap d)" using assms(1) x by (auto simp: dropping_def)
      then show ?thesis by (auto simp: s(2) AList.delete_eq)
    qed
    then show ?thesis using s assms(1) True by (auto simp: dropping_def AList.delete_eq)
  next
    case False
    then show ?thesis using assms r by (auto simp: dropping_def keyEquals_def)
  qed
qed

lemma SetPrivateKey_base:
  assumes "base C d" and "SetPrivateKey C N sk d = Some d'"
  shows "base C d' \<and> devState d' = devState d \<and> set (keyMap d') \<subseteq> set (keyMap d) \<and> running d' \<subseteq> running d"
proof (cases "keyEquals sk (privateKey d)")
  case False
  let ?pub = "publicKeyOf C sk"
  define drop1 where "drop1 = (\<lambda>pk p d. if keyEquals (remoteStatic (handshake (peers d p))) ?pub then removePeerLocked C N p pk d else Some d)"
  define rekey where "rekey = (\<lambda>(pk :: bytes) p d. Some (upHandshake p (\<lambda>h. h\<lparr>precomputedStaticStatic := staticStatic C (privateKey d) (remoteStatic h)\<rparr>) d))"
  note run = assms(2) [unfolded SetPrivateKey_def Let_def, folded drop1_def rekey_def]
  obtain d1 where d1: "forPeers (keyMap d) drop1 d = Some d1" using run False by (auto simp: bind_eq_Some_conv)
  define d2 where "d2 = d1\<lparr>privateKey := sk, publicKey := ?pub, cookieChecker := checkerInit C ?pub (cookieChecker d1)\<rparr>"
  obtain d3 where d3: "forPeers (keyMap d2) rekey d2 = Some d3" and d': "forPeers (keyMap d3) (\<lambda>pk p d. Some (ExpireCurrentKeypairs p d)) d3 = Some d'"
    using run False d1 by (auto simp: bind_eq_Some_conv d2_def)
  have "dropping C d ?pub (keyMap d) d" using assms(1) by (simp add: dropping_def base_def mapInv_def)
  then have dr: "dropping C d ?pub [] d1"
    by (rule forPeers_induct [OF d1, where I = "dropping C d ?pub"]) (unfold drop1_def, rule dropping_step)
  have "?pub \<notin> fst ` set (keyMap d1)" using dr by (auto simp: dropping_def)
  then have "rekeying C (snd ` set (keyMap d2)) d2" using rekey_start [of C d1 ?pub] dr by (simp add: d2_def dropping_def)
  note r = rekey_all [OF d3 [unfolded rekey_def] this]
  have s: "sane d3 d'" by (rule forPeers_sane [OF d']) (auto intro: ExpireCurrentKeypairs_sane)
  have "base C d'" using sane_base [OF s] r rekeying_base by blast
  moreover have "devState d' = devState d" using sane_skel(2) [OF s] r dr by (simp add: d2_def dropping_def)
  moreover have "set (keyMap d') \<subseteq> set (keyMap d)" using sane_skel(1) [OF s] r dr by (simp add: d2_def dropping_def)
  moreover have "running d' \<subseteq> running d" using sane_running [OF s] r dr by (simp add: d2_def dropping_def running_def)
  ultimately show ?thesis by simp
qed (use assms in \<open>simp add: SetPrivateKey_def\<close>)

section \<open>The bind and the state of the device\<close>

lemma sane_settings:
  "sane d (d\<lparr>netPort := a\<rparr>)" "sane d (d\<lparr>fwmark := b\<rparr>)" "sane d (netCall d)" "sane d (d\<lparr>brokenRoaming := c\<rparr>)" "sane d (d\<lparr>mtu := m\<rparr>)"
  "sane d (d\<lparr>limiter := l\<rparr>)"
  by (simp_all add: sane_def still_def skel_def nonceInv_def queueInv_def stampLe_def netCall_def)

lemma markAllForClearing_sane: "markAllForClearing d = Some d' \<Longrightarrow> sane d d'"
  unfolding markAllForClearing_def by (erule forPeers_sane) (auto intro: calm_sane SetEndpoint_calm)

lemma BindSetMark_sane:
  assumes "BindSetMark N m d = Some (e, d')"
  shows "sane d d'"
proof -
  let ?d = "d\<lparr>fwmark := m\<rparr>"
  have n: "sane d (netCall ?d)" "sane d ?d" using sane_trans [OF sane_settings(2) sane_settings(3)] sane_settings(2) by auto
  show ?thesis using assms n sane_trans [OF n(1) markAllForClearing_sane] sane_trans [OF n(2) markAllForClearing_sane]
    by (auto simp: BindSetMark_def Let_def split: if_splits)
qed

lemma BindUpdate_sane:
  assumes "BindUpdate N d = Some (e, d')"
  shows "sane d d'"
proof -
  define d1 where "d1 = netCall d"
  have s1: "sane d d1" by (simp add: d1_def sane_settings)
  have open_: "sane d1 ((netCall d1)\<lparr>netPort := port\<rparr>)" for port by (rule sane_trans [OF sane_settings(3) sane_settings(1)])
  let ?d3 = "\<lambda>port. netCall ((netCall d1)\<lparr>netPort := port\<rparr>)"
  have s3: "sane d1 (?d3 port)" for port by (rule sane_trans [OF open_ sane_settings(3)])
  have s4: "sane d1 (netCall (?d3 port))" for port by (rule sane_trans [OF s3 sane_settings(3)])
  have s5: "sane d1 ((netCall (?d3 port))\<lparr>netPort := 0\<rparr>)" for port by (rule sane_trans [OF s4 sane_settings(1)])
  have s6: "markAllForClearing (?d3 port) = Some x \<Longrightarrow> sane d1 x" "markAllForClearing (netCall (?d3 port)) = Some x \<Longrightarrow> sane d1 x" for port x
    by (rule sane_trans [OF s3 markAllForClearing_sane] sane_trans [OF s4 markAllForClearing_sane]; assumption)+
  have "sane d1 d'" using assms open_ s4 s5 s6
    by (auto simp: BindUpdate_def closeBindLocked_def d1_def [symmetric] Let_def split: if_splits option.splits)
  then show ?thesis by (rule sane_trans [OF s1])
qed

lemma startPeers:
  assumes "base C d"
    and "forPeers m (\<lambda>pk p d. let d = peerStart p d in if persistentKeepaliveInterval (peers d p) > 0 then SendKeepalive C N p d else Some d) d = Some d'"
    and "set m \<subseteq> set (keyMap d)"
  shows "base C d' \<and> keyMap d' = keyMap d \<and> devState d' = devState d"
proof (rule forPeers_induct [OF assms(2), where I = "\<lambda>m e. (base C e \<and> keyMap e = keyMap d \<and> devState e = devState d) \<and> set m \<subseteq> set (keyMap d)", THEN conjunct1])
  fix pk p m e e'
  assume i: "(base C e \<and> keyMap e = keyMap d \<and> devState e = devState d) \<and> set ((pk, p) # m) \<subseteq> set (keyMap d)"
    and f: "(let d = peerStart p e in if persistentKeepaliveInterval (peers d p) > 0 then SendKeepalive C N p d else Some d) = Some e'"
  have "p \<in> snd ` set (keyMap e)" using i by force
  note s = peerStart_base [OF _ this, of C] 
  have "sane (peerStart p e) e'" using f SendKeepalive_sane by (auto simp: Let_def split: if_splits)
  then show "(base C e' \<and> keyMap e' = keyMap d \<and> devState e' = devState d) \<and> set m \<subseteq> set (keyMap d)"
    using s i sane_base [of "peerStart p e" e' C] sane_skel [of "peerStart p e" e'] by auto
qed (use assms in simp)

lemma downLocked_base:
  assumes "base C d" and "downLocked C N d = Some (e, d')"
  shows "base C d'" "keyMap d' = keyMap d" "devState d' = devState d" "running d' = {}"
proof -
  obtain e1 d1 where b: "BindClose N d = (e1, d1)" by fastforce
  have s: "sane d d1" using b by (auto simp: BindClose_def closeBindLocked_def sane_settings)
  have f: "forPeers (keyMap d1) (\<lambda>pk p. peerStop C N p) d1 = Some d'" using assms(2) b by (auto simp: downLocked_def)
  have "base C d' \<and> keyMap d' = keyMap d1 \<and> devState d' = devState d1 \<and> running d' \<subseteq> snd ` set ([] :: (bytes \<times> peerId) list)"
  proof (rule forPeers_induct [OF f, where I = "\<lambda>m e. base C e \<and> keyMap e = keyMap d1 \<and> devState e = devState d1 \<and> running e \<subseteq> snd ` set m"])
    show "base C d1 \<and> keyMap d1 = keyMap d1 \<and> devState d1 = devState d1 \<and> running d1 \<subseteq> snd ` set (keyMap d1)"
      using sane_base [OF s assms(1)] by (simp add: base_def)
    fix pk p m e e'
    assume "base C e \<and> keyMap e = keyMap d1 \<and> devState e = devState d1 \<and> running e \<subseteq> snd ` set ((pk, p) # m)"
      and "peerStop C N p e = Some e'"
    then show "base C e' \<and> keyMap e' = keyMap d1 \<and> devState e' = devState d1 \<and> running e' \<subseteq> snd ` set m"
      using peerStop_base [of C e N p e'] by auto
  qed
  then show "base C d'" "keyMap d' = keyMap d" "devState d' = devState d" "running d' = {}" using sane_skel [OF s] by auto
qed

lemma base_devState: "base C (d\<lparr>devState := s\<rparr>) = base C d"
  by (simp add: base_def nonceInv_def queueInv_def quietInv_def mapInv_def routeInv_def running_def)

lemma upLocked_base:
  assumes "base C d" and "upLocked C N d = Some (e, d')"
  shows "base C d'" "keyMap d' = keyMap d" "devState d' = devState d"
proof -
  obtain e1 d1 where b: "BindUpdate N d = Some (e1, d1)" using assms(2) by (auto simp: upLocked_def elim!: bind_SomeE)
  note s = BindUpdate_sane [OF b]
  have "base C d' \<and> keyMap d' = keyMap d1 \<and> devState d' = devState d1"
    using assms(2) b startPeers [OF sane_base [OF s assms(1)]] sane_base [OF s assms(1)]
    by (auto simp: upLocked_def split: option.splits)
  then show "base C d'" "keyMap d' = keyMap d" "devState d' = devState d" using sane_skel [OF s] by auto
qed

lemma changeState_deviceInv:
  assumes "deviceInv C d" and "changeState C N want d = Some (e, d')"
  shows "deviceInv C d'"
proof (cases "isClosed d \<or> want = devState d \<or> want = deviceStateClosed")
  case True
  then show ?thesis using assms by (auto simp: changeState_def split: if_splits)
next
  case False
  have b: "base C (d\<lparr>devState := s\<rparr>)" for s using assms(1) by (simp add: deviceInv_def base_devState)
  have down: "deviceInv C x" if "base C y" "downLocked C N (y\<lparr>devState := deviceStateDown\<rparr>) = Some (e1, x)" for y x e1
    using downLocked_base [OF _ that(2), of] that(1) by (simp add: base_devState deviceInv_def isClosed_def)
  show ?thesis
  proof (cases want)
    case deviceStateUp
    obtain e1 d1 where u: "upLocked C N (d\<lparr>devState := deviceStateUp\<rparr>) = Some (e1, d1)"
      using assms(2) False deviceStateUp by (auto simp: changeState_def elim!: bind_SomeE)
    note s = upLocked_base [OF b u]
    have "deviceInv C d1" using s by (simp add: deviceInv_def isUp_def isClosed_def)
    then show ?thesis using assms(2) False deviceStateUp u down [OF s(1)] by (auto simp: changeState_def split: option.splits)
  next
    case deviceStateDown
    then show ?thesis using assms(2) False down [of d e d'] assms(1) by (auto simp: changeState_def deviceInv_def)
  qed (use False in simp)
qed

lemma deviceClose_deviceInv:
  assumes "deviceInv C d" and "deviceClose C N d = Some d'"
  shows "deviceInv C d' \<and> isClosed d'"
proof (cases "isClosed d")
  case False
  obtain e d1 d2 where d: "downLocked C N (d\<lparr>devState := deviceStateClosed\<rparr>) = Some (e, d1)" "RemoveAllPeers C N d1 = Some d2"
      "d' = d2\<lparr>limiter := (limiter d2)\<lparr>ticking := False\<rparr>\<rparr>"
    using assms(2) False by (auto simp: deviceClose_def elim!: bind_SomeE)
  have b: "base C (d\<lparr>devState := deviceStateClosed\<rparr>)" using assms(1) by (simp add: deviceInv_def base_devState)
  note s1 = downLocked_base [OF b d(1)]
  note s2 = RemoveAllPeers_base [OF s1(1) d(2)]
  have "deviceInv C d2 \<and> isClosed d2" using s1 s2 by (simp add: deviceInv_def isClosed_def)
  then show ?thesis using sane_deviceInv [OF sane_settings(6)] by (simp add: d(3) isClosed_def)
qed (use assms in \<open>simp add: deviceClose_def\<close>)

section \<open>The configuration protocol\<close>

lemma deviceInv_settings [simp]:
  "deviceInv C (d\<lparr>junkCount := i\<rparr>) = deviceInv C d" "deviceInv C (d\<lparr>junkMin := i\<rparr>) = deviceInv C d" "deviceInv C (d\<lparr>junkMax := i\<rparr>) = deviceInv C d"
  "deviceInv C (d\<lparr>padInit := n\<rparr>) = deviceInv C d" "deviceInv C (d\<lparr>padResponse := n\<rparr>) = deviceInv C d" "deviceInv C (d\<lparr>padCookie := n\<rparr>) = deviceInv C d"
  "deviceInv C (d\<lparr>padTransport := n\<rparr>) = deviceInv C d" "deviceInv C (d\<lparr>hdrInit := h\<rparr>) = deviceInv C d" "deviceInv C (d\<lparr>hdrResponse := h\<rparr>) = deviceInv C d"
  "deviceInv C (d\<lparr>hdrCookie := h\<rparr>) = deviceInv C d" "deviceInv C (d\<lparr>hdrTransport := h\<rparr>) = deviceInv C d" "deviceInv C (d\<lparr>ipackets := c\<rparr>) = deviceInv C d"
  "deviceInv C (d\<lparr>imitateMode := m\<rparr>) = deviceInv C d"
  by (simp_all add: deviceInv_def base_def nonceInv_def queueInv_def quietInv_def mapInv_def routeInv_def running_def isUp_def isClosed_def)

lemma deviceInv_upPeer:
  assumes "deviceInv C d" and "isRunning (f (peers d p)) = isRunning (peers d p)" "idle (f (peers d p)) = idle (peers d p)"
    "slots (f (peers d p)) = slots (peers d p)" "staged (f (peers d p)) = staged (peers d p)"
    "remoteStatic (handshake (f (peers d p))) = remoteStatic (handshake (peers d p))"
    "precomputedStaticStatic (handshake (f (peers d p))) = precomputedStaticStatic (handshake (peers d p))"
  shows "deviceInv C (upPeer p f d)" "keyMap (upPeer p f d) = keyMap d"
proof -
  have "running (upPeer p f d) = running d" using assms(2) by (auto simp: running_def upPeer_def)
  moreover have "nonceInv (upPeer p f d) = nonceInv d" "queueInv (upPeer p f d) = queueInv d" "quietInv (upPeer p f d) = quietInv d"
    "routeInv (upPeer p f d) = routeInv d"
    using assms by (auto simp: nonceInv_def queueInv_def quietInv_def routeInv_def upPeer_def)
  moreover have "mapInv C (upPeer p f d) = mapInv C d"
  proof -
    have "remoteStatic (handshake (peers (upPeer p f d) r)) = remoteStatic (handshake (peers d r))"
      "precomputedStaticStatic (handshake (peers (upPeer p f d) r)) = precomputedStaticStatic (handshake (peers d r))" for r
      using assms(6,7) by (simp_all add: upPeer_def)
    moreover have "keyMap (upPeer p f d) = keyMap d" "publicKey (upPeer p f d) = publicKey d" "privateKey (upPeer p f d) = privateKey d"
      "nextPeer (upPeer p f d) = nextPeer d" by (simp_all add: upPeer_def)
    ultimately show ?thesis by (simp add: mapInv_def)
  qed
  ultimately show "deviceInv C (upPeer p f d)"
    using assms(1) by (simp add: deviceInv_def base_def) (simp add: upPeer_def isUp_def isClosed_def)
  show "keyMap (upPeer p f d) = keyMap d" by (simp add: upPeer_def)
qed

lemma handleDeviceLine_inv:
  assumes "deviceInv C d" and "handleDeviceLine C N name value d = Some (e, d')"
  shows "deviceInv C d'"
proof -
  have plain: "deviceInv C (snd (plainSetting name value d))"
    using assms(1) by (simp add: plainSetting_def positiveSetting_def paddingSetting_def headerSetting_def ipacketSetting_def imitateSetting_def
      split: sum.splits option.splits)
  have sk: "deviceInv C x" if "SetPrivateKey C N k d = Some x" for k x
    using SetPrivateKey_base [OF _ that, of] assms(1) by (auto simp: deviceInv_def isUp_def isClosed_def)
  have rm: "deviceInv C x" if "RemoveAllPeers C N d = Some x" for x
    using RemoveAllPeers_base [OF _ that] assms(1) by (auto simp: deviceInv_def isUp_def)
  have bu: "deviceInv C x" if "BindUpdate N (d\<lparr>netPort := pt\<rparr>) = Some (e1, x)" for pt e1 x
    by (rule sane_deviceInv [OF sane_trans [OF sane_settings(1) BindUpdate_sane [OF that]] assms(1)])
  have bm: "deviceInv C x" if "BindSetMark N fwm d = Some (e1, x)" for fwm e1 x
    by (rule sane_deviceInv [OF BindSetMark_sane [OF that] assms(1)])
  show ?thesis using assms plain sk rm bu bm
    by (auto simp: handleDeviceLine_def split: if_splits sum.splits)
qed

text \<open>The peer that is being configured, unless it is a placeholder, is in the table.\<close>

definition selected :: "ipcSetPeer \<Rightarrow> Device \<Rightarrow> bool" where
  "selected s d \<longleftrightarrow> (\<forall>p. ispPeer s = Some p \<longrightarrow> \<not> ispDummy s \<longrightarrow> p \<in> snd ` set (keyMap d))"

lemma selected_frame [simp]:
  "selected s (d\<lparr>allowedips := tab\<rparr>) = selected s d" "selected s (upPeer p f d) = selected s d" "selected s (upHandshake p g d) = selected s d"
  "selected (s\<lparr>ispPkaOn := b\<rparr>) d = selected s d"
  by (simp_all add: selected_def upPeer_def)

lemma handlePostConfig_inv:
  assumes "deviceInv C d" and "selected s d" and "handlePostConfig C N s d = Some d'"
  shows "deviceInv C d' \<and> keyMap d' = keyMap d"
proof (cases "ispPeer s = None \<or> ispDummy s")
  case False
  then obtain p where p: "ispPeer s = Some p" "\<not> ispDummy s" by auto
  define d1 where "d1 = (if ispCreated s then upPeer p (\<lambda>q. q\<lparr>disableRoaming := brokenRoaming d \<and> epVal q \<noteq> None\<rparr>) d else d)"
  have s1: "sane d d1" unfolding d1_def by (auto intro!: sane_upPeer simp: sane_frame)
  note i1 = sane_deviceInv [OF s1 assms(1)] and k1 = sane_skel [OF s1]
  show ?thesis
  proof (cases "isUp d1")
    case True
    have m: "p \<in> snd ` set (keyMap d1)" using assms(2) p k1(1) by (simp add: selected_def)
    note st = peerStart_base [OF _ m, of C]
    have i2: "deviceInv C (peerStart p d1)" using st i1 True by (simp add: deviceInv_def isUp_def isClosed_def)
    obtain d2 where d2: "(if ispPkaOn s then SendKeepalive C N p (peerStart p d1) else Some (peerStart p d1)) = Some d2" "SendStagedPackets C N p d2 = Some d'"
      using assms(3) p True by (auto simp: handlePostConfig_def d1_def [symmetric] Let_def elim!: bind_SomeE)
    have "sane (peerStart p d1) d2" using d2(1) SendKeepalive_sane by (auto split: if_splits)
    then have "sane (peerStart p d1) d'" by (rule sane_trans [OF _ SendStagedPackets_sane [OF d2(2)]])
    from sane_deviceInv [OF this i2] sane_skel(1) [OF this] show ?thesis using st(2) i1 k1(1) by (simp add: deviceInv_def)
  next
    case False
    then show ?thesis using assms(3) p i1 k1 by (simp add: handlePostConfig_def d1_def [symmetric] Let_def)
  qed
qed (use assms in \<open>auto simp: handlePostConfig_def split: option.splits\<close>)

lemma dummyPeer_inv:
  assumes "deviceInv C d" and "dummyPeer d = (p, d')"
  shows "deviceInv C d' \<and> keyMap d' = keyMap d"
proof -
  have d': "d' = d\<lparr>peers := (peers d)(nextPeer d := zeroPeer), nextPeer := nextPeer d + 1\<rparr>" using assms(2) by (auto simp: dummyPeer_def)
  have "base C d'" unfolding d' by (rule base_freshPeer)
    (use assms(1) in \<open>simp_all add: deviceInv_def zeroPeer_def idle_timers stoppedTimer_def slots_def\<close>)
  moreover have "running d' \<subseteq> running d" by (auto simp: d' running_def zeroPeer_def)
  ultimately show ?thesis using assms(1) by (auto simp: deviceInv_def d' isUp_def isClosed_def)
qed

lemma handlePublicKeyLine_inv:
  assumes "deviceInv C d" and "handlePublicKeyLine C value s d = (r, d')"
  shows "deviceInv C d' \<and> (\<forall>s'. r = Inr s' \<longrightarrow> selected s' d')"
proof -
  have new: "deviceInv C x \<and> (\<forall>p. q = Inr p \<longrightarrow> p \<in> snd ` set (keyMap x))" if n: "NewPeer C pk d = (q, x)" "pk \<noteq> publicKey d" for pk q x
  proof -
    note b = NewPeer_base [OF _ n(2,1)]
    have "deviceInv C x" using b assms(1) by (cases "isClosed d") (auto simp: deviceInv_def isUp_def isClosed_def)
    then show ?thesis using b(5) assms(1) by (force simp: deviceInv_def)
  qed
  have dum: "deviceInv C x" if "dummyPeer d = (p, x)" for p x using dummyPeer_inv [OF assms(1) that] by simp
  have old: "p \<in> snd ` set (keyMap d)" if "LookupPeer pk d = Some p" for pk p
    using that by (force simp: LookupPeer_def dest: map_of_SomeD)
  show ?thesis using assms new dum old
    by (auto simp: handlePublicKeyLine_def keyEquals_def selected_def split: sum.splits if_splits option.splits prod.splits)
qed

lemma RemovePeer_inv: "deviceInv C d \<Longrightarrow> RemovePeer C N pk d = Some d' \<Longrightarrow> deviceInv C d'"
  using RemovePeer_base [of C d N pk d'] by (auto simp: deviceInv_def isUp_def isClosed_def)

lemma becomeDummy_inv:
  assumes "deviceInv C d" and "becomeDummy s d = (r, d')"
  shows "deviceInv C d' \<and> (\<forall>s'. r = Inr s' \<longrightarrow> selected s' d')"
proof -
  obtain p d1 where p: "dummyPeer d = (p, d1)" by fastforce
  then show ?thesis using assms(2) dummyPeer_inv [OF assms(1) p] by (auto simp: becomeDummy_def selected_def)
qed

lemma deviceInv_table: "deviceInv C d \<Longrightarrow> tableInv (allowedips d) \<and> ran (absTable (allowedips d)) \<subseteq> snd ` set (keyMap d)"
  by (simp add: deviceInv_def base_def routeInv_def)

lemma allowedips_inv:
  assumes "deviceInv C d" and "tableInv tab"
    and "\<And>k q. absTable tab k = Some q \<Longrightarrow> absTable (allowedips d) k = Some q \<or> q \<in> snd ` set (keyMap d)"
  shows "deviceInv C (d\<lparr>allowedips := tab\<rparr>)"
proof -
  have "ran (absTable tab) \<subseteq> snd ` set (keyMap d)"
    using assms(3) deviceInv_table [OF assms(1)] unfolding ran_def by blast
  from base_allowedips [OF _ assms(2) this, of C] show ?thesis
    using assms(1) by (simp add: deviceInv_def running_def isUp_def isClosed_def)
qed

lemma handleAllowedIP_inv:
  assumes "deviceInv C d" and "selected s d" and "ispPeer s = Some p" and "handleAllowedIP value p s d = Some (r, d')"
  shows "deviceInv C d' \<and> (\<forall>s'. r = Inr s' \<longrightarrow> selected s' d')"
proof -
  note t = deviceInv_table [OF assms(1)]
  have ins: "deviceInv C (d\<lparr>allowedips := tab\<rparr>)" if h: "parsePrefix v = Some pre" "Insert (allowedips d) pre p = Some tab" "\<not> ispDummy s" for v pre tab
  proof -
    obtain T where "Insert (allowedips d) pre p = Some T" "tableInv T" "absTable T = (absTable (allowedips d))(prefixKey pre \<mapsto> p)"
      using Insert_refines [OF conjunct1 [OF t] parsePrefix_valid [OF h(1)], of p] by blast
    moreover have "p \<in> snd ` set (keyMap d)" using assms(2,3) h(3) by (simp add: selected_def)
    ultimately show ?thesis using h(2) by (intro allowedips_inv [OF assms(1)]) (auto split: if_splits)
  qed
  have rem: "deviceInv C (d\<lparr>allowedips := tab\<rparr>)" if h: "parsePrefix v = Some pre" "Remove (allowedips d) pre p = Some tab" for v pre tab
  proof -
    obtain T where "Remove (allowedips d) pre p = Some T" "tableInv T"
        "absTable T = (if absTable (allowedips d) (prefixKey pre) = Some p then (absTable (allowedips d))(prefixKey pre := None) else absTable (allowedips d))"
      using Remove_refines [OF conjunct1 [OF t] parsePrefix_valid [OF h(1)], of p] by blast
    then show ?thesis using h(2) by (intro allowedips_inv [OF assms(1)]) (auto split: if_splits)
  qed
  show ?thesis using assms ins rem
    by (auto simp: handleAllowedIP_def Let_def split: option.splits if_splits)
qed

lemma handlePeerLine_inv:
  assumes "deviceInv C d" and "selected s d" and "ispPeer s = Some p" and "handlePeerLine C N name value p s d = Some (r, d')"
  shows "deviceInv C d' \<and> (\<forall>s'. r = Inr s' \<longrightarrow> selected s' d')"
proof -
  note t = deviceInv_table [OF assms(1)]
  have rm: "deviceInv C x \<and> (\<forall>s'. q = Inr s' \<longrightarrow> selected s' x)" if "RemovePeer C N pk d = Some y" "becomeDummy s y = (q, x)" for pk y q x
    using becomeDummy_inv [OF RemovePeer_inv [OF assms(1) that(1)] that(2)] .
  have du: "deviceInv C x \<and> (\<forall>s'. q = Inr s' \<longrightarrow> selected s' x)" if "becomeDummy s d = (q, x)" for q x
    by (rule becomeDummy_inv [OF assms(1) that])
  have psk: "deviceInv C (upHandshake p (\<lambda>h. h\<lparr>presharedKey := k\<rparr>) d)" for k
    unfolding upHandshake_def by (rule deviceInv_upPeer) (simp_all add: assms(1) idle_timers slots_def)
  have ep: "deviceInv C (upPeer p (\<lambda>q. q\<lparr>epVal := e\<rparr>) d)" "deviceInv C (upPeer p (\<lambda>q. q\<lparr>persistentKeepaliveInterval := w\<rparr>) d)" for e w
    by (rule deviceInv_upPeer; simp add: assms(1) idle_timers slots_def)+
  have all: "deviceInv C (d\<lparr>allowedips := tab\<rparr>)" if "RemoveByPeer (allowedips d) p = Some tab" for tab
    using RemoveByPeer_refines [OF conjunct1 [OF t], of p] that by (intro allowedips_inv [OF assms(1)]) (auto split: if_splits)
  have aip: "deviceInv C x \<and> (\<forall>s'. q = Inr s' \<longrightarrow> selected s' x)" if "handleAllowedIP value p s d = Some (q, x)" for q x
    by (rule handleAllowedIP_inv [OF assms(1-3) that])
  show ?thesis using assms(1,2,4) rm du psk ep all aip
    by (auto simp: handlePeerLine_def Let_def split: if_splits sum.splits option.splits)
qed

lemma finishSet_inv:
  assumes "deviceInv C d" and "selected s d" and "finishSet C N s err d = Some (e, d')"
  shows "deviceInv C d'"
proof -
  obtain b d1 where m: "mergeWithDevice newIpcSetDevice d = (b, d1)" by fastforce
  have i: "deviceInv C d1" and k: "keyMap d1 = keyMap d" using m assms(1)
    by (auto simp: mergeWithDevice_def Let_def split: if_splits)
  have sel: "selected s d1" using assms(2) k by (simp add: selected_def)
  show ?thesis
  proof (cases b)
    case False
    then have "handlePostConfig C N s d1 = Some d'" using assms(3) m by (simp add: finishSet_def)
    from handlePostConfig_inv [OF i sel this] show ?thesis by simp
  qed (use assms(3) m i in \<open>simp add: finishSet_def\<close>)
qed

lemma ipcSetLoop_inv:
  "deviceInv C d \<Longrightarrow> selected s d \<Longrightarrow> (deviceConfig \<longrightarrow> ispPeer s = None) \<Longrightarrow>
   ipcSetLoop C N err ls deviceConfig s d = Some (e, d') \<Longrightarrow> deviceInv C d'"
proof (induction ls arbitrary: deviceConfig s d)
  case Nil
  then show ?case using finishSet_inv by simp
next
  case (Cons line ls)
  show ?case
  proof (cases "line = [] \<or> cut CHR ''='' line = None")
    case True
    then show ?thesis using Cons.prems finishSet_inv [OF Cons.prems(1,2), of N None] by (auto split: if_splits option.splits)
  next
    case False
    then obtain name v where c: "line \<noteq> []" "cut CHR ''='' line = Some (name, v)" by auto
    consider (key) "name = ''public_key''" | (dev) "name \<noteq> ''public_key''" "deviceConfig" | (peer) "name \<noteq> ''public_key''" "\<not> deviceConfig" by blast
    then show ?thesis
    proof cases
      case key
      obtain d1 where d1: "handlePostConfig C N s d = Some d1" using Cons.prems(4) c key by (auto elim!: bind_SomeE)
      obtain r d2 where d2: "handlePublicKeyLine C v s d1 = (r, d2)" by fastforce
      note i = handlePublicKeyLine_inv [OF conjunct1 [OF handlePostConfig_inv [OF Cons.prems(1,2) d1]] d2]
      show ?thesis using Cons.prems(4) c key d1 d2 i Cons.IH [of d2 _ False] by (auto split: sum.splits)
    next
      case dev
      obtain e1 d1 where d1: "handleDeviceLine C N name v d = Some (e1, d1)" using Cons.prems(4) c dev by (auto elim!: bind_SomeE)
      have "selected s d1" using dev Cons.prems(3) by (simp add: selected_def)
      then show ?thesis using Cons.prems(3,4) c dev d1 handleDeviceLine_inv [OF Cons.prems(1) d1] Cons.IH [of d1 s True] by (auto split: if_splits)
    next
      case peer
      obtain p r d1 where p: "ispPeer s = Some p" "handlePeerLine C N name v p s d = Some (r, d1)"
        using Cons.prems(4) c peer by (auto elim!: bind_SomeE)
      note i = handlePeerLine_inv [OF Cons.prems(1,2) p]
      show ?thesis using Cons.prems(4) c peer p i Cons.IH [of d1 _ False] by (auto split: sum.splits)
    qed
  qed
qed

lemma IpcSet_inv:
  assumes "deviceInv C d" and "IpcSet C N text d = Some (e, d')"
  shows "deviceInv C d'"
proof -
  obtain ls err where "ipcSetLoop C N err ls True newIpcSetPeer d = Some (e, d')"
    using assms(2) by (auto simp: IpcSet_def IpcSetOperation_def split: prod.splits)
  then show ?thesis by (rule ipcSetLoop_inv [OF assms(1), rotated -1]) (simp_all add: selected_def newIpcSetPeer_def)
qed

end
