(* ===== verification/Monotone.thy ===== *)
theory Monotone
  imports Lifecycle
begin

text \<open>
  What never goes back: the timestamp of the last initiation a peer has accepted, the numbers of peers given
  out, and the closed state of the device.
\<close>

definition fwd :: "Device \<Rightarrow> Device \<Rightarrow> bool" where
  "fwd d d' \<longleftrightarrow> nextPeer d \<le> nextPeer d' \<and> (\<forall>p < nextPeer d. stampLe (lastStamp d p) (lastStamp d' p)) \<and> (isClosed d \<longrightarrow> isClosed d')"

lemma stampLe_trans: "stampLe a b \<Longrightarrow> stampLe b c \<Longrightarrow> stampLe a c"
  using After_trans by (auto simp: stampLe_def)

lemma fwd_refl [simp]: "fwd d d"
  by (simp add: fwd_def stampLe_def)

lemma fwd_trans [trans]: "fwd d d' \<Longrightarrow> fwd d' d'' \<Longrightarrow> fwd d d''"
  unfolding fwd_def by (auto intro: stampLe_trans order_less_le_trans)

lemma sane_fwd: "sane d d' \<Longrightarrow> fwd d d'"
  using sane_skel [of d d'] by (simp add: fwd_def sane_def still_def)

lemma fwd_fields:
  assumes "nextPeer d' = nextPeer d" and "\<And>p. lastStamp d' p = lastStamp d p" and "isClosed d \<Longrightarrow> isClosed d'"
  shows "fwd d d'"
  using assms by (simp add: fwd_def stampLe_def)

lemma fwd_upPeer: "lastTimestamp (handshake (f (peers d p))) = lastStamp d p \<Longrightarrow> fwd d (upPeer p f d)"
  by (rule fwd_fields) (auto simp: upPeer_def isClosed_def)

lemma fwd_freshPeer: "fwd d (d\<lparr>peers := (peers d)(nextPeer d := q), nextPeer := nextPeer d + 1\<rparr>)"
  by (simp add: fwd_def stampLe_def isClosed_def)

lemma fwd_settings [simp]:
  "fwd d (d\<lparr>junkCount := i\<rparr>)" "fwd d (d\<lparr>junkMin := i\<rparr>)" "fwd d (d\<lparr>junkMax := i\<rparr>)" "fwd d (d\<lparr>padInit := n\<rparr>)" "fwd d (d\<lparr>padResponse := n\<rparr>)"
  "fwd d (d\<lparr>padCookie := n\<rparr>)" "fwd d (d\<lparr>padTransport := n\<rparr>)" "fwd d (d\<lparr>hdrInit := h\<rparr>)" "fwd d (d\<lparr>hdrResponse := h\<rparr>)" "fwd d (d\<lparr>hdrCookie := h\<rparr>)"
  "fwd d (d\<lparr>hdrTransport := h\<rparr>)" "fwd d (d\<lparr>ipackets := c\<rparr>)" "fwd d (d\<lparr>imitateMode := m\<rparr>)" "fwd d (d\<lparr>allowedips := t\<rparr>)" "fwd d (d\<lparr>keyMap := k\<rparr>)"
  "\<not> isClosed d \<Longrightarrow> fwd d (d\<lparr>devState := s\<rparr>)"
  by (simp_all add: fwd_def stampLe_def isClosed_def)

lemma forPeers_fwd:
  assumes "forPeers m f d = Some d'" and "\<And>pk p d d'. f pk p d = Some d' \<Longrightarrow> fwd d d'"
  shows "fwd d d'"
  by (rule forPeers_induct [OF assms(1), where I = "\<lambda>_. fwd d"]) (auto intro: fwd_trans assms(2))

lemma peerStart_fwd: "fwd d (peerStart p d)"
proof -
  have "fwd d (upPeer p (\<lambda>q. q\<lparr>inbound := [], outbound := [], isRunning := True\<rparr>) (timersStart p (upHandshake p (\<lambda>h. h\<lparr>lastSentHandshake := t\<rparr>) d)))" for t
    by (rule fwd_trans [OF sane_fwd [OF calm_sane [OF calm_trans [OF lastSent_calm calm_timers(9)]]] fwd_upPeer]) simp
  then show ?thesis by (simp add: peerStart_def Let_def)
qed

lemma peerStop_fwd:
  assumes "peerStop C N p d = Some d'"
  shows "fwd d d'"
proof (cases "isRunning (peers d p)")
  case True
  define d1 where "d1 = timersStop p (upPeer p (\<lambda>q. q\<lparr>isRunning := False\<rparr>) d)"
  define d2 where "d2 = upPeer p (\<lambda>q. q\<lparr>inbound := [], outbound := []\<rparr>) d1"
  obtain d3 where d3: "drainInbound C N p (inbound (peers d1 p)) d2 = Some d3" "d' = ZeroAndFlushAll p d3"
    using assms True by (auto simp: peerStop_def Let_def d1_def d2_def elim!: bind_SomeE)
  have "fwd d (upPeer p (\<lambda>q. q\<lparr>isRunning := False\<rparr>) d)" by (rule fwd_upPeer) simp
  also have "fwd \<dots> d1" unfolding d1_def by (rule sane_fwd [OF calm_sane [OF timersStop_calm]])
  also have "fwd d1 d2" unfolding d2_def by (rule fwd_upPeer) simp
  also have "fwd d2 d3" by (rule sane_fwd [OF drainInbound_sane [OF d3(1)]])
  also have "fwd d3 d'" unfolding d3(2) by (rule sane_fwd [OF ZeroAndFlushAll_sane])
  finally show ?thesis .
qed (use assms in \<open>simp add: peerStop_def\<close>)

lemma removePeerLocked_fwd:
  assumes "removePeerLocked C N p pk d = Some d'"
  shows "fwd d d'"
proof -
  obtain tab d1 where d1: "peerStop C N p (d\<lparr>allowedips := tab\<rparr>) = Some d1" "d' = d1\<lparr>keyMap := AList.delete pk (keyMap d1)\<rparr>"
    using assms by (auto simp: removePeerLocked_def elim!: bind_SomeE)
  have "fwd d (d\<lparr>allowedips := tab\<rparr>)" by simp
  also have "fwd \<dots> d1" by (rule peerStop_fwd [OF d1(1)])
  also have "fwd d1 d'" by (simp add: d1(2))
  finally show ?thesis .
qed

lemma RemovePeer_fwd: "RemovePeer C N pk d = Some d' \<Longrightarrow> fwd d d'"
  by (auto simp: RemovePeer_def dest: removePeerLocked_fwd split: option.splits)

lemma RemoveAllPeers_fwd: "RemoveAllPeers C N d = Some d' \<Longrightarrow> fwd d d'"
proof -
  assume "RemoveAllPeers C N d = Some d'"
  then obtain d1 where d1: "forPeers (keyMap d) (\<lambda>pk p. removePeerLocked C N p pk) d = Some d1" "d' = d1\<lparr>keyMap := []\<rparr>"
    by (auto simp: RemoveAllPeers_def elim!: bind_SomeE)
  have "fwd d d1" by (rule forPeers_fwd [OF d1(1)]) (rule removePeerLocked_fwd)
  also have "fwd d1 d'" by (simp add: d1(2))
  finally show ?thesis .
qed

lemma NewPeer_fwd: "NewPeer C pk d = (r, d') \<Longrightarrow> fwd d d'"
  by (auto simp: NewPeer_def Let_def fwd_def stampLe_def isClosed_def split: if_splits)

lemma SetPrivateKey_fwd:
  assumes "SetPrivateKey C N sk d = Some d'"
  shows "fwd d d'"
proof (cases "keyEquals sk (privateKey d)")
  case False
  let ?pub = "publicKeyOf C sk"
  define drop1 where "drop1 = (\<lambda>pk p d. if keyEquals (remoteStatic (handshake (peers d p))) ?pub then removePeerLocked C N p pk d else Some d)"
  define rekey where "rekey = (\<lambda>(pk :: bytes) p d. Some (upHandshake p (\<lambda>h. h\<lparr>precomputedStaticStatic := staticStatic C (privateKey d) (remoteStatic h)\<rparr>) d))"
  note run = assms [unfolded SetPrivateKey_def Let_def, folded drop1_def rekey_def]
  obtain d1 where d1: "forPeers (keyMap d) drop1 d = Some d1" using run False by (auto simp: bind_eq_Some_conv)
  define d2 where "d2 = d1\<lparr>privateKey := sk, publicKey := ?pub, cookieChecker := checkerInit C ?pub (cookieChecker d1)\<rparr>"
  obtain d3 where d3: "forPeers (keyMap d2) rekey d2 = Some d3" and d': "forPeers (keyMap d3) (\<lambda>pk p d. Some (ExpireCurrentKeypairs p d)) d3 = Some d'"
    using run False d1 by (auto simp: bind_eq_Some_conv d2_def)
  have "fwd d d1" by (rule forPeers_fwd [OF d1]) (auto simp: drop1_def dest: removePeerLocked_fwd split: if_splits)
  also have "fwd d1 d2" by (rule fwd_fields) (simp_all add: d2_def isClosed_def)
  also have "fwd d2 d3" by (rule forPeers_fwd [OF d3]) (auto simp: rekey_def upHandshake_def intro!: fwd_upPeer)
  also have "fwd d3 d'" by (rule forPeers_fwd [OF d']) (auto intro: sane_fwd ExpireCurrentKeypairs_sane)
  finally show ?thesis .
qed (use assms in \<open>simp add: SetPrivateKey_def\<close>)

section \<open>The state of the device\<close>

lemma downLocked_fwd: "downLocked C N d = Some (e, d') \<Longrightarrow> fwd d d'"
proof -
  assume run: "downLocked C N d = Some (e, d')"
  obtain e1 d1 where b: "BindClose N d = (e1, d1)" by fastforce
  have "fwd d d1" using b by (auto simp: BindClose_def closeBindLocked_def sane_settings sane_fwd)
  also have "fwd d1 d'" using run b by (auto simp: downLocked_def intro: forPeers_fwd peerStop_fwd)
  finally show ?thesis .
qed

lemma upLocked_fwd: "upLocked C N d = Some (e, d') \<Longrightarrow> fwd d d'"
proof -
  assume run: "upLocked C N d = Some (e, d')"
  obtain e1 d1 where b: "BindUpdate N d = Some (e1, d1)" using run by (auto simp: upLocked_def elim!: bind_SomeE)
  have k: "fwd x y" if "(let d = peerStart p x in if persistentKeepaliveInterval (peers d p) > 0 then SendKeepalive C N p d else Some d) = Some y" for x y p
    using that fwd_trans [OF peerStart_fwd sane_fwd [OF SendKeepalive_sane]] peerStart_fwd by (auto simp: Let_def split: if_splits)
  have "fwd d1 d'" using run b by (auto simp: upLocked_def split: option.splits intro: forPeers_fwd [OF _ k])
  then show ?thesis by (rule fwd_trans [OF sane_fwd [OF BindUpdate_sane [OF b]]])
qed

lemma upLocked_devState: "upLocked C N d = Some (e, d') \<Longrightarrow> devState d' = devState d"
proof -
  assume run: "upLocked C N d = Some (e, d')"
  obtain e1 d1 where b: "BindUpdate N d = Some (e1, d1)" using run by (auto simp: upLocked_def elim!: bind_SomeE)
  have st: "devState (peerStart p x) = devState x" for p x by (simp add: peerStart_def Let_def timersStart_def access_defs)
  have k: "devState y = devState x" if "(let d = peerStart p x in if persistentKeepaliveInterval (peers d p) > 0 then SendKeepalive C N p d else Some d) = Some y" for x y p
    using that sane_skel(2) [OF SendKeepalive_sane] st by (auto simp: Let_def split: if_splits)
  have l: "devState y = devState x" if "forPeers m (\<lambda>pk p d. let d = peerStart p d in if persistentKeepaliveInterval (peers d p) > 0 then SendKeepalive C N p d else Some d) x = Some y" for m x y
    by (rule forPeers_induct [OF that, where I = "\<lambda>_ e. devState e = devState x"]) (simp_all add: k)
  show ?thesis using run b l sane_skel(2) [OF BindUpdate_sane [OF b]] by (auto simp: upLocked_def split: option.splits)
qed

lemma changeState_fwd:
  assumes "changeState C N want d = Some (e, d')"
  shows "fwd d d'"
proof (cases "isClosed d \<or> want = devState d \<or> want = deviceStateClosed")
  case True
  then show ?thesis using assms by (auto simp: changeState_def split: if_splits)
next
  case False
  have dn: "fwd x y" if "\<not> isClosed x" "downLocked C N (x\<lparr>devState := s\<rparr>) = Some (e1, y)" for s x y e1
    by (rule fwd_trans [OF fwd_settings(16) [OF that(1)] downLocked_fwd [OF that(2)]])
  show ?thesis
  proof (cases want)
    case deviceStateUp
    obtain e1 d1 where u: "upLocked C N (d\<lparr>devState := deviceStateUp\<rparr>) = Some (e1, d1)"
      using assms False deviceStateUp by (auto simp: changeState_def elim!: bind_SomeE)
    have f: "fwd d d1" by (rule fwd_trans [OF fwd_settings(16) upLocked_fwd [OF u]]) (use False in simp)
    have "fwd d1 d'" if e1: "e1 = Some x" for x
    proof -
      obtain e2 where dl: "downLocked C N (d1\<lparr>devState := deviceStateDown\<rparr>) = Some (e2, d')"
        using assms False deviceStateUp u e1 by (auto simp: changeState_def)
      have "\<not> isClosed d1" using upLocked_devState [OF u] by (simp add: isClosed_def)
      then show ?thesis using dl by (rule dn)
    qed
    then show ?thesis using assms False deviceStateUp u f fwd_trans [OF f] by (cases e1) (auto simp: changeState_def)
  next
    case deviceStateDown
    then show ?thesis using assms False dn [of d] by (auto simp: changeState_def)
  qed (use False in simp)
qed

lemma deviceClose_fwd:
  assumes "deviceClose C N d = Some d'"
  shows "fwd d d'"
proof (cases "isClosed d")
  case False
  obtain e d1 d2 where d: "downLocked C N (d\<lparr>devState := deviceStateClosed\<rparr>) = Some (e, d1)" "RemoveAllPeers C N d1 = Some d2"
      "d' = d2\<lparr>limiter := (limiter d2)\<lparr>ticking := False\<rparr>\<rparr>"
    using assms False by (auto simp: deviceClose_def elim!: bind_SomeE)
  have "fwd d (d\<lparr>devState := deviceStateClosed\<rparr>)" by (rule fwd_settings(16) [OF False])
  also have "fwd \<dots> d1" by (rule downLocked_fwd [OF d(1)])
  also have "fwd d1 d2" by (rule RemoveAllPeers_fwd [OF d(2)])
  also have "fwd d2 d'" unfolding d(3) by (rule sane_fwd [OF sane_settings(6)])
  finally show ?thesis .
qed (use assms in \<open>simp add: deviceClose_def\<close>)

section \<open>The configuration protocol\<close>

lemma handleDeviceLine_fwd:
  assumes "handleDeviceLine C N name v d = Some (e, d')"
  shows "fwd d d'"
proof -
  have plain: "fwd d (snd (plainSetting name v d))"
    by (simp add: plainSetting_def positiveSetting_def paddingSetting_def headerSetting_def ipacketSetting_def imitateSetting_def
      split: sum.splits option.splits)
  have bu: "fwd d x" if "BindUpdate N (d\<lparr>netPort := pt\<rparr>) = Some (e1, x)" for pt e1 x
    by (rule sane_fwd [OF sane_trans [OF sane_settings(1) BindUpdate_sane [OF that]]])
  show ?thesis using assms plain bu
    by (auto simp: handleDeviceLine_def split: if_splits sum.splits dest: SetPrivateKey_fwd RemoveAllPeers_fwd BindSetMark_sane [THEN sane_fwd])
qed

lemma handlePostConfig_fwd:
  assumes "handlePostConfig C N s d = Some d'"
  shows "fwd d d'"
proof (cases "ispPeer s = None \<or> ispDummy s")
  case False
  then obtain p where p: "ispPeer s = Some p" "\<not> ispDummy s" by auto
  define d1 where "d1 = (if ispCreated s then upPeer p (\<lambda>q. q\<lparr>disableRoaming := brokenRoaming d \<and> epVal q \<noteq> None\<rparr>) d else d)"
  have d1: "fwd d d1" unfolding d1_def by (simp add: fwd_upPeer)
  show ?thesis
  proof (cases "isUp d1")
    case True
    obtain d2 where d2: "(if ispPkaOn s then SendKeepalive C N p (peerStart p d1) else Some (peerStart p d1)) = Some d2" "SendStagedPackets C N p d2 = Some d'"
      using assms p True by (auto simp: handlePostConfig_def d1_def [symmetric] Let_def elim!: bind_SomeE)
    have "fwd d1 (peerStart p d1)" by (rule peerStart_fwd)
    also have "fwd \<dots> d2" using d2(1) SendKeepalive_sane [THEN sane_fwd] by (auto split: if_splits)
    also have "fwd d2 d'" by (rule sane_fwd [OF SendStagedPackets_sane [OF d2(2)]])
    finally show ?thesis by (rule fwd_trans [OF d1])
  next
    case False
    then show ?thesis using assms p d1 by (simp add: handlePostConfig_def d1_def [symmetric] Let_def)
  qed
qed (use assms in \<open>auto simp: handlePostConfig_def split: option.splits\<close>)

lemma dummyPeer_fwd: "dummyPeer d = (p, d') \<Longrightarrow> fwd d d'"
  using fwd_freshPeer by (auto simp: dummyPeer_def)

lemma becomeDummy_fwd: "becomeDummy s d = (r, d') \<Longrightarrow> fwd d d'"
  by (auto simp: becomeDummy_def dest: dummyPeer_fwd split: prod.splits)

lemma handlePublicKeyLine_fwd: "handlePublicKeyLine C v s d = (r, d') \<Longrightarrow> fwd d d'"
  by (auto simp: handlePublicKeyLine_def dest: dummyPeer_fwd NewPeer_fwd split: sum.splits if_splits option.splits prod.splits)

lemma handlePeerLine_fwd:
  assumes "handlePeerLine C N name v p s d = Some (r, d')"
  shows "fwd d d'"
proof -
  have rm: "fwd d x" if "RemovePeer C N pk d = Some y" "becomeDummy s y = (q, x)" for pk y q x
    by (rule fwd_trans [OF RemovePeer_fwd [OF that(1)] becomeDummy_fwd [OF that(2)]])
  have up: "fwd d (upHandshake p (\<lambda>h. h\<lparr>presharedKey := k\<rparr>) d)" "fwd d (upPeer p (\<lambda>q. q\<lparr>epVal := e\<rparr>) d)"
    "fwd d (upPeer p (\<lambda>q. q\<lparr>persistentKeepaliveInterval := w\<rparr>) d)" for k e w
    by (simp_all add: upHandshake_def fwd_upPeer)
  have aip: "fwd d x" if "handleAllowedIP v p s d = Some (q, x)" for q x
    using that by (auto simp: handleAllowedIP_def Let_def split: option.splits if_splits)
  show ?thesis using assms rm up aip
    by (auto simp: handlePeerLine_def Let_def dest: becomeDummy_fwd split: if_splits sum.splits option.splits)
qed

lemma finishSet_fwd:
  assumes "finishSet C N s err d = Some (e, d')"
  shows "fwd d d'"
proof -
  obtain b d1 where m: "mergeWithDevice newIpcSetDevice d = (b, d1)" by fastforce
  have d1: "fwd d d1" by (rule fwd_fields) (use m in \<open>auto simp: mergeWithDevice_def Let_def isClosed_def split: if_splits\<close>)
  show ?thesis
  proof (cases b)
    case False
    then have "handlePostConfig C N s d1 = Some d'" using assms m by (simp add: finishSet_def)
    from fwd_trans [OF d1 handlePostConfig_fwd [OF this]] show ?thesis .
  qed (use assms m d1 in \<open>simp add: finishSet_def\<close>)
qed

lemma ipcSetLoop_fwd: "ipcSetLoop C N err ls deviceConfig s d = Some (e, d') \<Longrightarrow> fwd d d'"
proof (induction ls arbitrary: deviceConfig s d)
  case Nil
  then show ?case using finishSet_fwd by simp
next
  case (Cons line ls)
  show ?case
  proof (cases "line = [] \<or> cut CHR ''='' line = None")
    case True
    then show ?thesis using Cons.prems finishSet_fwd [of C N s None d] by (auto split: if_splits option.splits)
  next
    case False
    then obtain name v where c: "line \<noteq> []" "cut CHR ''='' line = Some (name, v)" by auto
    have "\<exists>d1. fwd d d1 \<and> (d' = d1 \<or> (\<exists>dc s'. ipcSetLoop C N err ls dc s' d1 = Some (e, d')))"
    proof (cases "name = ''public_key''")
      case True
      obtain d1 where d1: "handlePostConfig C N s d = Some d1" using Cons.prems c True by (auto elim!: bind_SomeE)
      obtain r d2 where d2: "handlePublicKeyLine C v s d1 = (r, d2)" by fastforce
      show ?thesis using Cons.prems c True d1 d2 fwd_trans [OF handlePostConfig_fwd [OF d1] handlePublicKeyLine_fwd [OF d2]]
        by (auto split: sum.splits)
    next
      case False
      then show ?thesis using Cons.prems c handleDeviceLine_fwd handlePeerLine_fwd
        by (auto split: if_splits sum.splits elim!: bind_SomeE, blast+)
    qed
    then show ?thesis using Cons.IH fwd_trans by blast
  qed
qed

lemma IpcSet_fwd: "IpcSet C N text d = Some (e, d') \<Longrightarrow> fwd d d'"
  by (auto simp: IpcSet_def IpcSetOperation_def dest: ipcSetLoop_fwd split: prod.splits)

end
