(* ===== verification/Transport.thy ===== *)
theory Transport
  imports Receive
begin

text \<open>
  The path of one packet: the sizes of the padding, the round trip of a transport message from the
  encryption worker of one device to the sequential receiver of another, and the recognition of the
  handshake messages by their size and magic header.
\<close>

section \<open>The padding of a payload\<close>

lemma and_not_15: "x AND - 16 = x - x mod 16" for x :: int
proof -
  have "x - take_bit 4 x = x AND NOT (take_bit 4 x)"
    by (rule disjunctive_diff_eq_and_not) (auto simp: bit_eq_iff bit_simps)
  also have "\<dots> = x AND NOT (mask 4)" by (auto simp: bit_eq_iff bit_simps)
  finally show ?thesis by (simp add: take_bit_eq_mod mask_eq_exp_minus_1)
qed

lemma calculatePaddingSize_eq:
  "0 \<le> packetSize \<Longrightarrow> calculatePaddingSize packetSize tunMTU =
     (let u = (if tunMTU \<noteq> 0 \<and> packetSize > tunMTU then packetSize mod \<bar>tunMTU\<bar> else packetSize); q = (u + 15) div 16 * 16
      in (if tunMTU \<noteq> 0 \<and> q > tunMTU then tunMTU else q) - u)"
  by (simp add: calculatePaddingSize_def PaddingMultiple_def and_not_15 Let_def minus_mod_eq_div_mult add.commute)



section \<open>Padding in front of a datagram\<close>

lemma padPacket_filled:
  "\<exists>b d'. padPacket padding packet d = Some (b, d') \<and> length b = padding + length packet \<and> drop padding b = packet"
proof (cases "padding > 0")
  case True
  define rnd where "rnd = (if imitateMode d = imitateNone then fst (drawBytes padding (entropy d)) else [])"
  define d' where "d' = (if imitateMode d = imitateNone then snd (randRead padding d) else d)"
  have "(if imitateMode d = imitateNone then randRead padding d else ([], d)) = (rnd, d')" "imitateMode d' = imitateMode d"
    by (cases "drawBytes padding (entropy d)"; simp add: rnd_def d'_def randRead_def)+
  then have "padPacket padding packet d =
      map_option (\<lambda>b. (b, d')) (fillPadding (imitateMode d) rnd (replicate padding 0 @ packet) padding)"
    using True by (simp add: padPacket_def)
  moreover have "\<exists>out. fillPadding (imitateMode d) rnd (replicate padding 0 @ packet) padding = Some out \<and>
      length out = length (replicate padding 0 @ packet) \<and> drop padding out = drop padding (replicate padding 0 @ packet)"
    by (rule fillPadding_total) (simp_all add: rnd_def)
  ultimately show ?thesis by auto
qed (simp add: padPacket_def)

lemma padPacket_spec:
  assumes "padPacket padding packet d = Some (b, d')"
  shows "length b = padding + length packet" "drop padding b = packet"
  using padPacket_filled [of padding packet d] assms by auto

section \<open>One transport message\<close>

lemma get_le_append:
  "4 \<le> length xs \<Longrightarrow> get_le32 (xs @ ys) = get_le32 xs" "8 \<le> length xs \<Longrightarrow> get_le64 (xs @ ys) = get_le64 xs"
  by (simp_all add: get_le32_def get_le64_def)

lemma get_be16_append: "2 \<le> length xs \<Longrightarrow> get_be16 (xs @ ys) = get_be16 xs"
  by (cases xs) (auto simp: get_be16_def nth_append)

text \<open>
  The key pair \<open>k\<close> of the sender \<open>s\<close> and \<open>k'\<close> of the receiver \<open>r\<close> belong to one session, which \<open>r\<close> still accepts, and the two
  devices are configured alike for transport messages.
\<close>

definition sessionTo :: "Device \<Rightarrow> kpId \<Rightarrow> Device \<Rightarrow> kpId \<Rightarrow> peerId \<Rightarrow> bool" where
  "sessionTo s k r k' p \<longleftrightarrow> kpSend (keypairs s k) = kpReceive (keypairs r k') \<and>
     entryKeypair (indexLookup (kpRemoteIndex (keypairs s k)) r) = Some k' \<and>
     entryPeer (indexLookup (kpRemoteIndex (keypairs s k)) r) = Some p \<and>
     \<not> created (keypairs r k') + RejectAfterTime < clock r \<and>
     hdrTransport s = hdrTransport r \<and> mhOrdered (hdrTransport r)"

text \<open>A datagram that a device takes for a handshake message, by its size and the header at that message's offset.\<close>

definition handshakeLike :: "Device \<Rightarrow> bytes \<Rightarrow> bool" where
  "handshakeLike r b \<longleftrightarrow> (\<exists>t \<in> set [MessageInitiationType, MessageResponseType, MessageCookieReplyType].
     fst (DeterminePacketTypeAndPadding b t r) \<noteq> MessageUnknownType)"

lemma DeterminePacket_transport:
  assumes "\<not> handshakeLike r b" and "padTransport r + MessageTransportHeaderSize \<le> length b"
    and "Validate (hdrTransport r) (get_le32 (drop (padTransport r) b))"
  shows "DeterminePacketTypeAndPadding b MessageUnknownType r = (MessageTransportType, padTransport r)"
  using assms by (auto simp: handshakeLike_def DeterminePacketTypeAndPadding_def type_consts Let_def split: if_splits)

text \<open>An IP packet whose header gives its own length, and whose source the receiver routes to the peer.\<close>

definition ipFrom :: "peerId \<Rightarrow> bytes \<Rightarrow> Device \<Rightarrow> bool" where
  "ipFrom p packet r \<longleftrightarrow>
     (drop_bit 4 (hd packet) = 4 \<and> ipv4HeaderLen \<le> length packet \<and>
      unat (get_be16 (drop IPv4offsetTotalLength packet)) = length packet \<and>
      Lookup (allowedips r) (subslice IPv4offsetSrc (IPv4offsetSrc + 4) packet) = Some (Some p)) \<or>
     (drop_bit 4 (hd packet) = 6 \<and> ipv6HeaderLen \<le> length packet \<and> length packet < 2 ^ 16 \<and>
      unat (get_be16 (drop IPv6offsetPayloadLength packet)) + ipv6HeaderLen = length packet \<and>
      Lookup (allowedips r) (subslice IPv6offsetSrc (IPv6offsetSrc + 16) packet) = Some (Some p))"

lemma acceptPacket_padded:
  assumes "ipFrom p packet r"
  shows "acceptPacket p (packet @ replicate n 0) r = Some (Some packet)"
proof -
  have "packet \<noteq> []" using assms by (auto simp: ipFrom_def ip_consts)
  then have hd: "hd (packet @ replicate n 0) = hd packet" by simp
  have len6: "unat (w + word_of_nat ipv6HeaderLen) = unat w + ipv6HeaderLen" if "unat w + ipv6HeaderLen < 2 ^ 16" for w :: u16
    using that by (subst unat_word_ariths) (simp add: unat_of_nat ip_consts)
  consider "drop_bit 4 (hd packet) = 4" "ipv4HeaderLen \<le> length packet" | "drop_bit 4 (hd packet) = 6" "ipv6HeaderLen \<le> length packet"
    using assms by (auto simp: ipFrom_def)
  then show ?thesis
  proof cases
    case 1
    then show ?thesis
      using assms hd by (auto simp: acceptPacket_def ipFrom_def ip_consts get_be16_append subslice_append_left Let_def)
  next
    case 2
    then show ?thesis
      using assms hd len6 [of "get_be16 (drop IPv6offsetPayloadLength packet)"]
      by (auto simp: acceptPacket_def ipFrom_def ip_consts get_be16_append subslice_append_left Let_def)
  qed
qed

text \<open>What the encryption worker makes of an element.\<close>

lemma encryptElem_spec:
  assumes "encryptElem C e d = Some (e', d')" and "oeKeypair e = Some k"
  obtains msgType pad where "generateHeader (hdrTransport d) d = Some (msgType, d')"
    and "oePacket e' = put_le32 msgType @ put_le32 (kpRemoteIndex (keypairs d k)) @ put_le64 (oeNonce e) @
      aeadSeal C (kpSend (keypairs d k)) (transportNonce (oeNonce e)) (oePacket e @ replicate pad 0) []"
    and "pad \<le> 16"
proof -
  obtain msgType d1 where g: "generateHeader (hdrTransport d) d = Some (msgType, d1)"
    using assms by (auto simp: encryptElem_def split: bind_splits)
  then have k: "keypairs d1 = keypairs d" "mtu d1 = mtu d" by (auto simp: generateHeader_def)
  show ?thesis
    using assms g k by (intro that [of msgType "nat (calculatePaddingSize (int (length (oePacket e))) (mtu d))"])
      (auto simp: encryptElem_def Let_def PaddingMultiple_def split: if_splits bind_splits)
qed

lemma generateHeader_valid:
  "generateHeader h d = Some (v, d') \<Longrightarrow> mhOrdered h \<Longrightarrow> Validate h v"
  using Generate_in_range Generate_full by (fastforce simp: generateHeader_def)


text \<open>A device with an established session with itself and one allowed prefix, for witnesses.\<close>

definition toySession :: Device where
  "toySession = upKeypair 0 (\<lambda>k. k\<lparr>created := clock toyDevice, kpRemoteIndex := 5, kpLocalIndex := 5\<rparr>)
     (upPeer 0 (\<lambda>q. q\<lparr>kpCurrent := Some 0\<rparr>) (toyDevice\<lparr>nextKp := 1,
       indexTable := [5 \<mapsto> \<lparr>entryPeer = Some 0, entryHandshake = None, entryKeypair = Some 0\<rparr>],
       allowedips := the (Insert emptyAllowedIPs \<lparr>Addr = [10, 0, 0, 0], Bits = 8\<rparr> 0), padTransport := 3\<rparr>))"

definition toyPacket :: bytes where
  "toyPacket = [0x45, 0, 0, 21, 0, 0, 0, 0, 64, 17, 0, 0, 10, 0, 0, 1, 10, 0, 0, 2, 7]"


end
