(* ===== verification/System.thy ===== *)
theory System
  imports Monotone Transport "HOL-Library.Code_Target_Nat"
begin

text \<open>
  The device as a whole: every goroutine, every timer and every call of the public API is one step of the
  state, in any order. The invariants of the reachable states are the properties at the end.
\<close>

section \<open>Steps\<close>

inductive step :: "Crypto \<Rightarrow> Net \<Rightarrow> Device \<Rightarrow> Device \<Rightarrow> bool" for C N where
  tick: "clock d \<le> t \<Longrightarrow> step C N d (d\<lparr>clock := t\<rparr>)"
| fire: "step C N d (upPeer p (setTimer n (timerFire (clock d) (getTimer n (peers d p)))) d)"
| callback: "runTimer C N n p d = Some d' \<Longrightarrow> step C N d d'"
| readTUN: "RoutineReadFromTUN C N packets d = Some d' \<Longrightarrow> step C N d d'"
| encrypt: "RoutineEncryption C p i d = Some d' \<Longrightarrow> step C N d d'"
| transmit: "RoutineSequentialSender C N p d = Some d' \<Longrightarrow> step C N d d'"
| incoming: "step C N d (RoutineReceiveIncoming batch d)"
| decrypt: "step C N d (RoutineDecryption C p i d)"
| handshaking: "RoutineHandshake C N d = Some d' \<Longrightarrow> step C N d d'"
| deliver: "RoutineSequentialReceiver C N p d = Some d' \<Longrightarrow> step C N d d'"
| tunEvents: "RoutineTUNEventReader C N ev d = Some d' \<Longrightarrow> step C N d d'"
| cleanup: "step C N d (d\<lparr>limiter := rateTick (clock d) (limiter d)\<rparr>)"
| configure: "IpcSet C N text d = Some (e, d') \<Longrightarrow> step C N d d'"
| up: "Up C N d = Some (e, d') \<Longrightarrow> step C N d d'"
| down: "Down C N d = Some (e, d') \<Longrightarrow> step C N d d'"
| close: "deviceClose C N d = Some d' \<Longrightarrow> step C N d d'"
| setKey: "SetPrivateKey C N sk d = Some d' \<Longrightarrow> step C N d d'"
| removePeer: "RemovePeer C N pk d = Some d' \<Longrightarrow> step C N d d'"
| removeAll: "RemoveAllPeers C N d = Some d' \<Longrightarrow> step C N d d'"
| keepalives: "SendKeepalivesToPeersWithCurrentKeypair C N d = Some d' \<Longrightarrow> step C N d d'"
| roaming: "DisableSomeRoamingForBrokenMobileSemantics d = Some d' \<Longrightarrow> step C N d d'"
| setMark: "BindSetMark N fwm d = Some (e, d') \<Longrightarrow> step C N d d'"
| rebind: "BindUpdate N d = Some (e, d') \<Longrightarrow> step C N d d'"

inductive reachable :: "Crypto \<Rightarrow> Net \<Rightarrow> Device \<Rightarrow> bool" for C N where
  new: "reachable C N (NewDevice tunMTU now t)"
| later: "reachable C N d \<Longrightarrow> step C N d d' \<Longrightarrow> reachable C N d'"

inductive later_than :: "Crypto \<Rightarrow> Net \<Rightarrow> Device \<Rightarrow> Device \<Rightarrow> bool" for C N d where
  now: "later_than C N d d"
| onward: "later_than C N d d' \<Longrightarrow> step C N d' d'' \<Longrightarrow> later_than C N d d''"

section \<open>Every step keeps the invariant\<close>

lemma fire_sane: "sane d (upPeer p (setTimer n (timerFire now (getTimer n (peers d p)))) d)"
  by (rule setTimer_sane) (auto simp: timerFire_def split: option.splits if_splits)

lemma SendKeepalives_sane:
  assumes "SendKeepalivesToPeersWithCurrentKeypair C N d = Some d'"
  shows "sane d d'"
proof (cases "isUp d")
  case True
  then have "forPeers (keyMap d) (\<lambda>pk p d. case kpCurrent (peers d p) of None \<Rightarrow> Some d
    | Some k \<Rightarrow> if \<not> created (keypairs d k) + RejectAfterTime < clock d then SendKeepalive C N p d else Some d) d = Some d'"
    using assms unfolding SendKeepalivesToPeersWithCurrentKeypair_def by simp
  then show ?thesis by (rule forPeers_sane) (auto dest: SendKeepalive_sane split: option.splits if_splits)
qed (use assms in \<open>simp add: SendKeepalivesToPeersWithCurrentKeypair_def\<close>)

lemma DisableSomeRoaming_sane:
  assumes "DisableSomeRoamingForBrokenMobileSemantics d = Some d'"
  shows "sane d d'"
proof -
  have "sane (d\<lparr>brokenRoaming := True\<rparr>) d'"
    by (rule forPeers_sane [OF assms [unfolded DisableSomeRoamingForBrokenMobileSemantics_def]])
      (auto intro!: sane_upPeer simp: sane_frame)
  then show ?thesis by (rule sane_trans [OF sane_settings(4)])
qed

lemmas step_sane = fire_sane runTimer_sane RoutineReadFromTUN_sane RoutineEncryption_sane RoutineSequentialSender_sane
  RoutineReceiveIncoming_sane RoutineDecryption_sane RoutineHandshake_sane RoutineSequentialReceiver_sane sane_settings(6)
  SendKeepalives_sane DisableSomeRoaming_sane BindSetMark_sane BindUpdate_sane

text \<open>A TUN event sets the MTU and then brings the device up or down.\<close>

lemma RoutineTUNEventReader_cases:
  assumes "RoutineTUNEventReader C N ev d = Some d'"
  obtains d1 d2 where "sane d d1" "d2 = d1 \<or> (\<exists>e. changeState C N deviceStateUp d1 = Some (e, d2))"
    "d' = d2 \<or> (\<exists>e. changeState C N deviceStateDown d2 = Some (e, d'))"
proof -
  define d1 where "d1 = (case evMTU ev of Some (Some v) \<Rightarrow> if v < 0 then d else d\<lparr>mtu := (if v > MaxContentSize then MaxContentSize else v)\<rparr> | _ \<Rightarrow> d)"
  have s: "sane d d1" by (simp add: d1_def sane_settings split: option.splits)
  show thesis
  proof (cases "d' = d1")
    case True
    then show thesis using s that by blast
  next
    case False
    then obtain d2 where "(if evUp ev then map_option snd (Up C N d1) else Some d1) = Some d2"
        "(if evDown ev then map_option snd (Down C N d2) else Some d2) = Some d'"
      using assms unfolding RoutineTUNEventReader_def
      by (auto simp: Let_def d1_def split: option.splits if_splits elim!: bind_SomeE)
    then show thesis using that [OF s, of d2] by (auto simp: Up_def Down_def split: if_splits)
  qed
qed

lemma clock_inv: "deviceInv C (d\<lparr>clock := t\<rparr>) = deviceInv C d"
  by (simp add: deviceInv_def base_def nonceInv_def queueInv_def quietInv_def mapInv_def routeInv_def running_def isUp_def isClosed_def)

lemma step_inv: "step C N d d' \<Longrightarrow> deviceInv C d \<Longrightarrow> deviceInv C d'"
proof (induction rule: step.induct)
  case (tunEvents ev d d')
  obtain d1 d2 where r: "sane d d1" "d2 = d1 \<or> (\<exists>e. changeState C N deviceStateUp d1 = Some (e, d2))"
      "d' = d2 \<or> (\<exists>e. changeState C N deviceStateDown d2 = Some (e, d'))"
    by (rule RoutineTUNEventReader_cases [OF tunEvents.hyps])
  have "deviceInv C d2" using r(2) sane_deviceInv [OF r(1) tunEvents.prems] changeState_deviceInv by blast
  then show ?case using r(3) changeState_deviceInv by blast
next
  case (setKey sk d d')
  then show ?case using SetPrivateKey_base [of C d N sk d'] by (auto simp: deviceInv_def isUp_def isClosed_def)
next
  case (removeAll d d')
  then show ?case using RemoveAllPeers_base [of C d N d'] by (simp add: deviceInv_def)
qed (auto simp: clock_inv Up_def Down_def intro: step_sane [THEN sane_deviceInv] IpcSet_inv changeState_deviceInv RemovePeer_inv
    dest: deviceClose_deviceInv)

lemma step_fwd: "step C N d d' \<Longrightarrow> fwd d d'"
proof (induction rule: step.induct)
  case (tick d t)
  show ?case by (simp add: fwd_def stampLe_def isClosed_def)
next
  case (tunEvents ev d d')
  obtain d1 d2 where r: "sane d d1" "d2 = d1 \<or> (\<exists>e. changeState C N deviceStateUp d1 = Some (e, d2))"
      "d' = d2 \<or> (\<exists>e. changeState C N deviceStateDown d2 = Some (e, d'))"
    by (rule RoutineTUNEventReader_cases [OF tunEvents.hyps])
  have "fwd d1 d2" "fwd d2 d'" using r(2,3) changeState_fwd by auto
  then show ?case by (rule fwd_trans [OF fwd_trans [OF sane_fwd [OF r(1)]]])
qed (auto simp: Up_def Down_def intro: step_sane [THEN sane_fwd] IpcSet_fwd changeState_fwd RemovePeer_fwd RemoveAllPeers_fwd
    SetPrivateKey_fwd deviceClose_fwd)

lemma NewDevice_inv: "deviceInv C (NewDevice tunMTU now t)"
  by (simp add: deviceInv_def base_def nonceInv_def queueInv_def quietInv_def mapInv_def routeInv_def running_def isClosed_def NewDevice_def
      zeroPeer_def zeroKeypair_def slots_def idle_timers stoppedTimer_def emptyAllowedIPs_inv emptyAllowedIPs_abs)

lemma reachable_inv: "reachable C N d \<Longrightarrow> deviceInv C d"
  by (induction rule: reachable.induct) (auto intro: NewDevice_inv step_inv)

lemma later_inv: "later_than C N d d' \<Longrightarrow> deviceInv C d \<Longrightarrow> deviceInv C d'"
  by (induction rule: later_than.induct) (auto intro: step_inv)

lemma later_fwd: "later_than C N d d' \<Longrightarrow> fwd d d'"
  by (induction rule: later_than.induct) (auto intro: fwd_trans step_fwd)

section \<open>Accepting an initiation\<close>

text \<open>The values an initiation is checked against before its timestamp.\<close>

definition initiationPeer :: "Crypto \<Rightarrow> MessageInitiation \<Rightarrow> bytes \<Rightarrow> bytes \<Rightarrow> bytes option" where
  "initiationPeer C msg sk pub = Option.bind (sharedSecret C sk (miEphemeral msg)) (\<lambda>ss.
     aeadOpen C (snd (KDF2 C (mixKey C (InitialChainKey C) (miEphemeral msg)) ss)) ZeroNonce (miStatic msg)
       (mixHash C (mixHash C (InitialHash C) pub) (miEphemeral msg)))"

definition initiationStamp :: "Crypto \<Rightarrow> MessageInitiation \<Rightarrow> bytes \<Rightarrow> bytes \<Rightarrow> bytes \<Rightarrow> bytes option" where
  "initiationStamp C msg sk pub secret = Option.bind (sharedSecret C sk (miEphemeral msg)) (\<lambda>ss.
     aeadOpen C (snd (KDF2 C (fst (KDF2 C (mixKey C (InitialChainKey C) (miEphemeral msg)) ss)) secret)) ZeroNonce (miTimestamp msg)
       (mixHash C (mixHash C (mixHash C (InitialHash C) pub) (miEphemeral msg)) (miStatic msg)))"

lemma ConsumeMessageInitiation_accepts:
  assumes "ConsumeMessageInitiation C msg d = (Some p, d')"
  shows "\<exists>pk ts. initiationPeer C msg (privateKey d) (publicKey d) = Some pk \<and> LookupPeer pk d = Some p \<and>
    initiationStamp C msg (privateKey d) (publicKey d) (precomputedStaticStatic (handshake (peers d p))) = Some ts \<and>
    After ts (lastStamp d p) \<and> lastStamp d' p = ts"
  using assms unfolding ConsumeMessageInitiation_def Let_def
  by (auto simp: initiationPeer_def initiationStamp_def setHandshake_def upHandshake_def upPeer_def
      split: if_splits option.splits prod.splits)

lemma After_asym: "After a b \<Longrightarrow> \<not> After b a" "\<not> After a a"
proof -
  have "bytesGreater a b \<Longrightarrow> \<not> bytesGreater b a" for a b
    by (induction a b rule: bytesGreater.induct) auto
  then show "After a b \<Longrightarrow> \<not> After b a" "\<not> After a a" by (auto simp: After_def)
qed

section \<open>A device that is configured and up\<close>

definition toyNet :: Net where
  "toyNet = \<lparr>bindSend = (\<lambda>_. BindOK), bindOpen = (\<lambda>_ p. Some p), bindClose = (\<lambda>_. True), bindSetMark = (\<lambda>_ _. True), startRouteListener = (\<lambda>_. True)\<rparr>"

definition toyConf :: string where
  "toyConf = ''public_key='' @ hexEncode (replicate 32 3) @ newline @ ''allowed_ip=10.0.0.0/8'' @ newline"

definition toyNew :: Device where
  "toyNew = NewDevice (Some 1420) (1700000000 * second) (\<lambda>i. i mod 7)"

definition toyStart :: "Device option" where
  "toyStart = do { (_, d) \<leftarrow> IpcSet toyCrypto toyNet toyConf toyNew; (_, d) \<leftarrow> Up toyCrypto toyNet d; Some d }"

definition toyUp :: Device where
  "toyUp = the toyStart"

definition toyInitiation :: MessageInitiation where
  "toyInitiation = \<lparr>miType = MessageInitiationType, miSender = 7, miEphemeral = replicate 32 5, miStatic = replicate 32 3 @ replicate 16 0,
     miTimestamp = replicate 12 9 @ replicate 16 0, miMAC1 = replicate 16 1, miMAC2 = replicate 16 0\<rparr>"

lemma toyStart_facts:
  "map_option (\<lambda>d. (keyMap d, isRunning (peers d 0), devState d, (privateKey d, publicKey d), clock d,
     (precomputedStaticStatic (handshake (peers d 0)), lastTimestamp (handshake (peers d 0)), lastInitiationConsumption (handshake (peers d 0)),
     fst (ConsumeMessageInitiation toyCrypto toyInitiation d)))) toyStart =
   Some ([(replicate 32 3, 0)], True, deviceStateUp, (zeroKey, zeroKey), 1700000000 * second, (replicate 32 1, replicate 12 0, zeroTime, Some 0))"
  by code_simp

lemma toyStart_toyUp: "toyStart = Some toyUp"
proof -
  have "toyStart \<noteq> None"
  proof
    assume n: "toyStart = None"
    show False using toyStart_facts unfolding n by simp
  qed
  then show ?thesis unfolding toyUp_def by (rule option.collapse [symmetric])
qed

lemma toyUp_reachable: "reachable toyCrypto toyNet toyUp"
proof -
  obtain e d e' where "IpcSet toyCrypto toyNet toyConf toyNew = Some (e, d)" "Up toyCrypto toyNet d = Some (e', toyUp)"
    using toyStart_toyUp by (auto simp: toyStart_def bind_eq_Some_conv split: prod.splits)
  then show ?thesis
    using reachable.new [of toyCrypto toyNet "Some 1420" "1700000000 * second" "\<lambda>i. i mod 7"]
    unfolding toyNew_def by (blast intro: reachable.later step.configure step.up)
qed

lemma toyUp_facts:
  "keyMap toyUp = [(replicate 32 3, 0)]" "isRunning (peers toyUp 0)" "devState toyUp = deviceStateUp"
  "privateKey toyUp = zeroKey" "publicKey toyUp = zeroKey" "clock toyUp = 1700000000 * second"
  "precomputedStaticStatic (handshake (peers toyUp 0)) = replicate 32 1" "lastTimestamp (handshake (peers toyUp 0)) = replicate 12 0"
  "lastInitiationConsumption (handshake (peers toyUp 0)) = zeroTime" "fst (ConsumeMessageInitiation toyCrypto toyInitiation toyUp) = Some 0"
  using toyStart_facts [unfolded toyStart_toyUp] by simp_all

section \<open>Properties of the reachable states\<close>

text \<open>C1: In every reachable state of the device no nonce has been assigned twice under one key pair, and every nonce assigned is below the limit after which a key pair may not be used.\<close>

theorem nonces_never_reused:
  assumes "reachable C N d"
  shows "distinct (usedNonces d) \<and> (\<forall>k n. (k, n) \<in> set (usedNonces d) \<longrightarrow> n < sendNonce (keypairs d k) \<and> n < RejectAfterMessages)"
proof -
  have i: "nonceInv d" using reachable_inv [OF assms] by (simp add: deviceInv_def base_def)
  have "n < sendNonce (keypairs d k) \<and> n < RejectAfterMessages" if "(k, n) \<in> set (usedNonces d)" for k n
    using i that less_le_trans [of n "sendNonce (keypairs d k)"] by (auto simp: nonceInv_def)
  then show ?thesis using i by (simp add: nonceInv_def)
qed

theorem nonces_never_reused_witness:
  "reachable toyCrypto toyNet toyUp \<and> distinct (usedNonces toyUp)"
  using nonces_never_reused [OF toyUp_reachable] toyUp_reachable by simp

text \<open>C3: A handshake initiation that a peer has accepted is never accepted for that peer again: not after any sequence of steps of the device, however it is configured and whatever it receives in between, as long as its own key pair is the same.\<close>

theorem initiation_never_accepted_twice:
  assumes "reachable C N d" and "ConsumeMessageInitiation C msg d = (Some p, d1)" and "later_than C N d1 d2"
    and "privateKey d2 = privateKey d" and "publicKey d2 = publicKey d"
  shows "fst (ConsumeMessageInitiation C msg d2) \<noteq> Some p"
proof
  assume "fst (ConsumeMessageInitiation C msg d2) = Some p"
  then obtain d3 where again: "ConsumeMessageInitiation C msg d2 = (Some p, d3)" by (metis prod.collapse)
  have i: "deviceInv C d" by (rule reachable_inv [OF assms(1)])
  have i1: "deviceInv C d1" by (rule sane_deviceInv [OF ConsumeMessageInitiation_sane [OF assms(2)] i])
  have i2: "deviceInv C d2" by (rule later_inv [OF assms(3) i1])
  obtain pk ts where a: "initiationPeer C msg (privateKey d) (publicKey d) = Some pk" "LookupPeer pk d = Some p"
      "initiationStamp C msg (privateKey d) (publicKey d) (precomputedStaticStatic (handshake (peers d p))) = Some ts" "lastStamp d1 p = ts"
    using ConsumeMessageInitiation_accepts [OF assms(2)] by blast
  obtain pk2 ts2 where b: "initiationPeer C msg (privateKey d2) (publicKey d2) = Some pk2" "LookupPeer pk2 d2 = Some p"
      "initiationStamp C msg (privateKey d2) (publicKey d2) (precomputedStaticStatic (handshake (peers d2 p))) = Some ts2" "After ts2 (lastStamp d2 p)"
    using ConsumeMessageInitiation_accepts [OF again] by blast
  have secret: "precomputedStaticStatic (handshake (peers e q)) = staticStatic C (privateKey e) k \<and> q < nextPeer e"
    if "deviceInv C e" "LookupPeer k e = Some q" for e k q
    using that by (auto simp: deviceInv_def base_def mapInv_def LookupPeer_def dest!: map_of_SomeD)
  have "ts2 = ts" using a b secret [OF i a(2)] secret [OF i2 b(2)] assms(4,5) by simp
  moreover have "p < nextPeer d1"
    using secret [OF i a(2)] sane_skel(8) [OF ConsumeMessageInitiation_sane [OF assms(2)]] by simp
  then have "stampLe ts (lastStamp d2 p)" using later_fwd [OF assms(3)] a(4) by (auto simp: fwd_def)
  ultimately show False using b(4) After_asym by (auto simp: stampLe_def)
qed

theorem initiation_never_accepted_twice_witness:
  "\<exists>d1. ConsumeMessageInitiation toyCrypto toyInitiation toyUp = (Some 0, d1) \<and>
     fst (ConsumeMessageInitiation toyCrypto toyInitiation (d1\<lparr>clock := clock d1 + second\<rparr>)) \<noteq> Some 0"
proof -
  obtain d1 where d1: "ConsumeMessageInitiation toyCrypto toyInitiation toyUp = (Some 0, d1)"
    using toyUp_facts(10) by (metis prod.collapse)
  have "later_than toyCrypto toyNet d1 (d1\<lparr>clock := clock d1 + second\<rparr>)"
    by (rule later_than.onward [OF later_than.now step.tick]) (simp add: second_def)
  from initiation_never_accepted_twice [OF toyUp_reachable d1 this]
  have "fst (ConsumeMessageInitiation toyCrypto toyInitiation (d1\<lparr>clock := clock d1 + second\<rparr>)) \<noteq> Some 0"
    using sane_skel(5,6) [OF ConsumeMessageInitiation_sane [OF d1]] by simp
  then show ?thesis using d1 by blast
qed
text \<open>C5: In every reachable state the table of peers is well formed: no static key and no peer is listed twice, there are at most MaxPeers of them, the own public key is never among them, and a listed peer is an allocated one that carries the key it is listed under together with the shared secret of that key and the current private key.\<close>

theorem peer_table_well_formed:
  assumes "reachable C N d"
  shows "distinct (map fst (keyMap d)) \<and> distinct (map snd (keyMap d)) \<and> length (keyMap d) \<le> MaxPeers \<and> LookupPeer (publicKey d) d = None \<and>
    (\<forall>pk p. LookupPeer pk d = Some p \<longrightarrow> p < nextPeer d \<and> remoteStatic (handshake (peers d p)) = pk \<and>
       precomputedStaticStatic (handshake (peers d p)) = staticStatic C (privateKey d) pk)"
proof -
  have "mapInv C d" using reachable_inv [OF assms] by (simp add: deviceInv_def base_def)
  then show ?thesis by (auto simp: mapInv_def LookupPeer_def map_of_eq_None_iff dest: map_of_SomeD)
qed

theorem peer_table_well_formed_witness:
  "LookupPeer (replicate 32 3) toyUp = Some 0 \<and> 0 < nextPeer toyUp \<and> remoteStatic (handshake (peers toyUp 0)) = replicate 32 3"
proof -
  have "LookupPeer (replicate 32 3) toyUp = Some 0" by (simp add: LookupPeer_def toyUp_facts)
  then show ?thesis using peer_table_well_formed [OF toyUp_reachable] by blast
qed



text \<open>C9: In every reachable state a lookup in the routing table does not panic, and the peer it finds is in the table of peers: no packet is routed to a peer that has been removed.\<close>

theorem routes_lead_to_peers:
  assumes "reachable C N d" and "length ip = 4 \<or> length ip = 16"
  shows "\<exists>r. Lookup (allowedips d) ip = Some r \<and> (\<forall>p. r = Some p \<longrightarrow> p \<in> snd ` set (keyMap d))"
proof -
  have t: "tableInv (allowedips d)" "ran (absTable (allowedips d)) \<subseteq> snd ` set (keyMap d)"
    using deviceInv_table [OF reachable_inv [OF assms(1)]] by auto
  have "Lookup (allowedips d) ip = Some (routeLookup (absTable (allowedips d)) ip)"
    using Lookup_refines [OF t(1)] assms(2) by (auto simp: validLen_def)
  moreover have "p \<in> snd ` set (keyMap d)" if "routeLookup (absTable (allowedips d)) ip = Some p" for p
    using that t(2) lpm_in_range [of _ "bitsOf ip" p] unfolding routeLookup_def ran_def by blast
  ultimately show ?thesis by blast
qed

theorem routes_lead_to_peers_witness:
  "\<exists>r. Lookup (allowedips toyUp) [10, 0, 0, 2] = Some r \<and> (\<forall>p. r = Some p \<longrightarrow> p \<in> snd ` set (keyMap toyUp))"
  by (rule routes_lead_to_peers [OF toyUp_reachable]) simp



text \<open>C11: A closed device stays closed: whatever is called or received afterwards, it has no peers and none of them runs.\<close>

theorem closed_is_final:
  assumes "reachable C N d" and "isClosed d" and "later_than C N d d'"
  shows "isClosed d' \<and> keyMap d' = [] \<and> \<not> isRunning (peers d' p)"
proof -
  have "deviceInv C d'" by (rule later_inv [OF assms(3) reachable_inv [OF assms(1)]])
  moreover have "isClosed d'" using later_fwd [OF assms(3)] assms(2) by (simp add: fwd_def)
  ultimately show ?thesis by (auto simp: deviceInv_def running_def isUp_def isClosed_def)
qed

theorem closed_is_final_witness:
  "\<exists>d d'. deviceClose toyCrypto toyNet toyNew = Some d \<and> Up toyCrypto toyNet d = Some (None, d') \<and> isClosed d' \<and> keyMap d' = []"
proof -
  have "map_option devState (deviceClose toyCrypto toyNet toyNew) = Some deviceStateClosed" by code_simp
  then obtain d where d: "deviceClose toyCrypto toyNet toyNew = Some d" "isClosed d" by (auto simp: isClosed_def)
  have r: "reachable toyCrypto toyNet d" using reachable.later [OF reachable.new step.close] d(1) unfolding toyNew_def by blast
  have u: "Up toyCrypto toyNet d = Some (None, d)" using d(2) by (simp add: Up_def changeState_def)
  have "later_than toyCrypto toyNet d d" by (rule later_than.onward [OF later_than.now step.up [OF u]])
  then show ?thesis using closed_is_final [OF r d(2)] d(1) u by blast
qed

end
