(* ===== verification/Checksum.thy ===== *)
theory Checksum
  imports Prelude
begin

text \<open>
  The Internet checksum of \<^verbatim>\<open>tun/checksum.go\<close>. It adds 64-bit words in the byte order of the machine, with the
  carry added back, and folds the result to 16 bits; \<open>big\<close> is the byte order of \<^verbatim>\<open>binary.NativeEndian\<close>.
\<close>

section \<open>The code\<close>

definition native64 :: "bool \<Rightarrow> bytes \<Rightarrow> u64" where
  "native64 big b = (if big then get_be64 b else get_le64 b)"

definition native32 :: "bool \<Rightarrow> bytes \<Rightarrow> u32" where
  "native32 big b = (if big then get_be32 b else get_le32 b)"

definition native16 :: "bool \<Rightarrow> bytes \<Rightarrow> u16" where
  "native16 big b = (if big then get_be16 b else get_be16 (rev (take 2 b)))"

definition putNative64 :: "bool \<Rightarrow> u64 \<Rightarrow> bytes" where
  "putNative64 big w = (if big then put_be64 w else put_le64 w)"

text \<open>\<^verbatim>\<open>bits.Add64\<close>\<close>

definition Add64 :: "u64 \<Rightarrow> u64 \<Rightarrow> u64 \<Rightarrow> u64 \<times> u64" where
  "Add64 x y carry = (x + y + carry, if unat x + unat y + unat carry \<ge> 2 ^ 64 then 1 else 0)"

text \<open>A run of additions that hand the carry on, and the carry added back at its end.\<close>

fun addRun :: "u64 list \<Rightarrow> u64 \<times> u64 \<Rightarrow> u64 \<times> u64" where
  "addRun [] s = s"
| "addRun (w # ws) (ac, carry) = addRun ws (Add64 ac w carry)"

definition addBack :: "u64 list \<Rightarrow> u64 \<Rightarrow> u64" where
  "addBack ws ac = (case addRun ws (ac, 0) of (ac, carry) \<Rightarrow> ac + carry)"

definition words64 :: "bool \<Rightarrow> nat \<Rightarrow> bytes \<Rightarrow> u64 list" where
  "words64 big n b = map (\<lambda>i. native64 big (subslice (8 * i) (8 * i + 8) b)) [0..<n]"

fun sumBlocks :: "bool \<Rightarrow> bytes \<Rightarrow> u64 \<Rightarrow> bytes \<times> u64" where
  "sumBlocks big b ac = (if length b \<ge> 128 then sumBlocks big (drop 128 b) (addBack (words64 big 16 b) ac) else (b, ac))"

definition sumTail :: "bool \<Rightarrow> nat \<Rightarrow> bytes \<times> u64 \<Rightarrow> bytes \<times> u64" where
  "sumTail big n s = (case s of (b, ac) \<Rightarrow> if length b \<ge> 8 * n then (drop (8 * n) b, addBack (words64 big n b) ac) else (b, ac))"

definition sum4 :: "bool \<Rightarrow> bytes \<times> u64 \<Rightarrow> bytes \<times> u64" where
  "sum4 big s = (case s of (b, ac) \<Rightarrow> if length b \<ge> 4 then (drop 4 b, addBack [ucast (native32 big (take 4 b))] ac) else (b, ac))"

definition sum2 :: "bool \<Rightarrow> bytes \<times> u64 \<Rightarrow> bytes \<times> u64" where
  "sum2 big s = (case s of (b, ac) \<Rightarrow> if length b \<ge> 2 then (drop 2 b, addBack [ucast (native16 big (take 2 b))] ac) else (b, ac))"

definition sum1 :: "bool \<Rightarrow> bytes \<times> u64 \<Rightarrow> u64" where
  "sum1 big s = (case s of (b, ac) \<Rightarrow> if length b = 1 then addBack [ucast (native16 big [hd b, 0])] ac else ac)"

definition checksumNoFold :: "bool \<Rightarrow> bytes \<Rightarrow> u64 \<Rightarrow> u64" where
  "checksumNoFold big b initial =
     (let ac = get_be64 (putNative64 big initial);
          ac = sum1 big (sum2 big (sum4 big (sumTail big 1 (sumTail big 2 (sumTail big 4 (sumTail big 8 (sumBlocks big b ac)))))))
      in get_be64 (putNative64 big ac))"

definition fold16 :: "u64 \<Rightarrow> u64" where
  "fold16 ac = drop_bit 16 ac + (ac AND 0xFFFF)"

definition checksum :: "bool \<Rightarrow> bytes \<Rightarrow> u64 \<Rightarrow> u16" where
  "checksum big b initial = ucast (fold16 (fold16 (fold16 (fold16 (checksumNoFold big b initial)))))"

definition pseudoHeaderChecksumNoFold :: "bool \<Rightarrow> u8 \<Rightarrow> bytes \<Rightarrow> bytes \<Rightarrow> u16 \<Rightarrow> u64" where
  "pseudoHeaderChecksumNoFold big protocol srcAddr dstAddr totalLen =
     (let sum = checksumNoFold big srcAddr 0;
          sum = checksumNoFold big dstAddr sum;
          sum = checksumNoFold big [0, protocol] sum
      in checksumNoFold big (put_be16 totalLen) sum)"

declare sumBlocks.simps [simp del]

text \<open>
  Its users in \<^verbatim>\<open>tun/offload_linux.go\<close>: the check of a segment before coalescing, and the completion of the
  checksum of a packet that the kernel hands over with the pseudo-header sum in the field. A slice out of range is
  \<open>None\<close>, the capacity of a buffer being its length; the positions are 16 bits wide.
\<close>

definition ipv4SrcAddrOffset :: nat where "ipv4SrcAddrOffset = 12"
definition ipv6SrcAddrOffset :: nat where "ipv6SrcAddrOffset = 8"

definition segmentSum :: "bool \<Rightarrow> bytes \<Rightarrow> u8 \<Rightarrow> u8 \<Rightarrow> bool \<Rightarrow> u64 option" where
  "segmentSum big pkt iphLen proto isV6 =
     (let (srcAddrAt, addrSize) = (if isV6 then (ipv6SrcAddrOffset, 16) else (ipv4SrcAddrOffset, 4));
          lenForPseudo = word_of_int (int (length pkt) - int (unat iphLen))
      in if length pkt < srcAddrAt + addrSize * 2 then None
         else Some (pseudoHeaderChecksumNoFold big proto (subslice srcAddrAt (srcAddrAt + addrSize) pkt)
                (subslice (srcAddrAt + addrSize) (srcAddrAt + addrSize * 2) pkt) lenForPseudo))"

definition checksumValid :: "bool \<Rightarrow> bytes \<Rightarrow> u8 \<Rightarrow> u8 \<Rightarrow> bool \<Rightarrow> bool option" where
  "checksumValid big pkt iphLen proto isV6 =
     (case segmentSum big pkt iphLen proto isV6 of None \<Rightarrow> None
      | Some cSum \<Rightarrow> if length pkt < unat iphLen then None
          else Some (NOT (checksum big (drop (unat iphLen) pkt) cSum) = 0))"

definition gsoNoneChecksum :: "bool \<Rightarrow> bytes \<Rightarrow> u16 \<Rightarrow> u16 \<Rightarrow> bytes option" where
  "gsoNoneChecksum big inp cSumStart cSumOffset =
     (let cSumAt = cSumStart + cSumOffset
      in if length inp < unat cSumAt + 2 then None
         else let initial = get_be16 (drop (unat cSumAt) inp);
                  inp = inp[unat cSumAt := 0, unat (cSumAt + 1) := 0]
              in if length inp < unat cSumStart then None
                 else Some (copy_at (unat cSumAt) (put_be16 (NOT (checksum big (drop (unat cSumStart) inp) (ucast initial)))) inp))"

section \<open>The sum of RFC 1071\<close>

text \<open>The 16-bit words in network byte order, an odd byte padded with zero, and the one's complement of their sum.\<close>

fun sumWords :: "bytes \<Rightarrow> nat" where
  "sumWords [] = 0"
| "sumWords [x] = 256 * unat x"
| "sumWords (x # y # b) = 256 * unat x + unat y + sumWords b"

function onesFold :: "nat \<Rightarrow> nat" where
  "onesFold n = (if n < 65536 then n else onesFold (n mod 65536 + n div 65536))"
  by auto
termination
proof (relation "measure id")
  fix n :: nat assume "\<not> n < 65536"
  then have "0 < n div 65536" by (simp add: div_greater_zero_iff)
  then have "n mod 65536 + n div 65536 < n" using div_mult_mod_eq [of n 65536] by linarith
  then show "(n mod 65536 + n div 65536, n) \<in> measure id" by simp
qed simp

declare onesFold.simps [simp del]

definition rfc1071 :: "bytes \<Rightarrow> nat \<Rightarrow> nat" where
  "rfc1071 b initial = onesFold (initial + sumWords b)"

text \<open>A UDP packet from 10.0.0.1 to 10.0.0.2 with one byte of payload and the pseudo-header sum in its checksum field.\<close>

definition udpPacket :: bytes where
  "udpPacket = [0x45, 0, 0, 29, 0, 0, 0, 0, 64, 17, 0, 0, 10, 0, 0, 1, 10, 0, 0, 2, 0, 53, 0, 53, 0, 9, 0x14, 0x1D, 65]"

section \<open>Words as numbers\<close>

text \<open>The number that bytes spell, the most significant first.\<close>

definition beNat :: "bytes \<Rightarrow> nat" where
  "beNat b = foldl (\<lambda>a x. 256 * a + unat x) 0 b"

lemma unat_small: "n < 2 ^ LENGTH('a) \<Longrightarrow> unat (word_of_nat n :: 'a::len word) = n"
  by (simp add: unat_of_nat take_bit_nat_eq_self)

lemma unat_join:
  fixes x :: "'a::len word" and y :: u8
  assumes "unat x < 2 ^ k" "k + 8 \<le> LENGTH('a)"
  shows "unat (push_bit 8 x OR ucast y) = 256 * unat x + unat y \<and> 256 * unat x + unat y < 2 ^ (k + 8)"
proof -
  have y: "unat y < 256" using unsigned_less [of y] by simp
  have b: "256 * unat x + unat y < 2 ^ (k + 8)" using assms(1) y by (simp add: power_add)
  also have "\<dots> \<le> 2 ^ LENGTH('a)" using assms(2) by (intro power_increasing) auto
  finally have t: "256 * unat x + unat y < 2 ^ LENGTH('a)" .
  have l: "8 \<le> LENGTH('a)" using assms(2) by simp
  have "push_bit 8 x OR ucast y = push_bit 8 x + ucast y"
    by (rule disjunctive_add [symmetric]) (auto simp: bit_simps dest: bit_imp_le_length)
  also have "\<dots> = word_of_nat (256 * unat x + unat y)"
    by (simp add: push_bit_eq_mult)
  finally have "unat (push_bit 8 x OR ucast y) = 256 * unat x + unat y" by (simp only: unat_small [OF t])
  with b show ?thesis by simp
qed

lemma unat_foldl_join:
  "8 * length b \<le> LENGTH('a) \<Longrightarrow>
   unat (foldl (\<lambda>x y. push_bit 8 x OR ucast y) 0 b :: 'a::len word) = beNat b \<and> beNat b < 2 ^ (8 * length b)"
proof (induction b rule: rev_induct)
  case (snoc y b)
  let ?x = "foldl (\<lambda>x y. push_bit 8 x OR ucast y) 0 b :: 'a word"
  have "unat ?x = beNat b" "unat ?x < 2 ^ (8 * length b)" using snoc by simp_all
  then show ?case using unat_join [of ?x "8 * length b" y] snoc.prems by (simp add: beNat_def add.commute)
qed (simp add: beNat_def)

lemma bytes8_cases:
  assumes "length b = 8"
  obtains p q r s t u v w where "b = [p, q, r, s, t, u, v, w :: u8]"
  using assms by (auto simp: length_Suc_conv numeral_eq_Suc)

lemma bytes4_cases:
  assumes "length b = 4"
  obtains p q r s where "b = [p, q, r, s :: u8]"
  using assms by (auto simp: length_Suc_conv numeral_eq_Suc)

lemma bytes2_cases:
  assumes "length b = 2"
  obtains p q where "b = [p, q :: u8]"
  using assms by (auto simp: length_Suc_conv numeral_eq_Suc)

lemma unat_get_be64: "length b = 8 \<Longrightarrow> unat (get_be64 b) = beNat b"
  using unat_foldl_join [of b, where 'a = 64] by (erule_tac bytes8_cases) (simp add: get_be64_def or.assoc)

lemma unat_get_be32: "length b = 4 \<Longrightarrow> unat (get_be32 b) = beNat b"
  using unat_foldl_join [of b, where 'a = 32] by (erule_tac bytes4_cases) (simp add: get_be32_def or.assoc)

lemma unat_get_be16: "length b = 2 \<Longrightarrow> unat (get_be16 b) = beNat b"
  using unat_foldl_join [of b, where 'a = 16] by (erule_tac bytes2_cases) (simp add: get_be16_def)

section \<open>Sums modulo 65535\<close>

text \<open>
  A sum of the code stands for a sum of network words when it is congruent to it modulo 65535, up to the factor that
  the byte order brings, and is zero only if that sum is.
\<close>

definition stands :: "nat \<Rightarrow> nat \<Rightarrow> nat \<Rightarrow> bool" where
  "stands k n m \<longleftrightarrow> n mod 65535 = k * m mod 65535 \<and> (n = 0 \<longleftrightarrow> m = 0)"

definition factor :: "bool \<Rightarrow> nat" where
  "factor big = (if big then 1 else 256)"

lemma stands_0 [simp]: "stands k 0 0"
  by (simp add: stands_def)

lemma stands_add: "stands k a m \<Longrightarrow> stands k b n \<Longrightarrow> stands k (a + b) (m + n)"
  unfolding stands_def by (metis add_is_0 distrib_left mod_add_eq)

lemma mod65535_shift: "(65536 * a + r) mod 65535 = (a + r) mod (65535 :: nat)"
proof -
  have "65536 * a + r = a + r + a * 65535" by simp
  then show ?thesis by (simp only: mod_mult_self1)
qed

lemma sumWords_append: "even (length a) \<Longrightarrow> sumWords (a @ b) = sumWords a + sumWords b"
  by (induction a rule: sumWords.induct) auto

lemma sumWords_eq_0: "sumWords b = 0 \<longleftrightarrow> (\<forall>x \<in> set b. x = 0)"
  by (induction b rule: sumWords.induct) (auto simp: unat_eq_0)

lemma foldl_be_mod:
  "even (length b) \<Longrightarrow> foldl (\<lambda>a x. 256 * a + unat x) n b mod 65535 = (n + sumWords b) mod 65535"
proof (induction b arbitrary: n rule: sumWords.induct)
  case (3 x y b)
  have "foldl (\<lambda>a x. 256 * a + unat x) n (x # y # b) mod 65535 = (65536 * n + (256 * unat x + unat y + sumWords b)) mod 65535"
    using 3 by (simp add: algebra_simps)
  then show ?case by (simp add: mod65535_shift)
qed simp_all

lemma beNat_mod: "even (length b) \<Longrightarrow> beNat b mod 65535 = sumWords b mod 65535"
  by (simp add: beNat_def foldl_be_mod)

lemma foldl_be_eq_0: "foldl (\<lambda>a x. 256 * a + unat x) n b = 0 \<longleftrightarrow> n = 0 \<and> (\<forall>x \<in> set b. x = 0)"
  by (induction b arbitrary: n) (auto simp: unat_eq_0)

lemma beNat_eq_0: "beNat b = 0 \<longleftrightarrow> (\<forall>x \<in> set b. x = 0)"
  by (simp add: beNat_def foldl_be_eq_0)

lemma sumWords_rev_mod: "even (length b) \<Longrightarrow> sumWords (rev b) mod 65535 = 256 * sumWords b mod 65535"
proof (induction b rule: sumWords.induct)
  case (3 x y b)
  have "sumWords (rev (x # y # b)) mod 65535 = (sumWords (rev b) + (256 * unat y + unat x)) mod 65535"
    using 3 by (simp add: sumWords_append)
  also have "\<dots> = (256 * sumWords b + (256 * unat y + unat x)) mod 65535"
    using 3 by (metis mod_add_left_eq even_Suc length_Cons)
  also have "\<dots> = (65536 * unat x + (256 * unat y + 256 * sumWords b)) mod 65535"
    by (simp only: mod65535_shift) (simp add: ac_simps)
  finally show ?case by (simp add: algebra_simps)
qed simp_all

lemma stands_be: "even (length b) \<Longrightarrow> stands 1 (beNat b) (sumWords b)"
  by (simp add: stands_def beNat_mod beNat_eq_0 sumWords_eq_0)

lemma stands_le: "even (length b) \<Longrightarrow> stands 256 (beNat (rev b)) (sumWords b)"
  by (simp add: stands_def beNat_mod sumWords_rev_mod beNat_eq_0 sumWords_eq_0)

lemma stands_native:
  "length b = 8 \<Longrightarrow> stands (factor big) (unat (native64 big b)) (sumWords b)"
  "length c = 4 \<Longrightarrow> stands (factor big) (unat (native32 big c)) (sumWords c)"
  "length d = 2 \<Longrightarrow> stands (factor big) (unat (native16 big d)) (sumWords d)"
  by (auto simp: native64_def native32_def native16_def get_le64_def get_le32_def factor_def
      unat_get_be64 unat_get_be32 unat_get_be16 stands_be [unfolded One_nat_def] stands_le)

section \<open>The accumulator\<close>

text \<open>The accumulator and the carry together never pass \<open>2\<^sup>6\<^sup>4 - 1\<close>, so adding the carry back does not wrap.\<close>

lemma Add64_stands:
  assumes "unat ac + unat carry < 2 ^ 64" "stands k (unat ac + unat carry) m" "stands k (unat w) n"
    "Add64 ac w carry = (ac', carry')"
  shows "unat ac' + unat carry' < 2 ^ 64 \<and> stands k (unat ac' + unat carry') (m + n)"
proof -
  let ?t = "unat ac + unat w + unat carry"
  have w: "unat w < 2 ^ 64" using unsigned_less [of w] by simp
  have st: "stands k ?t (m + n)" using stands_add [OF assms(2,3)] by (simp add: ac_simps)
  have ac': "unat ac' = ?t mod 2 ^ 64"
    using assms(4) by (auto simp: Add64_def unat_word_ariths mod_simps)
  show ?thesis
  proof (cases "?t < 2 ^ 64")
    case True
    then show ?thesis using assms(4) ac' st by (auto simp: Add64_def)
  next
    case False
    then have "unat carry' = 1" "?t mod 2 ^ 64 = ?t - 2 ^ 64"
      using assms(1,4) w by (auto simp: Add64_def le_mod_geq)
    then have v: "unat ac' + unat carry' = ?t - 2 ^ 64 + 1" using ac' by simp
    have "?t = ?t - 2 ^ 64 + 1 + 281479271743489 * 65535" using False by simp
    then have "(?t - 2 ^ 64 + 1) mod 65535 = ?t mod 65535" by (metis mod_mult_self1)
    then have "stands k (?t - 2 ^ 64 + 1) (m + n)" using st False by (auto simp: stands_def)
    moreover have "?t - 2 ^ 64 + 1 < 2 ^ 64" using assms(1) w by simp
    ultimately show ?thesis by (simp only: v)
  qed
qed

lemma addRun_stands:
  assumes "addRun ws (ac, carry) = (ac', carry')" "unat ac + unat carry < 2 ^ 64" "stands k (unat ac + unat carry) m"
    "list_all2 (\<lambda>w n. stands k (unat w) n) ws ns"
  shows "unat ac' + unat carry' < 2 ^ 64 \<and> stands k (unat ac' + unat carry') (m + sum_list ns)"
  using assms(4,1,2,3)
proof (induction ws ns arbitrary: ac carry m rule: list_all2_induct)
  case (Cons w ws n ns)
  obtain a c where a: "Add64 ac w carry = (a, c)" by fastforce
  have "unat a + unat c < 2 ^ 64 \<and> stands k (unat a + unat c) (m + n)"
    by (rule Add64_stands [OF Cons.prems(2,3) Cons.hyps(1) a])
  then show ?case using Cons.IH [of a c "m + n"] Cons.prems(1) a by (simp add: add.assoc)
qed auto

lemma addBack_stands:
  assumes "stands k (unat ac) m" "list_all2 (\<lambda>w n. stands k (unat w) n) ws ns"
  shows "stands k (unat (addBack ws ac)) (m + sum_list ns)"
proof -
  obtain a c where r: "addRun ws (ac, 0) = (a, c)" by fastforce
  have "unat ac < 2 ^ 64" using unsigned_less [of ac] by simp
  then have "unat a + unat c < 2 ^ 64 \<and> stands k (unat a + unat c) (m + sum_list ns)"
    using addRun_stands [OF r _ _ assms(2), of m] assms(1) by simp
  moreover have "unat a + unat c < 2 ^ 64 \<Longrightarrow> unat (a + c) = unat a + unat c"
    by (simp add: unat_word_ariths)
  ultimately show ?thesis by (simp add: addBack_def r)
qed

text \<open>Every stage of the sum keeps the total of what is summed and what is left to sum.\<close>

definition totals :: "nat \<Rightarrow> nat \<Rightarrow> bytes \<times> u64 \<Rightarrow> bool" where
  "totals k tot s \<longleftrightarrow> (\<exists>m. stands k (unat (snd s)) m \<and> m + sumWords (fst s) = tot)"

lemma totals_consume:
  assumes "totals k tot (b, ac)" "list_all2 (\<lambda>w n. stands k (unat w) n) ws ns"
    "sum_list ns = sumWords (take j b)" "even j" "j \<le> length b"
  shows "totals k tot (drop j b, addBack ws ac)"
proof -
  obtain m where m: "stands k (unat ac) m" "m + sumWords b = tot" using assms(1) by (auto simp: totals_def)
  have "sumWords b = sumWords (take j b) + sumWords (drop j b)"
    using sumWords_append [of "take j b" "drop j b"] assms(4,5) by simp
  then have "m + sum_list ns + sumWords (drop j b) = tot" using m(2) assms(3) by simp
  then show ?thesis using addBack_stands [OF m(1) assms(2)] unfolding totals_def by auto
qed

lemma sum_words64:
  "8 * n \<le> length b \<Longrightarrow> (\<Sum>i\<leftarrow>[0..<n]. sumWords (subslice (8 * i) (8 * i + 8) b)) = sumWords (take (8 * n) b)"
proof (induction n)
  case (Suc n)
  have "take (8 * Suc n) b = take (8 * n) b @ subslice (8 * n) (8 * n + 8) b"
    by (simp add: subslice_def add.commute flip: take_add)
  then show ?case using Suc by (simp add: sumWords_append)
qed simp

lemma totals_words64:
  assumes "totals (factor big) tot (b, ac)" "8 * n \<le> length b"
  shows "totals (factor big) tot (drop (8 * n) b, addBack (words64 big n b) ac)"
proof (rule totals_consume [OF assms(1) _ sum_words64 [OF assms(2)]])
  show "list_all2 (\<lambda>w n. stands (factor big) (unat w) n) (words64 big n b)
          (map (\<lambda>i. sumWords (subslice (8 * i) (8 * i + 8) b)) [0..<n])"
    using assms(2) by (auto simp: words64_def list_all2_map1 list_all2_map2 list_all2_same intro!: stands_native(1))
qed (use assms(2) in auto)

lemma totals_sumBlocks: "totals (factor big) tot (b, ac) \<Longrightarrow> totals (factor big) tot (sumBlocks big b ac)"
proof (induction big b ac rule: sumBlocks.induct)
  case (1 big b ac)
  show ?case
  proof (cases "128 \<le> length b")
    case True
    then have "totals (factor big) tot (drop 128 b, addBack (words64 big 16 b) ac)"
      using totals_words64 [OF 1(2), of 16] by simp
    then show ?thesis using 1(1) True by (simp add: sumBlocks.simps [of big b])
  qed (use 1(2) in \<open>simp add: sumBlocks.simps [of big b]\<close>)
qed

lemma totals_sumTail: "totals (factor big) tot s \<Longrightarrow> totals (factor big) tot (sumTail big n s)"
  by (auto simp: sumTail_def totals_words64 split: prod.split)

lemma unat_widen: "unat (ucast (v :: u32) :: u64) = unat v" "unat (ucast (w :: u16) :: u64) = unat w"
proof -
  have "unat v < 2 ^ 32" "unat w < 2 ^ 16" using unsigned_less [of v] unsigned_less [of w] by simp_all
  then have "unat v < 2 ^ 64" "unat w < 2 ^ 64" by simp_all
  then show "unat (ucast v :: u64) = unat v" "unat (ucast w :: u64) = unat w"
    by (simp_all add: unsigned_ucast_eq take_bit_nat_eq_self)
qed

lemma totals_sum4: "totals (factor big) tot s \<Longrightarrow> totals (factor big) tot (sum4 big s)"
  by (auto simp: sum4_def unat_widen split: prod.split
      intro!: totals_consume [where ns = "[sumWords (take 4 b)]" for b] stands_native(2))

lemma totals_sum2: "totals (factor big) tot s \<Longrightarrow> totals (factor big) tot (sum2 big s)"
  by (auto simp: sum2_def unat_widen split: prod.split
      intro!: totals_consume [where ns = "[sumWords (take 2 b)]" for b] stands_native(3))

text \<open>What is left before the last byte is shorter than two bytes, so nothing is left after it.\<close>

lemma length_stages:
  "length (fst (sumBlocks big b ac)) < 128"
  "length (fst s) < 16 * n \<Longrightarrow> length (fst (sumTail big n s)) < 8 * n"
  "length (fst s) < 8 \<Longrightarrow> length (fst (sum4 big s)) < 4"
  "length (fst s) < 4 \<Longrightarrow> length (fst (sum2 big s)) < 2"
proof -
  show "length (fst (sumBlocks big b ac)) < 128"
  proof (induction big b ac rule: sumBlocks.induct)
    case (1 big b ac)
    then show ?case by (cases "128 \<le> length b") (simp_all add: sumBlocks.simps [of big b])
  qed
qed (auto simp: sumTail_def sum4_def sum2_def split: prod.split)

lemma sum1_stands:
  assumes "totals (factor big) tot s" "length (fst s) < 2"
  shows "stands (factor big) (unat (sum1 big s)) tot"
proof -
  obtain b ac m where s: "s = (b, ac)" "stands (factor big) (unat ac) m" "m + sumWords b = tot"
    using assms(1) by (cases s) (auto simp: totals_def)
  consider "b = []" | x where "b = [x]" using assms(2) s(1) by (cases b) auto
  then show ?thesis
  proof cases
    case (2 x)
    have "stands (factor big) (unat (native16 big [x, 0])) (256 * unat x)"
      using stands_native(3) [of "[x, 0]" big] by simp
    then show ?thesis
      using addBack_stands [OF s(2), of "[ucast (native16 big [x, 0])]" "[256 * unat x]"] 2 s(1,3)
      by (simp add: sum1_def unat_widen)
  qed (use s in \<open>simp add: sum1_def\<close>)
qed

lemma swap_stands:
  "stands (factor big) (unat (get_be64 (putNative64 big w))) (unat w)"
proof -
  have "stands (factor big) (beNat (putNative64 big w)) (sumWords (put_be64 w))"
    by (simp add: putNative64_def factor_def put_le64_def stands_be [unfolded One_nat_def] stands_le)
  moreover have "stands 1 (unat w) (sumWords (put_be64 w))"
    using stands_be [of "put_be64 w"] unat_get_be64 [of "put_be64 w"] by simp
  ultimately show ?thesis using unat_get_be64 [of "putNative64 big w"]
    by (auto simp: putNative64_def stands_def mod_mult_right_eq) (metis mod_mult_right_eq)+
qed

lemma stands_factor_twice:
  assumes "stands (factor big) a m" "stands (factor big) c a" shows "stands 1 c m"
proof -
  have "c mod 65535 = factor big * (factor big * m) mod 65535"
    using assms unfolding stands_def by (metis mod_mult_right_eq)
  moreover have "65536 * m mod 65535 = m mod 65535" using mod65535_shift [of m 0] by simp
  ultimately show ?thesis using assms by (cases big) (auto simp: stands_def factor_def simp flip: mult.assoc)
qed

lemma checksumNoFold_stands: "stands 1 (unat (checksumNoFold big b initial)) (unat initial + sumWords b)"
proof -
  define s where "s = sum2 big (sum4 big (sumTail big 1 (sumTail big 2 (sumTail big 4 (sumTail big 8
    (sumBlocks big b (get_be64 (putNative64 big initial))))))))"
  have "totals (factor big) (unat initial + sumWords b) (b, get_be64 (putNative64 big initial))"
    using swap_stands [of big initial] by (auto simp: totals_def)
  then have t: "totals (factor big) (unat initial + sumWords b) s"
    unfolding s_def by (intro totals_sum2 totals_sum4 totals_sumTail totals_sumBlocks)
  have "length (fst (sumTail big 8 (sumBlocks big b (get_be64 (putNative64 big initial))))) < 64"
    using length_stages(2) [OF _, of _ 8] length_stages(1) by simp
  then have "length (fst s) < 2" unfolding s_def
    using length_stages(2) [of _ 4] length_stages(2) [of _ 2] length_stages(2) [of _ 1] by (simp add: length_stages(3,4))
  from stands_factor_twice [OF sum1_stands [OF t this] swap_stands] show ?thesis
    by (simp add: checksumNoFold_def Let_def s_def)
qed

section \<open>Folding\<close>

definition foldOnce :: "nat \<Rightarrow> nat" where
  "foldOnce n = n mod 65536 + n div 65536"

lemma len64: "LENGTH(64) = 64"
  by simp

lemma unat_fold16: "unat (fold16 ac) = foldOnce (unat ac)"
proof -
  have "unat ac < 2 ^ 64" using unsigned_less [of ac] by simp
  then have "foldOnce (unat ac) < 2 ^ 64" using div_mult_mod_eq [of "unat ac" 65536] unfolding foldOnce_def by linarith
  moreover have l: "unat (ac AND 0xFFFF) = unat ac mod 65536"
    using take_bit_eq_mask [of 16 "unat ac"] by (simp add: unsigned_and_eq take_bit_eq_mod mask_eq_exp_minus_1)
  moreover have h: "unat (drop_bit 16 ac) = unat ac div 65536"
    by (simp add: drop_bit_eq_div unat_div)
  ultimately show ?thesis unfolding fold16_def foldOnce_def unat_word_ariths(1) l h by (metis add.commute mod_less len64)
qed

text \<open>Four folds bring a 64-bit number below \<open>2\<^sup>1\<^sup>6\<close>; the bound after each is \<open>2\<^sup>4\<^sup>8\<close>, \<open>2\<^sup>3\<^sup>2\<close>, \<open>2\<^sup>1\<^sup>6\<close> and \<open>1\<close> plus 65534.\<close>

lemma foldOnce_le: "n \<le> c * 65536 + 65534 \<Longrightarrow> foldOnce n \<le> c + 65534"
proof -
  assume n: "n \<le> c * 65536 + 65534"
  show ?thesis
  proof (cases "n div 65536 = c")
    case True
    then show ?thesis using n div_mult_mod_eq [of n 65536] by (simp add: foldOnce_def)
  next
    case False
    moreover have "n div 65536 \<le> c" using less_mult_imp_div_less [of n "Suc c" 65536] n by simp
    moreover have "n mod 65536 \<le> 65535" using mod_less_divisor [of 65536 n] by linarith
    ultimately show ?thesis unfolding foldOnce_def by linarith
  qed
qed

lemma four_folds: "n < 2 ^ 64 \<Longrightarrow> foldOnce (foldOnce (foldOnce (foldOnce n))) < 65536"
proof -
  assume "n < 2 ^ 64"
  then have "n \<le> 2 ^ 48 * 65536 + 65534" by simp
  from foldOnce_le [OF this] have "foldOnce n \<le> 2 ^ 32 * 65536 + 65534" by simp
  from foldOnce_le [OF this] have "foldOnce (foldOnce n) \<le> 65536 * 65536 + 65534" by simp
  from foldOnce_le [OF this] have "foldOnce (foldOnce (foldOnce n)) \<le> 1 * 65536 + 65534" by simp
  from foldOnce_le [OF this] show ?thesis by simp
qed

lemma onesFold_foldOnce: "onesFold (foldOnce n) = onesFold n"
  by (cases "n < 65536") (simp_all add: foldOnce_def onesFold.simps [of n])

lemma onesFold_closed: "onesFold n = (if n = 0 then 0 else (n - 1) mod 65535 + 1)"
proof (induction n rule: onesFold.induct)
  case (1 n)
  show ?case
  proof (cases "n < 65536")
    case True
    then show ?thesis by (auto simp: onesFold.simps [of n])
  next
    case False
    then have p: "0 < n div 65536" by (simp add: div_greater_zero_iff)
    then have "n - 1 = (foldOnce n - 1) + n div 65536 * 65535"
      using div_mult_mod_eq [of n 65536] unfolding foldOnce_def by linarith
    then have "(n - 1) mod 65535 = (foldOnce n - 1) mod 65535" by (simp only: mod_mult_self1)
    then show ?thesis using 1 False p by (simp add: onesFold.simps [of n] foldOnce_def)
  qed
qed

lemma onesFold_stands: "stands 1 n m \<Longrightarrow> onesFold n = onesFold m"
proof -
  assume s: "stands 1 n m"
  show ?thesis
  proof (cases "m = 0")
    case False
    then obtain a c where "n = Suc a" "m = Suc c" using s by (auto simp: stands_def gr0_conv_Suc dest!: not0_implies_Suc)
    then show ?thesis using s by (auto simp: stands_def onesFold_closed nat_mod_eq_iff)
  qed (use s in \<open>simp add: stands_def\<close>)
qed

section \<open>The checksum\<close>

lemma checksum_onesFold: "unat (checksum big b initial) = onesFold (unat initial + sumWords b)"
proof -
  let ?n = "unat (checksumNoFold big b initial)"
  let ?f = "foldOnce (foldOnce (foldOnce (foldOnce ?n)))"
  have "?n < 2 ^ 64" using unsigned_less [of "checksumNoFold big b initial"] by simp
  then have f: "?f < 65536" by (rule four_folds)
  then have "unat (checksum big b initial) = ?f"
    by (simp add: checksum_def unsigned_ucast_eq unat_fold16 take_bit_nat_eq_self)
  also have "\<dots> = onesFold ?f" using f by (simp add: onesFold.simps [of ?f])
  also have "\<dots> = onesFold ?n" by (simp only: onesFold_foldOnce)
  also have "\<dots> = onesFold (unat initial + sumWords b)" by (rule onesFold_stands [OF checksumNoFold_stands])
  finally show ?thesis .
qed

text \<open>
  C20: The checksum is the one's complement sum of RFC 1071 on machines of either byte order: for every packet and every
  initial sum, adding 64-bit words in machine order, with the carries handed on and added back, swapping bytes at both
  ends and folding four times gives the end-around-carry sum of the 16-bit words in network order, an odd last byte
  padded with zero.
\<close>

theorem checksum_is_rfc1071: "unat (checksum big b initial) = rfc1071 b (unat initial)"
  by (simp add: checksum_onesFold rfc1071_def)

lemma checksumNoFold_append:
  assumes "stands 1 (unat initial) m" shows "stands 1 (unat (checksumNoFold big b initial)) (m + sumWords b)"
proof -
  have "stands 1 (unat initial + sumWords b) (m + sumWords b)"
    using stands_add [OF assms, of "sumWords b" "sumWords b"] by (simp add: stands_def)
  then show ?thesis using checksumNoFold_stands [of big b initial] by (simp add: stands_def)
qed

lemma sumWords_put_be16: "sumWords (put_be16 v @ c) = unat v + sumWords c"
proof -
  obtain p q where pq: "put_be16 v = [p, q]" by (simp add: put_be16_def)
  have "unat v = unat (get_be16 (put_be16 v))" by simp
  also have "\<dots> = 256 * unat p + unat q" using unat_get_be16 [of "put_be16 v"] by (simp add: pq beNat_def)
  finally show ?thesis by (simp add: pq)
qed

lemma unat_not16: "unat (NOT w) = 65535 - unat w" for w :: u16
proof -
  have "NOT w = - 1 - w" by (simp add: not_eq_complement)
  then show ?thesis using unat_sub [of w "- 1"] by (simp add: unsigned_minus_1_eq_mask mask_eq_exp_minus_1)
qed

lemma onesFold_complement: "onesFold (t + (65535 - onesFold t)) = 65535"
proof (cases t)
  case (Suc a)
  have "onesFold t = a mod 65535 + 1" using Suc by (simp add: onesFold_closed)
  moreover have "a mod 65535 < 65535" by simp
  ultimately have "t + (65535 - onesFold t) = Suc (65534 + a div 65535 * 65535)"
    using Suc div_mult_mod_eq [of a 65535] by linarith
  moreover have "(65534 + a div 65535 * 65535) mod 65535 = 65534" by simp
  ultimately show ?thesis by (simp only: onesFold_closed) simp
qed (simp add: onesFold_closed)

lemma pseudoHeader_stands:
  "stands 1 (unat (pseudoHeaderChecksumNoFold big protocol src dst len))
     (sumWords src + sumWords dst + unat protocol + unat len)"
proof -
  have "stands 1 (unat (pseudoHeaderChecksumNoFold big protocol src dst len))
      (0 + sumWords src + sumWords dst + sumWords [0, protocol] + sumWords (put_be16 len))"
    unfolding pseudoHeaderChecksumNoFold_def Let_def by (intro checksumNoFold_append) simp
  then show ?thesis using sumWords_put_be16 [of len "[]"] by simp
qed

text \<open>
  C34: The unfolded pseudo-header sum can stand as the initial sum of the transport checksum: continuing it over the
  segment gives the checksum of RFC 1071 over source, destination, zero, protocol, length and segment in one run, for
  addresses of whole 16-bit words.
\<close>

theorem pseudo_header_checksum:
  assumes "even (length srcAddr)" "even (length dstAddr)"
  shows "unat (checksum big b (pseudoHeaderChecksumNoFold big protocol srcAddr dstAddr totalLen)) =
         rfc1071 (srcAddr @ dstAddr @ [0, protocol] @ put_be16 totalLen @ b) 0"
proof -
  have "stands 1 (unat (pseudoHeaderChecksumNoFold big protocol srcAddr dstAddr totalLen) + sumWords b)
      (sumWords srcAddr + sumWords dstAddr + unat protocol + unat totalLen + sumWords b)"
    using stands_add [OF pseudoHeader_stands, of "sumWords b" "sumWords b"] by (simp add: stands_def)
  then show ?thesis
    using assms by (simp add: checksum_onesFold rfc1071_def sumWords_append sumWords_put_be16 onesFold_stands add.assoc)
qed

theorem pseudo_header_checksum_witness:
  "unat (checksum False [0, 53, 0, 53, 0, 9, 0, 0, 65]
      (pseudoHeaderChecksumNoFold False 17 [10, 0, 0, 1] [10, 0, 0, 2] 9)) =
   rfc1071 ([10, 0, 0, 1] @ [10, 0, 0, 2] @ [0, 17] @ put_be16 9 @ [0, 53, 0, 53, 0, 9, 0, 0, 65]) 0"
  by (rule pseudo_header_checksum) simp_all

lemma checksum_complement:
  assumes "even (length a)" "unat v = 65535 - onesFold (unat initial + sumWords a + sumWords c)"
  shows "checksum big (a @ put_be16 v @ c) initial = 0xFFFF"
proof -
  define t where "t = unat initial + sumWords a + sumWords c"
  have "unat (checksum big (a @ put_be16 v @ c) initial) = onesFold (t + (65535 - onesFold t))"
    using assms by (simp add: checksum_onesFold sumWords_append sumWords_put_be16 t_def ac_simps)
  also have "\<dots> = 65535" by (rule onesFold_complement)
  finally have "unat (checksum big (a @ put_be16 v @ c) initial) = unat (0xFFFF :: u16)" by simp
  then show ?thesis by (rule unsigned_word_eqI)
qed

lemma unat_checksum_hole:
  "even (length a) \<Longrightarrow>
   unat (checksum big (a @ [0, 0] @ c) initial) = onesFold (unat initial + sumWords a + sumWords c)"
  by (simp add: checksum_onesFold sumWords_append add.assoc)



lemma stands_onesFold: "stands 1 (onesFold n) n"
  by (cases n) (auto simp: stands_def onesFold_closed mod_simps)

lemma onesFold_add: "onesFold (onesFold n + m) = onesFold (n + m)"
proof (rule onesFold_stands)
  show "stands 1 (onesFold n + m) (n + m)"
    using stands_add [OF stands_onesFold, of m m n] by (simp add: stands_def)
qed

lemma unat_checksum_nil: "unat (checksum big [] s) = onesFold (unat s)"
  by (simp add: checksum_onesFold)

text \<open>What the two users see of a packet that is split at the header and at the checksum field.\<close>

lemma gsoNoneChecksum_split:
  assumes "length h = unat cSumStart" "length a = unat cSumOffset" "unat cSumStart + unat cSumOffset < 65535"
  shows "gsoNoneChecksum big (h @ a @ [x, y] @ c) cSumStart cSumOffset =
         Some (h @ a @ put_be16 (NOT (checksum big (a @ [0, 0] @ c) (ucast (get_be16 [x, y])))) @ c)"
proof -
  have at: "unat (cSumStart + cSumOffset) = length h + length a" "unat (cSumStart + cSumOffset + 1) = Suc (length h + length a)"
    using assms by (simp_all add: unat_word_ariths)
  show ?thesis
    using assms(1)
    by (simp add: gsoNoneChecksum_def Let_def at list_update_append get_be16_def copy_at_def put_be16_def flip: assms(1))
qed

lemma segmentSum_header:
  assumes "length h = unat iphLen" "(if isV6 then 40 else 20) \<le> unat iphLen" "length r = length r'"
  shows "segmentSum big (h @ r) iphLen proto isV6 = segmentSum big (h @ r') iphLen proto isV6"
    "\<exists>s. segmentSum big (h @ r) iphLen proto isV6 = Some s"
  using assms by (auto simp: segmentSum_def ipv4SrcAddrOffset_def ipv6SrcAddrOffset_def subslice_append_left split: if_splits)

lemma packet_split:
  assumes "p + q + 2 \<le> length pkt"
  obtains h a x y c where "pkt = h @ a @ [x :: u8, y] @ c" "length h = p" "length a = q"
proof -
  have "length (take 2 (drop (p + q) pkt)) = 2" using assms by simp
  then obtain x y where "take 2 (drop (p + q) pkt) = [x, y]" by (rule bytes2_cases)
  moreover have "pkt = take p pkt @ take q (drop p pkt) @ take 2 (drop (p + q) pkt) @ drop 2 (drop (p + q) pkt)"
    by (metis append_take_drop_id drop_drop add.commute)
  ultimately show thesis using assms by (intro that [of "take p pkt" "take q (drop p pkt)" x y "drop 2 (drop (p + q) pkt)"]) simp_all
qed

text \<open>
  C21: Completing the checksum of a packet makes it valid: when the checksum field, at an even offset of the transport
  header behind a whole IP header, holds the folded pseudo-header sum, gsoNoneChecksum does not panic, keeps the length of
  the packet, and checksumValid accepts what it leaves.
\<close>

theorem gsoNoneChecksum_valid:
  assumes "(if isV6 then 40 else 20) \<le> unat iphLen" "even (unat cSumOffset)"
    "unat iphLen + unat cSumOffset < 65535" "unat iphLen + unat cSumOffset + 2 \<le> length pkt"
    "segmentSum big pkt iphLen proto isV6 = Some psum"
    "get_be16 (drop (unat iphLen + unat cSumOffset) pkt) = checksum big [] psum"
  shows "\<exists>out. gsoNoneChecksum big pkt (ucast iphLen) cSumOffset = Some out \<and> length out = length pkt \<and>
           checksumValid big out iphLen proto isV6 = Some True"
proof -
  have start: "unat (ucast iphLen :: u16) = unat iphLen"
    using unat_foldl_join [of "[iphLen]", where 'a = 16] by (simp add: beNat_def)
  obtain h a x y c where pkt: "pkt = h @ a @ [x, y] @ c" "length h = unat iphLen" "length a = unat cSumOffset"
    by (rule packet_split [OF assms(4)])
  have field: "get_be16 [x, y] = checksum big [] psum" using assms(6) by (simp add: pkt get_be16_def flip: pkt(2,3))
  define v where "v = NOT (checksum big (a @ [0, 0] @ c) (ucast (get_be16 [x, y])))"
  have "unat v = 65535 - onesFold (unat psum + sumWords a + sumWords c)"
    using assms(2) pkt(3) by (simp only: v_def unat_not16 unat_checksum_hole unat_widen field unat_checksum_nil onesFold_add add.assoc)
  then have "checksum big (a @ put_be16 v @ c) psum = 0xFFFF"
    using assms(2) pkt(3) by (intro checksum_complement) simp_all
  moreover have "segmentSum big (h @ a @ put_be16 v @ c) iphLen proto isV6 = Some psum"
    using segmentSum_header(1) [OF pkt(2) assms(1), of "a @ put_be16 v @ c" "a @ [x, y] @ c" big proto] assms(5) pkt(1) by simp
  ultimately have "checksumValid big (h @ a @ put_be16 v @ c) iphLen proto isV6 = Some True"
    using pkt(2) by (simp add: checksumValid_def)
  moreover have "gsoNoneChecksum big pkt (ucast iphLen) cSumOffset = Some (h @ a @ put_be16 v @ c)"
    unfolding pkt(1) v_def using assms(3) pkt(2,3) by (intro gsoNoneChecksum_split) (simp_all add: start)
  ultimately show ?thesis by (simp add: pkt(1))
qed

lemma udpPacket_sum:
  "segmentSum big udpPacket 20 17 False = Some (pseudoHeaderChecksumNoFold big 17 [10, 0, 0, 1] [10, 0, 0, 2] 9)"
  "checksum big [] (pseudoHeaderChecksumNoFold big 17 [10, 0, 0, 1] [10, 0, 0, 2] 9) = 0x141D"
proof -
  show "segmentSum big udpPacket 20 17 False = Some (pseudoHeaderChecksumNoFold big 17 [10, 0, 0, 1] [10, 0, 0, 2] 9)"
    by (simp add: segmentSum_def ipv4SrcAddrOffset_def udpPacket_def subslice_def)
  let ?p = "pseudoHeaderChecksumNoFold big 17 [10, 0, 0, 1] [10, 0, 0, 2] 9"
  have "unat (checksum big [] ?p) = onesFold (unat ?p)" by (rule unat_checksum_nil)
  also have "\<dots> = unat (0x141D :: u16)"
    using onesFold_stands [OF pseudoHeader_stands, of big 17 "[10, 0, 0, 1]" "[10, 0, 0, 2]" 9] by (simp add: onesFold_closed)
  finally show "checksum big [] ?p = 0x141D" by (rule unsigned_word_eqI)
qed

theorem gsoNoneChecksum_valid_witness:
  "\<exists>out. gsoNoneChecksum False udpPacket (ucast (20 :: u8)) 6 = Some out \<and> length out = length udpPacket \<and>
     checksumValid False out 20 17 False = Some True"
  by (rule gsoNoneChecksum_valid [OF _ _ _ _ udpPacket_sum(1)])
    (simp_all add: udpPacket_sum(2), simp_all add: udpPacket_def get_be16_def)

end
