(* ===== verification/Spec2Isabelle.thy ===== *)
theory Spec2Isabelle
  imports System Checksum
begin

text \<open>
  Verification of the AmneziaWG userspace tunnel, a WireGuard implementation in Go whose datagrams are disguised.

  \<^bold>\<open>The program.\<close> A device owns a private key, a table of peers and a routing table from addresses to peers. A packet read
  from the TUN device is routed to a peer, staged, given a nonce of the peer's current key pair, encrypted by a worker and
  sent in order; without a key pair a Noise handshake is started first. A datagram from the network is recognised by its
  size and its magic header. Handshake messages pass the MACs, the cookies and the rate limiter; transport messages are
  decrypted, pass the replay filter and the check of their source address, and go to the TUN device. Timers repeat
  handshakes, send keepalives and erase keys. The disguise is made of random or protocol-shaped padding, junk datagrams
  and I-packets sent before a handshake, and headers drawn from configured ranges. A text protocol configures all of it.

  \<^bold>\<open>How the code is modelled.\<close> A struct is a record with the fields of the source, an enumeration a datatype, a machine
  integer a word of its width where it can wrap and otherwise an integer, a byte slice a list of 8-bit words. Peers and
  key pairs have identity, so a pointer to one is a number into a heap of the device. An operation is a function on
  the record \<open>Device\<close> that returns the new device; \<^const>\<open>None\<close> is a panic or a call that does not return, and errors the
  code returns are values. A mutex makes the code it guards one step. Three things come from outside and are arguments:
    \<^item> \<open>Crypto\<close>: BLAKE2s, X25519 and the two AEADs, and for the QUIC disguise HMAC, HKDF-Extract, AES-GCM and AES-ECB. The theorems
      that need them assume \<open>cryptoOK\<close> or parts of it: output sizes, opening what was sealed, and commuting scalar
      multiplication; a concrete instance shows that this can hold.
    \<^item> \<open>Net\<close>: the answers of the UDP bind and of the route listener, as a function of the number of calls made so far.
    \<^item> \<open>tape\<close>: the entropy, an infinite sequence of which every draw takes the head.
  The device also carries ghost fields that no code reads: what was sent, what was written to the TUN device, and
  the nonces used under every key pair.

  \<^bold>\<open>Theories and sources.\<close>
    \<^item> \<open>Prelude\<close>: byte order, slices, decimal and hexadecimal text, string splitting and entropy, as Go's library has them.
    \<^item> \<open>Replay\<close> (\<^verbatim>\<open>replay/replay.go\<close>): the sliding window. The locale \<open>anti_replay\<close> states the contract over the set of accepted
      counters; the ring of blocks is shown to refine it, and its laws give that no counter is accepted twice and that
      reordering inside the window loses nothing.
    \<^item> \<open>AllowedIPs\<close> (\<^verbatim>\<open>device/allowedips.go\<close>): the compressed trie. The locale \<open>routing_table\<close> states the contract over a
      function from prefixes to peers; insertion, removal, lookup and the lists of entries refine longest-prefix matching.
    \<^item> \<open>MagicHeader\<close> (\<^verbatim>\<open>device/magic-header.go\<close>), \<open>Imitate\<close> (\<^verbatim>\<open>device/obf_imitate.go\<close>, with the locale \<open>filler\<close> for the writers of
      padding), \<open>QuicInitial\<close> (\<^verbatim>\<open>device/obf_imitate_quic.go\<close>) and \<open>Obf\<close> (\<^verbatim>\<open>device/obf.go\<close> and the tag files beside it): the
      disguise. Round trips of headers and tag chains, exact lengths, padding that leaves the packet alone, and a QUIC
      Initial that a reader can decrypt.
    \<^item> \<open>Tai64n\<close> (\<^verbatim>\<open>tai64n/tai64n.go\<close>) and \<open>Ratelimiter\<close> (\<^verbatim>\<open>ratelimiter/ratelimiter.go\<close>): the order of stamps, and a bound on the
      packets an address gets through in an interval.
    \<^item> \<open>Checksum\<close> (\<^verbatim>\<open>tun/checksum.go\<close> and two functions of \<^verbatim>\<open>tun/offload_linux.go\<close>): the 64-bit sum in machine order equals
      the sum of RFC 1071, and a completed checksum is accepted by the check.
    \<^item> \<open>NoiseCrypto\<close> (\<^verbatim>\<open>device/noise-helpers.go\<close>, \<^verbatim>\<open>device/noise-types.go\<close>): key derivation and key clamping.
    \<^item> \<open>DeviceState\<close>: the records of \<^verbatim>\<open>device/device.go\<close>, \<^verbatim>\<open>device/peer.go\<close>, \<^verbatim>\<open>device/keypair.go\<close> and of the queues.
    \<^item> \<open>IndexTable\<close> (\<^verbatim>\<open>device/indextable.go\<close>, \<^verbatim>\<open>device/keypair.go\<close>), \<open>Noise\<close> (\<^verbatim>\<open>device/noise-protocol.go\<close>) and \<open>Cookie\<close>
      (\<^verbatim>\<open>device/cookie.go\<close>): both ends of a handshake agree on their keys, an index in use is never given out again, and a
      cookie reply makes the next message pass.
    \<^item> \<open>Timers\<close> (\<^verbatim>\<open>device/timers.go\<close>), \<open>Send\<close> (\<^verbatim>\<open>device/send.go\<close>), \<open>Receive\<close> (\<^verbatim>\<open>device/receive.go\<close>) and \<open>DeviceOps\<close>
      (\<^verbatim>\<open>device/peer.go\<close>, \<^verbatim>\<open>device/device.go\<close>, \<^verbatim>\<open>device/tun.go\<close>, \<^verbatim>\<open>device/mobilequirks.go\<close>): one function for every goroutine
      step and every operation. \<open>Transport\<close> follows one packet from the encryption worker of one device to the
      receiver of another.
    \<^item> \<open>Netip\<close> and \<open>Uapi\<close> (\<^verbatim>\<open>device/uapi.go\<close>): the configuration protocol with the parsing it uses of the library.
    \<^item> \<open>Frames\<close>, \<open>Steps\<close>, \<open>Lifecycle\<close> and \<open>Monotone\<close>: lemmas. \<open>Frames\<close> and \<open>Steps\<close> say what a step leaves alone, \<open>Lifecycle\<close> defines
      the invariant \<open>deviceInv\<close> and shows that every operation keeps it, \<open>Monotone\<close> says what never goes back.
    \<^item> \<open>System\<close>: the relation \<open>step\<close> has one rule for every goroutine, timer and public call, taken in any order. Its
      reachable states satisfy \<open>deviceInv\<close>: no nonce is used twice, the table of peers is well formed, routes lead to
      peers of the table, stopped peers have no timers, queues stay within their channels; a closed device stays
      closed, and an initiation is not accepted twice.

  \<^bold>\<open>Termination and bounds.\<close> Loops are total functions where the source bounds them. Three may run on and are partial
  functions into option: \<open>clearBlocks\<close> of the replay filter, proved to return in every state the filter can reach;
  \<open>freshIndex\<close>, proved to return exactly when the entropy ever offers a free index; and \<open>sendStaged\<close>, the loop over the
  staged packets. No fuel is used. A step of \<open>System\<close> is a call that returns, so its invariants say nothing about a
  call that panics; absence of panics is claimed only where a property says so.

  \<^bold>\<open>What is not modelled.\<close> Sockets, TUN drivers, control sockets and the command line are calls to the operating system; what
  they deliver is an argument of the steps. The coalescing and splitting of \<^verbatim>\<open>tun/offload_linux.go\<close>, the Windows bind, the gVisor
  network stack and the Outline dialers are left out. Buffers are values, so the pools of \<^verbatim>\<open>device/pools.go\<close> and the
  reference-counted closing of channels in \<^verbatim>\<open>device/channels.go\<close> have no counterpart. Log output and the text of
  errors are dropped. The map of peers is iterated in one order where Go's is arbitrary. Interleavings inside code that
  holds no lock are not represented: a goroutine handles one item as one step.
\<close>

end
